(* ===== verification/Prelude.thy ===== *)
theory Prelude
  imports Complex_Main "HOL-Library.AList" "HOL-Library.Multiset" "HOL-Library.Char_ord"
    "HOL-Library.List_Lexorder" "HOL-Library.Product_Lexorder" "HOL-Library.Sublist"
begin

text \<open>
  Shared vocabulary of the development.  It fixes how the Python of
  \<^verbatim>\<open>src/synapse\<close> is read:

  \<^item> an exception is a value of \<open>py_error\<close>, a fallible function returns
    \<open>py_error + 'a\<close> with \<open>Inl\<close> for the exception, and \<open>rbind\<close> sequences such
    functions the way statements are sequenced (the first exception ends the run);
  \<^item> a dict is an association list in insertion order (\<open>AList.update\<close> keeps the place
    of an existing key and appends a new one, as Python does), read with \<open>map_of\<close>;
  \<^item> a set is a list without duplicates, in one of the orders Python may iterate it;
  \<^item> a \<^verbatim>\<open>str\<close> is the list of its UTF-8 bytes.  UTF-8 keeps prefixes, the
    position of ASCII characters and the code point order, which is all the code relies
    on; \<open>py_len\<close> counts code points and \<open>length\<close> counts encoded bytes;
  \<^item> \<^verbatim>\<open>heapq\<close> is a list kept sorted, so that the head is what
    \<^verbatim>\<open>heappop\<close> removes.
\<close>

section \<open>Results\<close>

text \<open>The error codes of \<^verbatim>\<open>synapse.api.errors.Codes\<close> the modelled code sets.\<close>

datatype errcode = FORBIDDEN | UNKNOWN | INVALID_PARAM | INSUFFICIENT_POWER | NOT_JOINED
  | ALREADY_JOINED | TOO_LARGE | UNAUTHORIZED | BAD_JSON | MISSING_PARAM | NOT_FOUND

text \<open>
  The exceptions the modelled code raises.  A message is the format string of the source,
  without the values that are formatted into it.
\<close>

datatype py_error =
    AuthError int string
  | UnstableSpecAuthError int string errcode
  | SynapseError int string errcode
  | EventSizeError string bool
  | SignatureVerifyException
  | PyException string
  | RuntimeError string
  | PyKeyError
  | PyIndexError
  | PyAttributeError
  | PyTypeError
  | PyValueError
  | PyAssertionError

text \<open>
  \<^verbatim>\<open>except AuthError\<close> catches the class and its subclass
  \<^verbatim>\<open>UnstableSpecAuthError\<close>; it does not catch the base class
  \<^verbatim>\<open>SynapseError\<close>.
\<close>

fun is_auth_error :: "py_error \<Rightarrow> bool" where
  "is_auth_error (AuthError c m) = True"
| "is_auth_error (UnstableSpecAuthError c m e) = True"
| "is_auth_error _ = False"

type_synonym 'a result = "py_error + 'a"

named_theorems py_simps \<open>unfolding rules of the Python primitives\<close>

definition rbind :: "'a result \<Rightarrow> ('a \<Rightarrow> 'b result) \<Rightarrow> 'b result" where
  "rbind r f = (case r of Inl e \<Rightarrow> Inl e | Inr a \<Rightarrow> f a)"

definition guard_raise :: "bool \<Rightarrow> py_error \<Rightarrow> unit result" where
  "guard_raise b e = (if b then Inl e else Inr ())"

fun is_ok :: "'a result \<Rightarrow> bool" where
  "is_ok (Inr _) = True"
| "is_ok (Inl _) = False"

text \<open>A for loop whose body may raise: left to right, stopping at the first exception.\<close>

fun for_each :: "('a \<Rightarrow> unit result) \<Rightarrow> 'a list \<Rightarrow> unit result" where
  "for_each f [] = Inr ()"
| "for_each f (x # xs) = rbind (f x) (\<lambda>_. for_each f xs)"

text \<open>A list comprehension whose element expression may raise.\<close>

fun rmap :: "('a \<Rightarrow> 'b result) \<Rightarrow> 'a list \<Rightarrow> 'b list result" where
  "rmap f [] = Inr []"
| "rmap f (x # xs) = rbind (f x) (\<lambda>y. rbind (rmap f xs) (\<lambda>ys. Inr (y # ys)))"

text \<open>A for loop that updates a state and may raise.\<close>

fun rfold :: "('a \<Rightarrow> 's \<Rightarrow> 's result) \<Rightarrow> 'a list \<Rightarrow> 's \<Rightarrow> 's result" where
  "rfold f [] s = Inr s"
| "rfold f (x # xs) s = rbind (f x s) (rfold f xs)"

text \<open>
  Code that may also not end: \<open>None\<close> is such a run.  \<open>xbind\<close> sequences it as
  \<open>rbind\<close> does.
\<close>

type_synonym 'a run = "'a result option"

definition xbind :: "'a run \<Rightarrow> ('a \<Rightarrow> 'b run) \<Rightarrow> 'b run" where
  "xbind m f = (case m of None \<Rightarrow> None | Some (Inl e) \<Rightarrow> Some (Inl e) | Some (Inr a) \<Rightarrow> f a)"

text \<open>\<^verbatim>\<open>d[k]\<close>, raising \<^verbatim>\<open>KeyError\<close>.\<close>

definition dict_item :: "('k \<times> 'v) list \<Rightarrow> 'k \<Rightarrow> 'v result" where
  "dict_item d k = (case map_of d k of None \<Rightarrow> Inl PyKeyError | Some v \<Rightarrow> Inr v)"

definition dict_has :: "('k \<times> 'v) list \<Rightarrow> 'k \<Rightarrow> bool" where
  "dict_has d k = (map_of d k \<noteq> None)"

text \<open>\<^verbatim>\<open>d.update(d2)\<close>.\<close>

definition dict_update :: "('k \<times> 'v) list \<Rightarrow> ('k \<times> 'v) list \<Rightarrow> ('k \<times> 'v) list" where
  "dict_update d d2 = fold (\<lambda>(k, v) acc. AList.update k v acc) d2 d"

text \<open>\<^verbatim>\<open>d.setdefault(k, dflt)\<close>, as an update.\<close>

definition dict_setdefault :: "('k \<times> 'v) list \<Rightarrow> 'k \<Rightarrow> 'v \<Rightarrow> ('k \<times> 'v) list" where
  "dict_setdefault d k v = (if dict_has d k then d else AList.update k v d)"

text \<open>\<^verbatim>\<open>s.add(x)\<close> on a set.\<close>

definition set_add :: "'a \<Rightarrow> 'a list \<Rightarrow> 'a list" where
  "set_add x s = (if x \<in> set s then s else s @ [x])"

text \<open>\<^verbatim>\<open>d.get(k, [])\<close> and \<^verbatim>\<open>d.setdefault(k, set()).add(x)\<close>.\<close>

definition dict_get_list :: "('k \<times> 'v list) list \<Rightarrow> 'k \<Rightarrow> 'v list" where
  "dict_get_list d k = (case map_of d k of None \<Rightarrow> [] | Some xs \<Rightarrow> xs)"

definition dict_add_to :: "('k \<times> 'v list) list \<Rightarrow> 'k \<Rightarrow> 'v \<Rightarrow> ('k \<times> 'v list) list" where
  "dict_add_to d k x = AList.update k (set_add x (dict_get_list d k)) d"

section \<open>Strings\<close>

text \<open>A UTF-8 continuation byte.\<close>

definition utf8_cont :: "char \<Rightarrow> bool" where
  "utf8_cont c \<longleftrightarrow> 128 \<le> (of_char c :: nat) \<and> (of_char c :: nat) < 192"

text \<open>\<^verbatim>\<open>len(s)\<close> of a string: its number of code points.\<close>

definition py_len :: "string \<Rightarrow> nat" where
  "py_len s = length (filter (\<lambda>c. \<not> utf8_cont c) s)"

text \<open>\<^verbatim>\<open>s.split(c, 1)\<close>: \<open>None\<close> when the separator does not occur.\<close>

definition split_once :: "char \<Rightarrow> string \<Rightarrow> (string \<times> string) option" where
  "split_once c s =
     (if c \<in> set s then Some (takeWhile (\<lambda>x. x \<noteq> c) s, tl (dropWhile (\<lambda>x. x \<noteq> c) s))
      else None)"

text \<open>\<^verbatim>\<open>s.split(c)\<close>.\<close>

function split_all :: "char \<Rightarrow> string \<Rightarrow> string list" where
  "split_all c s =
     (case split_once c s of None \<Rightarrow> [s] | Some (a, b) \<Rightarrow> a # split_all c b)"
  by pat_completeness auto
termination
proof (relation "measure (\<lambda>(c, s). length s)")
  fix c and s :: string and p :: "string \<times> string" and a b
  assume "split_once c s = Some p" and "(a, b) = p"
  then have c: "c \<in> set s" and b: "b = tl (dropWhile (\<lambda>x. x \<noteq> c) s)"
    by (auto simp: split_once_def split: if_splits)
  from c have "dropWhile (\<lambda>x. x \<noteq> c) s \<noteq> []"
    by (auto simp: dropWhile_eq_Nil_conv)
  moreover have "length (dropWhile (\<lambda>x. x \<noteq> c) s) \<le> length s"
    by (simp add: length_dropWhile_le)
  ultimately show "((c, b), c, s) \<in> measure (\<lambda>(c, s). length s)"
    by (cases "dropWhile (\<lambda>x. x \<noteq> c) s") (auto simp: b)
qed simp

declare split_all.simps [simp del]

text \<open>\<^verbatim>\<open>sep.join(parts)\<close> for a one-character separator.\<close>

fun join_with :: "char \<Rightarrow> string list \<Rightarrow> string" where
  "join_with c [] = []"
| "join_with c [s] = s"
| "join_with c (s # t # ts) = s @ c # join_with c (t # ts)"

section \<open>Heaps\<close>

text \<open>
  \<^verbatim>\<open>heapq\<close> on a list: the list is kept sorted.  The code observes a heap only
  through its emptiness, its first element and \<^verbatim>\<open>heappop\<close>.
\<close>

definition heapify :: "'a::linorder list \<Rightarrow> 'a list" where
  "heapify xs = sort xs"

definition heappush :: "'a::linorder list \<Rightarrow> 'a \<Rightarrow> 'a list" where
  "heappush h x = insort x h"

text \<open>\<^verbatim>\<open>heappop\<close>: the smallest item and the rest; \<open>None\<close> on an empty heap.\<close>

fun heappop :: "'a::linorder list \<Rightarrow> ('a \<times> 'a list) option" where
  "heappop [] = None"
| "heappop (x # xs) = Some (x, xs)"

text \<open>
  What a client may assume of a binary heap: the elements are a multiset, and popping
  takes a least one.
\<close>

locale heap_queue =
  fixes heapf :: "'a::linorder list \<Rightarrow> 'q"
    and push :: "'q \<Rightarrow> 'a \<Rightarrow> 'q"
    and pop :: "'q \<Rightarrow> ('a \<times> 'q) option"
    and elems :: "'q \<Rightarrow> 'a multiset"
    and invar :: "'q \<Rightarrow> bool"
  assumes invar_heapf: "invar (heapf xs)"
    and elems_heapf: "elems (heapf xs) = mset xs"
    and invar_push: "invar q \<Longrightarrow> invar (push q x)"
    and elems_push: "invar q \<Longrightarrow> elems (push q x) = add_mset x (elems q)"
    and pop_None: "invar q \<Longrightarrow> pop q = None \<longleftrightarrow> elems q = {#}"
    and pop_Some: "invar q \<Longrightarrow> pop q = Some (x, q') \<Longrightarrow>
      elems q = add_mset x (elems q') \<and> (\<forall>y \<in># elems q'. x \<le> y) \<and> invar q'"
begin

lemma pushes_invar: "invar q \<Longrightarrow> invar (foldl push q xs)"
  by (induction xs arbitrary: q) (auto simp: invar_push)

lemma pushes_elems: "invar q \<Longrightarrow> elems (foldl push q xs) = elems q + mset xs"
  by (induction xs arbitrary: q) (auto simp: invar_push elems_push)

lemma pop_least: "invar q \<Longrightarrow> pop q = Some (x, q') \<Longrightarrow> y \<in># elems q \<Longrightarrow> x \<le> y"
  using pop_Some[of q x q'] by auto

lemma pop_mem: "invar q \<Longrightarrow> pop q = Some (x, q') \<Longrightarrow> x \<in># elems q"
  using pop_Some[of q x q'] by auto

end

section \<open>Lemmas on results\<close>

lemma rbind_simps [simp]: "rbind (Inl e) f = Inl e" "rbind (Inr a) f = f a"
  by (simp_all add: rbind_def)

lemma rbind_Inr_iff: "rbind r f = Inr b \<longleftrightarrow> (\<exists>a. r = Inr a \<and> f a = Inr b)"
  by (cases r) auto

lemma Inr_rbind_iff: "Inr b = rbind r f \<longleftrightarrow> (\<exists>a. r = Inr a \<and> f a = Inr b)"
  by (cases r) auto

lemma rbind_Inl_iff: "rbind r f = Inl e \<longleftrightarrow> r = Inl e \<or> (\<exists>a. r = Inr a \<and> f a = Inl e)"
  by (cases r) auto

lemma rbind_assoc: "rbind (rbind r f) g = rbind r (\<lambda>x. rbind (f x) g)"
  by (cases r) auto

lemma rbind_cong: "r = r' \<Longrightarrow> (\<And>a. r' = Inr a \<Longrightarrow> f a = f' a) \<Longrightarrow> rbind r f = rbind r' f'"
  by (cases r') auto

lemma xbind_simps [simp]:
  "xbind None f = None" "xbind (Some (Inl e)) f = Some (Inl e)" "xbind (Some (Inr a)) f = f a"
  by (simp_all add: xbind_def)

lemma xbind_Inr_iff: "xbind m f = Some (Inr b) \<longleftrightarrow> (\<exists>a. m = Some (Inr a) \<and> f a = Some (Inr b))"
  by (auto simp: xbind_def split: option.splits sum.splits)

lemma xbind_None: "xbind m f = None \<longleftrightarrow> m = None \<or> (\<exists>a. m = Some (Inr a) \<and> f a = None)"
  by (auto simp: xbind_def split: option.splits sum.splits)

lemma xbind_ends: "m \<noteq> None \<Longrightarrow> (\<And>a. m = Some (Inr a) \<Longrightarrow> f a \<noteq> None) \<Longrightarrow> xbind m f \<noteq> None"
  by (auto simp: xbind_def split: option.splits sum.splits)

lemma guard_raise_simps [simp]:
  "guard_raise True e = Inl e" "guard_raise False e = Inr ()"
  by (simp_all add: guard_raise_def)

lemma guard_raise_Inr [simp]: "guard_raise b e = Inr u \<longleftrightarrow> \<not> b"
  by (simp add: guard_raise_def)

lemma is_ok_iff: "is_ok r \<longleftrightarrow> (\<exists>a. r = Inr a)"
  by (cases r) auto

lemma for_each_Inr: "for_each f xs = Inr u \<longleftrightarrow> (\<forall>x \<in> set xs. f x = Inr ())"
  by (induction xs) (auto simp: rbind_Inr_iff)

lemma for_each_cong:
  "(\<And>x. x \<in> set xs \<Longrightarrow> f x = g x) \<Longrightarrow> for_each f xs = for_each g xs"
  by (induction xs) auto

lemma for_each_append: "for_each f (xs @ ys) = rbind (for_each f xs) (\<lambda>_. for_each f ys)"
  by (induction xs) (auto simp: rbind_assoc)

lemma rmap_Inr_length: "rmap f xs = Inr ys \<Longrightarrow> length ys = length xs"
  by (induction xs arbitrary: ys) (auto simp: rbind_Inr_iff)

lemma rmap_Inr_nth: "rmap f xs = Inr ys \<Longrightarrow> i < length xs \<Longrightarrow> f (xs ! i) = Inr (ys ! i)"
  by (induction xs arbitrary: ys i) (auto simp: rbind_Inr_iff nth_Cons split: nat.splits)

lemma rfold_append: "rfold f (xs @ ys) s = rbind (rfold f xs s) (rfold f ys)"
  by (induction xs arbitrary: s) (auto simp: rbind_def split: sum.splits)

text \<open>Invariant rule for loops that update a state.\<close>

lemma rfold_invariant:
  assumes "rfold f xs s = Inr s'" and "P s"
    and step: "\<And>x t t'. x \<in> set xs \<Longrightarrow> P t \<Longrightarrow> f x t = Inr t' \<Longrightarrow> P t'"
  shows "P s'"
  using assms
proof (induction xs arbitrary: s)
  case Nil
  then show ?case by simp
next
  case (Cons x xs)
  then obtain t where t: "f x s = Inr t" "rfold f xs t = Inr s'"
    by (auto simp: rbind_Inr_iff)
  have "P t" using Cons.prems(2,3) t(1) by auto
  with t(2) Cons.prems(3) show ?case by (auto intro: Cons.IH)
qed

section \<open>Lemmas on dictionaries\<close>

lemma map_of_dict_update: "map_of (dict_update d d2) = map_of d ++ map_of (rev d2)"
proof (induction d2 arbitrary: d)
  case Nil
  then show ?case by (simp add: dict_update_def)
next
  case (Cons kv d2)
  obtain k v where kv: "kv = (k, v)" by (cases kv)
  have "dict_update d (kv # d2) = dict_update (AList.update k v d) d2"
    by (simp add: dict_update_def kv)
  then have "map_of (dict_update d (kv # d2)) = map_of (AList.update k v d) ++ map_of (rev d2)"
    using Cons.IH by simp
  then show ?case
    by (simp add: kv update_conv')
qed

lemma map_of_rev_distinct: "distinct (map fst d) \<Longrightarrow> map_of (rev d) = map_of d"
  by (subst map_of_inject_set) (simp_all add: rev_map [symmetric])

lemma map_of_dict_update_distinct:
  "distinct (map fst d2) \<Longrightarrow> map_of (dict_update d d2) = map_of d ++ map_of d2"
  by (simp add: map_of_dict_update map_of_rev_distinct)

lemma dict_update_cases:
  "map_of (dict_update d d2) k = Some v \<Longrightarrow> map_of d k = Some v \<or> (k, v) \<in> set d2"
  by (auto simp: map_of_dict_update map_add_Some_iff dest!: map_of_SomeD)

lemma distinct_dict_update: "distinct (map fst d) \<Longrightarrow> distinct (map fst (dict_update d d2))"
  by (induction d2 arbitrary: d) (auto simp: dict_update_def distinct_update)

lemma distinct_dict_setdefault: "distinct (map fst d) \<Longrightarrow> distinct (map fst (dict_setdefault d k v))"
  by (simp add: dict_setdefault_def distinct_update)

lemma map_of_filter_snd:
  "distinct (map fst ts) \<Longrightarrow>
     map_of (filter (\<lambda>kv. P (snd kv)) ts) t = (case map_of ts t of Some v \<Rightarrow> if P v then Some v else None | None \<Rightarrow> None)"
  by (induction ts) (auto simp: map_of_eq_None_iff split: option.splits)

lemma dict_update_new: "distinct (map fst d) \<Longrightarrow> dict_update [] d = d"
proof (induction d rule: rev_induct)
  case Nil
  then show ?case by (simp add: dict_update_def)
next
  case (snoc x xs)
  obtain k v where x: "x = (k, v)" by (cases x)
  have "dict_update [] (xs @ [x]) = AList.update k v (dict_update [] xs)" by (simp add: dict_update_def x)
  also have "\<dots> = AList.update k v xs" using snoc by simp
  also have "\<dots> = xs @ [x]" using snoc.prems unfolding x by (induction xs) auto
  finally show ?case .
qed

lemma dict_has_iff: "dict_has d k \<longleftrightarrow> k \<in> fst ` set d"
  by (auto simp: dict_has_def map_of_eq_None_iff)

lemma dict_item_Inr: "dict_item d k = Inr v \<longleftrightarrow> map_of d k = Some v"
  by (auto simp: dict_item_def split: option.splits)

lemma map_of_dict_setdefault:
  "map_of (dict_setdefault d k v) x =
     (if x = k \<and> map_of d k = None then Some v else map_of d x)"
  by (auto simp: dict_setdefault_def dict_has_def update_conv')

lemma set_set_add [simp]: "set (set_add x s) = insert x (set s)"
  by (auto simp: set_add_def)

lemma set_fold_set_add [simp]: "set (fold set_add xs s) = set s \<union> set xs"
  by (induction xs arbitrary: s) auto

lemma distinct_set_add [simp]: "distinct (set_add x s) \<longleftrightarrow> distinct s"
  by (auto simp: set_add_def)

lemma dict_get_list_setdefault [simp]: "dict_get_list (dict_setdefault d k []) x = dict_get_list d x"
  by (auto simp: dict_get_list_def map_of_dict_setdefault split: option.splits)

lemma dict_get_list_add_to:
  "dict_get_list (dict_add_to d k v) x = (if x = k then set_add v (dict_get_list d k) else dict_get_list d x)"
  by (simp add: dict_get_list_def dict_add_to_def update_conv')

lemma dict_has_add_to [simp]: "dict_has (dict_add_to d k v) x \<longleftrightarrow> x = k \<or> dict_has d x"
  by (simp add: dict_has_def dict_add_to_def update_conv')

lemma dict_has_setdefault [simp]: "dict_has (dict_setdefault d k v) x \<longleftrightarrow> x = k \<or> dict_has d x"
  by (auto simp: dict_has_def map_of_dict_setdefault)

section \<open>Lemmas on strings\<close>

lemma py_len_le_bytes: "py_len s \<le> length s"
  by (simp add: py_len_def)

lemma split_once_Some:
  "split_once c s = Some (a, b) \<longleftrightarrow> s = a @ c # b \<and> c \<notin> set a"
proof
  assume sp: "split_once c s = Some (a, b)"
  then have c: "c \<in> set s" and a: "a = takeWhile (\<lambda>x. x \<noteq> c) s"
    and b: "b = tl (dropWhile (\<lambda>x. x \<noteq> c) s)"
    by (auto simp: split_once_def split: if_splits)
  from c have ne: "dropWhile (\<lambda>x. x \<noteq> c) s \<noteq> []"
    by (auto simp: dropWhile_eq_Nil_conv)
  then obtain y ys where y: "dropWhile (\<lambda>x. x \<noteq> c) s = y # ys"
    by (cases "dropWhile (\<lambda>x. x \<noteq> c) s") auto
  then have "s = takeWhile (\<lambda>x. x \<noteq> c) s @ y # ys" and "y = c"
    using dropWhile_eq_Cons_conv [of "\<lambda>x. x \<noteq> c" s y ys] by auto
  with y a b have "s = a @ c # b" by simp
  moreover have "c \<notin> set a" using a by (auto dest: set_takeWhileD)
  ultimately show "s = a @ c # b \<and> c \<notin> set a" by simp
next
  assume s: "s = a @ c # b \<and> c \<notin> set a"
  then have "\<And>x. x \<in> set a \<Longrightarrow> x \<noteq> c" by auto
  with s show "split_once c s = Some (a, b)"
    by (simp add: split_once_def takeWhile_append2 dropWhile_append2)
qed

lemma split_once_None: "split_once c s = None \<longleftrightarrow> c \<notin> set s"
  by (simp add: split_once_def)

lemma split_once_append [simp]: "c \<notin> set a \<Longrightarrow> split_once c (a @ c # b) = Some (a, b)"
  by (simp add: split_once_Some)

lemma split_all_no_sep: "c \<notin> set s \<Longrightarrow> split_all c s = [s]"
  by (subst split_all.simps) (simp add: split_once_None [THEN iffD2])

lemma split_all_sep: "c \<notin> set a \<Longrightarrow> split_all c (a @ c # b) = a # split_all c b"
  by (subst split_all.simps) simp

text \<open>\<^verbatim>\<open>sep.join(parts).split(sep)\<close> gives the parts back.\<close>

lemma split_all_join_with:
  "parts \<noteq> [] \<Longrightarrow> (\<forall>p \<in> set parts. c \<notin> set p) \<Longrightarrow> split_all c (join_with c parts) = parts"
proof (induction c parts rule: join_with.induct)
  case (1 c)
  then show ?case by simp
next
  case (2 c s)
  then show ?case by (simp add: split_all_no_sep)
next
  case (3 c s t ts)
  then show ?case by (simp add: split_all_sep)
qed

section \<open>Heaps meet their contract\<close>

interpretation heapq: heap_queue heapify heappush heappop mset sorted
proof unfold_locales
  fix q q' :: "'a list" and x
  assume s: "sorted q" and p: "heappop q = Some (x, q')"
  then have "q = x # q'" by (cases q) auto
  with s show "mset q = add_mset x (mset q') \<and> (\<forall>y \<in># mset q'. x \<le> y) \<and> sorted q'"
    by auto
next
  fix q :: "'a list"
  show "heappop q = None \<longleftrightarrow> mset q = {#}" by (cases q) auto
qed (simp_all add: heapify_def heappush_def sorted_insort)

end
