(* ===== verification/Json.thy ===== *)
theory Json
  imports Prelude
begin

text \<open>
  JSON values as the interpreter holds them, and the Python operations the code applies
  to values whose type it has not checked: \<^verbatim>\<open>int(v)\<close>,
  \<^verbatim>\<open>v.get(k)\<close>, \<^verbatim>\<open>k in v\<close>, \<^verbatim>\<open>v[k]\<close>,
  \<^verbatim>\<open>list(v)\<close>.  Each operation has every exception of the interpreter as a
  branch.  A finite float is its mantissa and binary exponent, \<open>JFloat m e\<close> for
  \<open>m * 2 ^ e\<close>.  Decimal numerals are read in the ASCII grammar of
  \<^verbatim>\<open>int(str)\<close>: surrounding white space, a sign, digits with single
  underscores between them.
\<close>

datatype json = JNull | JBool bool | JInt int | JFloat int int | JStr string
  | JList "json list" | JObj "(string \<times> json) list"

type_synonym json_obj = "(string \<times> json) list"

section \<open>Decimal numerals\<close>

definition is_digit :: "char \<Rightarrow> bool" where
  "is_digit c \<longleftrightarrow> 48 \<le> (of_char c :: nat) \<and> (of_char c :: nat) \<le> 57"

definition digit_val :: "char \<Rightarrow> nat" where
  "digit_val c = of_char c - 48"

definition digit_char :: "nat \<Rightarrow> char" where
  "digit_char n = char_of (48 + n)"

definition py_space :: "char \<Rightarrow> bool" where
  "py_space c \<longleftrightarrow> (let n = (of_char c :: nat) in n = 32 \<or> (9 \<le> n \<and> n \<le> 13) \<or> (28 \<le> n \<and> n \<le> 31))"

definition py_strip :: "string \<Rightarrow> string" where
  "py_strip s = rev (dropWhile py_space (rev (dropWhile py_space s)))"

text \<open>The digits of \<^verbatim>\<open>int(s)\<close>; the flag says that the last character was a digit.\<close>

fun parse_digits :: "bool \<Rightarrow> string \<Rightarrow> nat \<Rightarrow> nat option" where
  "parse_digits prev [] acc = (if prev then Some acc else None)"
| "parse_digits prev (c # cs) acc =
     (if is_digit c then parse_digits True cs (acc * 10 + digit_val c)
      else if c = CHR ''_'' \<and> prev then parse_digits False cs acc
      else None)"

definition parse_int :: "string \<Rightarrow> int option" where
  "parse_int s =
     (case py_strip s of
        [] \<Rightarrow> None
      | c # cs \<Rightarrow>
          if c = CHR ''-'' then map_option (\<lambda>n. - int n) (parse_digits False cs 0)
          else if c = CHR ''+'' then map_option int (parse_digits False cs 0)
          else map_option int (parse_digits False (c # cs) 0))"

text \<open>\<^verbatim>\<open>int(s)\<close> of a string.\<close>

definition py_int_of_str :: "string \<Rightarrow> int result" where
  "py_int_of_str s = (case parse_int s of None \<Rightarrow> Inl PyValueError | Some i \<Rightarrow> Inr i)"

text \<open>\<^verbatim>\<open>str(i)\<close> and \<^verbatim>\<open>"%d" % i\<close>.\<close>

fun show_nat :: "nat \<Rightarrow> string" where
  "show_nat n = (if n < 10 then [digit_char n] else show_nat (n div 10) @ [digit_char (n mod 10)])"

declare show_nat.simps [simp del]

definition show_int :: "int \<Rightarrow> string" where
  "show_int i = (if i < 0 then CHR ''-'' # show_nat (nat (- i)) else show_nat (nat i))"

section \<open>Operations on values of unknown type\<close>

definition float_trunc :: "int \<Rightarrow> int \<Rightarrow> int" where
  "float_trunc m e = (if 0 \<le> e then m * 2 ^ nat e else sgn m * (\<bar>m\<bar> div 2 ^ nat (- e)))"

fun py_int :: "json \<Rightarrow> int result" where
  "py_int (JInt i) = Inr i"
| "py_int (JBool b) = Inr (if b then 1 else 0)"
| "py_int (JFloat m e) = Inr (float_trunc m e)"
| "py_int (JStr s) = py_int_of_str s"
| "py_int _ = Inl PyTypeError"

text \<open>\<^verbatim>\<open>d.get(k, dflt)\<close> on a dict, and \<^verbatim>\<open>v.get(k)\<close> on any value.\<close>

definition jget :: "json_obj \<Rightarrow> string \<Rightarrow> json \<Rightarrow> json" where
  "jget d k dflt = (case map_of d k of None \<Rightarrow> dflt | Some v \<Rightarrow> v)"

fun py_get :: "json \<Rightarrow> string \<Rightarrow> json \<Rightarrow> json result" where
  "py_get (JObj d) k dflt = Inr (jget d k dflt)"
| "py_get _ k dflt = Inl PyAttributeError"

fun py_items :: "json \<Rightarrow> json_obj result" where
  "py_items (JObj d) = Inr d"
| "py_items _ = Inl PyAttributeError"

function utf8_chars :: "string \<Rightarrow> string list" where
  "utf8_chars [] = []"
| "utf8_chars (c # cs) = (c # takeWhile utf8_cont cs) # utf8_chars (dropWhile utf8_cont cs)"
  by pat_completeness auto
termination
  by (relation "measure length") (auto simp: length_dropWhile_le le_imp_less_Suc)

text \<open>\<^verbatim>\<open>list(v)\<close>.\<close>

fun py_iter :: "json \<Rightarrow> json list result" where
  "py_iter (JList xs) = Inr xs"
| "py_iter (JObj d) = Inr (map (\<lambda>kv. JStr (fst kv)) d)"
| "py_iter (JStr s) = Inr (map JStr (utf8_chars s))"
| "py_iter _ = Inl PyTypeError"

fun is_mapping :: "json \<Rightarrow> bool" where
  "is_mapping (JObj d) = True"
| "is_mapping _ = False"

fun is_int :: "json \<Rightarrow> bool" where
  "is_int (JInt i) = True"
| "is_int _ = False"

fun hashable :: "json \<Rightarrow> bool" where
  "hashable (JList xs) = False"
| "hashable (JObj d) = False"
| "hashable _ = True"

fun number_of :: "json \<Rightarrow> (int \<times> int) option" where
  "number_of (JInt i) = Some (i, 0)"
| "number_of (JBool b) = Some (if b then 1 else 0, 0)"
| "number_of (JFloat m e) = Some (m, e)"
| "number_of _ = None"

text \<open>\<^verbatim>\<open>==\<close> between a hashable value and any value: numbers compare across types.\<close>

definition scalar_eq :: "json \<Rightarrow> json \<Rightarrow> bool" where
  "scalar_eq x y =
     (case (number_of x, number_of y) of
        (Some (m, e), Some (n, f)) \<Rightarrow>
          m * 2 ^ nat (e - min e f) = n * 2 ^ nat (f - min e f)
      | _ \<Rightarrow> x = y)"

fun has_substring :: "string \<Rightarrow> string \<Rightarrow> bool" where
  "has_substring k [] = (k = [])"
| "has_substring k (c # cs) = (prefix k (c # cs) \<or> has_substring k cs)"

text \<open>\<^verbatim>\<open>k in v\<close> for a hashable \<open>k\<close>.\<close>

fun py_contains :: "json \<Rightarrow> json \<Rightarrow> bool result" where
  "py_contains k (JObj d) = Inr (case k of JStr s \<Rightarrow> dict_has d s | _ \<Rightarrow> False)"
| "py_contains k (JList xs) = Inr (list_ex (scalar_eq k) xs)"
| "py_contains k (JStr s) = (case k of JStr t \<Rightarrow> Inr (has_substring t s) | _ \<Rightarrow> Inl PyTypeError)"
| "py_contains k _ = Inl PyTypeError"

text \<open>\<^verbatim>\<open>xs[i]\<close>: a negative index counts from the end, \<^verbatim>\<open>xs[-1]\<close> being the last item.\<close>

definition nth_or_raise :: "'a list \<Rightarrow> nat \<Rightarrow> 'a result" where
  "nth_or_raise xs k = (case drop k xs of [] \<Rightarrow> Inl PyIndexError | x # _ \<Rightarrow> Inr x)"

definition seq_item :: "'a list \<Rightarrow> int \<Rightarrow> 'a result" where
  "seq_item xs i = (if i \<ge> 0 then nth_or_raise xs (nat i) else nth_or_raise (rev xs) (nat (- i - 1)))"

definition index_of :: "json \<Rightarrow> int result" where
  "index_of k = (case k of JInt i \<Rightarrow> Inr i | JBool b \<Rightarrow> Inr (if b then 1 else 0)
     | _ \<Rightarrow> Inl PyTypeError)"

text \<open>\<^verbatim>\<open>v[k]\<close> for a hashable \<open>k\<close>.\<close>

fun py_item :: "json \<Rightarrow> json \<Rightarrow> json result" where
  "py_item (JObj d) k = (case k of JStr s \<Rightarrow> dict_item d s | _ \<Rightarrow> Inl PyKeyError)"
| "py_item (JList xs) k = rbind (index_of k) (seq_item xs)"
| "py_item (JStr s) k = rbind (index_of k) (\<lambda>i. rbind (seq_item (utf8_chars s) i) (\<lambda>c. Inr (JStr c)))"
| "py_item _ k = Inl PyTypeError"

text \<open>\<^verbatim>\<open>set(...)\<close> over values: an unhashable element raises.\<close>

definition py_set :: "json list \<Rightarrow> json list result" where
  "py_set xs = (if list_all hashable xs then Inr (remdups xs) else Inl PyTypeError)"

section \<open>Printing and reading numerals\<close>

lemma is_digit_digit_char: "n < 10 \<Longrightarrow> is_digit (digit_char n)"
  by (simp add: is_digit_def digit_char_def)

lemma digit_val_digit_char: "n < 10 \<Longrightarrow> digit_val (digit_char n) = n"
  by (simp add: digit_val_def digit_char_def)

lemma show_nat_nonempty [simp]: "show_nat n \<noteq> []"
  by (subst show_nat.simps) simp

lemma show_nat_digits: "\<forall>c \<in> set (show_nat n). is_digit c"
proof (induction n rule: show_nat.induct)
  case (1 n)
  show ?case
  proof (cases "n < 10")
    case True
    then show ?thesis by (subst show_nat.simps) (simp add: is_digit_digit_char)
  next
    case False
    with 1 have "\<forall>c \<in> set (show_nat (n div 10)). is_digit c" by simp
    with False show ?thesis by (subst show_nat.simps) (simp add: is_digit_digit_char)
  qed
qed

lemma parse_digits_foldl:
  "\<forall>c \<in> set cs. is_digit c \<Longrightarrow> cs \<noteq> [] \<or> prev \<Longrightarrow>
     parse_digits prev cs acc = Some (foldl (\<lambda>a c. a * 10 + digit_val c) acc cs)"
  by (induction cs arbitrary: prev acc) auto

lemma foldl_show_nat: "foldl (\<lambda>a c. a * 10 + digit_val c) 0 (show_nat n) = n"
proof (induction n rule: show_nat.induct)
  case (1 n)
  show ?case
  proof (cases "n < 10")
    case True
    then show ?thesis by (subst show_nat.simps) (simp add: digit_val_digit_char)
  next
    case False
    with 1 have "foldl (\<lambda>a c. a * 10 + digit_val c) 0 (show_nat (n div 10)) = n div 10" by simp
    with False show ?thesis by (subst show_nat.simps) (simp add: digit_val_digit_char)
  qed
qed

lemma digit_not_special:
  "is_digit c \<Longrightarrow> \<not> py_space c" "is_digit c \<Longrightarrow> c \<noteq> CHR ''-''" "is_digit c \<Longrightarrow> c \<noteq> CHR ''+''"
  "is_digit c \<Longrightarrow> c \<noteq> CHR ''~''" "is_digit c \<Longrightarrow> c \<noteq> CHR ''.''" "is_digit c \<Longrightarrow> c \<noteq> CHR ''_''"
  by (auto simp: is_digit_def py_space_def Let_def)

lemma minus_not_space [simp]: "\<not> py_space (CHR ''-'')"
  by (simp add: py_space_def)

lemma py_strip_no_space: "\<forall>c \<in> set s. \<not> py_space c \<Longrightarrow> py_strip s = s"
proof -
  assume s: "\<forall>c \<in> set s. \<not> py_space c"
  have id: "dropWhile py_space t = t" if "\<forall>c \<in> set t. \<not> py_space c" for t
    using that by (cases t) auto
  show ?thesis using s by (simp add: py_strip_def id)
qed

lemma parse_digits_show_nat: "parse_digits False (show_nat n) 0 = Some n"
  by (subst parse_digits_foldl) (auto simp: show_nat_digits foldl_show_nat)

text \<open>\<^verbatim>\<open>int(str(i)) == i\<close>.\<close>

lemma parse_int_show_int: "parse_int (show_int i) = Some i"
proof (cases "i < 0")
  case True
  have "\<forall>c \<in> set (show_int i). \<not> py_space c"
    using True show_nat_digits [of "nat (- i)"]
    by (auto simp: show_int_def digit_not_special)
  with True show ?thesis
    by (simp add: parse_int_def py_strip_no_space) (simp add: show_int_def parse_digits_show_nat)
next
  case False
  have "\<forall>c \<in> set (show_int i). \<not> py_space c"
    using False show_nat_digits [of "nat i"] by (auto simp: show_int_def digit_not_special)
  moreover obtain c cs where c: "show_nat (nat i) = c # cs"
    by (cases "show_nat (nat i)") auto
  moreover have "is_digit c" using c show_nat_digits [of "nat i"] by simp
  ultimately show ?thesis
    using False parse_digits_show_nat [of "nat i"]
    by (simp add: parse_int_def py_strip_no_space show_int_def digit_not_special)
qed

lemma py_int_of_str_show_int [simp]: "py_int_of_str (show_int i) = Inr i"
  by (simp add: py_int_of_str_def parse_int_show_int)

lemma show_int_chars: "c \<in> set (show_int i) \<Longrightarrow> is_digit c \<or> c = CHR ''-''"
  using show_nat_digits by (auto simp: show_int_def split: if_splits)

lemma show_int_no_sep [simp]:
  "CHR ''~'' \<notin> set (show_int i)" "CHR ''.'' \<notin> set (show_int i)" "CHR ''_'' \<notin> set (show_int i)"
  using show_int_chars [of _ i] digit_not_special by fastforce+

lemma show_nat_no_minus: "CHR ''-'' \<notin> set (show_nat n)"
  using show_nat_digits [of n] digit_not_special(2) by blast

end
