(* ===== verification/Room_Versions.thy ===== *)
theory Room_Versions
  imports Prelude
begin

text \<open>
  \<^verbatim>\<open>synapse/api/room_versions.py\<close>: the table of room versions.  Every flag
  the other components branch on is a field of \<open>room_version\<close>, and every version of
  the table is a constant.  The lemmas at the end record which flags imply which others
  over the whole table; the authorisation proofs use them.
\<close>

datatype room_disposition = STABLE | UNSTABLE

datatype event_format_version = ROOM_V1_V2 | ROOM_V3 | ROOM_V4_PLUS

datatype state_resolution_version = SR_V1 | SR_V2

record room_version =
  rv_identifier :: string
  disposition :: room_disposition
  event_format :: event_format_version
  state_res :: state_resolution_version
  enforce_key_validity :: bool
  special_case_aliases_auth :: bool
  strict_canonicaljson :: bool
  limit_notifications_power_levels :: bool
  implicit_room_creator :: bool
  updated_redaction_rules :: bool
  restricted_join_rule :: bool
  restricted_join_rule_fix :: bool
  knock_join_rule :: bool
  msc3389_relation_redactions :: bool
  knock_restricted_join_rule :: bool
  enforce_int_power_levels :: bool
  msc3931_push_features :: "string list"

definition V1 :: room_version where
  "V1 = \<lparr>rv_identifier = ''1'',
     disposition = STABLE,
     event_format = ROOM_V1_V2,
     state_res = SR_V1,
     enforce_key_validity = False,
     special_case_aliases_auth = True,
     strict_canonicaljson = False,
     limit_notifications_power_levels = False,
     implicit_room_creator = False,
     updated_redaction_rules = False,
     restricted_join_rule = False,
     restricted_join_rule_fix = False,
     knock_join_rule = False,
     msc3389_relation_redactions = False,
     knock_restricted_join_rule = False,
     enforce_int_power_levels = False,
     msc3931_push_features = []\<rparr>"

definition V2 :: room_version where
  "V2 = \<lparr>rv_identifier = ''2'',
     disposition = STABLE,
     event_format = ROOM_V1_V2,
     state_res = SR_V2,
     enforce_key_validity = False,
     special_case_aliases_auth = True,
     strict_canonicaljson = False,
     limit_notifications_power_levels = False,
     implicit_room_creator = False,
     updated_redaction_rules = False,
     restricted_join_rule = False,
     restricted_join_rule_fix = False,
     knock_join_rule = False,
     msc3389_relation_redactions = False,
     knock_restricted_join_rule = False,
     enforce_int_power_levels = False,
     msc3931_push_features = []\<rparr>"

definition V3 :: room_version where
  "V3 = \<lparr>rv_identifier = ''3'',
     disposition = STABLE,
     event_format = ROOM_V3,
     state_res = SR_V2,
     enforce_key_validity = False,
     special_case_aliases_auth = True,
     strict_canonicaljson = False,
     limit_notifications_power_levels = False,
     implicit_room_creator = False,
     updated_redaction_rules = False,
     restricted_join_rule = False,
     restricted_join_rule_fix = False,
     knock_join_rule = False,
     msc3389_relation_redactions = False,
     knock_restricted_join_rule = False,
     enforce_int_power_levels = False,
     msc3931_push_features = []\<rparr>"

definition V4 :: room_version where
  "V4 = \<lparr>rv_identifier = ''4'',
     disposition = STABLE,
     event_format = ROOM_V4_PLUS,
     state_res = SR_V2,
     enforce_key_validity = False,
     special_case_aliases_auth = True,
     strict_canonicaljson = False,
     limit_notifications_power_levels = False,
     implicit_room_creator = False,
     updated_redaction_rules = False,
     restricted_join_rule = False,
     restricted_join_rule_fix = False,
     knock_join_rule = False,
     msc3389_relation_redactions = False,
     knock_restricted_join_rule = False,
     enforce_int_power_levels = False,
     msc3931_push_features = []\<rparr>"

definition V5 :: room_version where
  "V5 = \<lparr>rv_identifier = ''5'',
     disposition = STABLE,
     event_format = ROOM_V4_PLUS,
     state_res = SR_V2,
     enforce_key_validity = True,
     special_case_aliases_auth = True,
     strict_canonicaljson = False,
     limit_notifications_power_levels = False,
     implicit_room_creator = False,
     updated_redaction_rules = False,
     restricted_join_rule = False,
     restricted_join_rule_fix = False,
     knock_join_rule = False,
     msc3389_relation_redactions = False,
     knock_restricted_join_rule = False,
     enforce_int_power_levels = False,
     msc3931_push_features = []\<rparr>"

definition V6 :: room_version where
  "V6 = \<lparr>rv_identifier = ''6'',
     disposition = STABLE,
     event_format = ROOM_V4_PLUS,
     state_res = SR_V2,
     enforce_key_validity = True,
     special_case_aliases_auth = False,
     strict_canonicaljson = True,
     limit_notifications_power_levels = True,
     implicit_room_creator = False,
     updated_redaction_rules = False,
     restricted_join_rule = False,
     restricted_join_rule_fix = False,
     knock_join_rule = False,
     msc3389_relation_redactions = False,
     knock_restricted_join_rule = False,
     enforce_int_power_levels = False,
     msc3931_push_features = []\<rparr>"

definition V7 :: room_version where
  "V7 = \<lparr>rv_identifier = ''7'',
     disposition = STABLE,
     event_format = ROOM_V4_PLUS,
     state_res = SR_V2,
     enforce_key_validity = True,
     special_case_aliases_auth = False,
     strict_canonicaljson = True,
     limit_notifications_power_levels = True,
     implicit_room_creator = False,
     updated_redaction_rules = False,
     restricted_join_rule = False,
     restricted_join_rule_fix = False,
     knock_join_rule = True,
     msc3389_relation_redactions = False,
     knock_restricted_join_rule = False,
     enforce_int_power_levels = False,
     msc3931_push_features = []\<rparr>"

definition V8 :: room_version where
  "V8 = \<lparr>rv_identifier = ''8'',
     disposition = STABLE,
     event_format = ROOM_V4_PLUS,
     state_res = SR_V2,
     enforce_key_validity = True,
     special_case_aliases_auth = False,
     strict_canonicaljson = True,
     limit_notifications_power_levels = True,
     implicit_room_creator = False,
     updated_redaction_rules = False,
     restricted_join_rule = True,
     restricted_join_rule_fix = False,
     knock_join_rule = True,
     msc3389_relation_redactions = False,
     knock_restricted_join_rule = False,
     enforce_int_power_levels = False,
     msc3931_push_features = []\<rparr>"

definition V9 :: room_version where
  "V9 = \<lparr>rv_identifier = ''9'',
     disposition = STABLE,
     event_format = ROOM_V4_PLUS,
     state_res = SR_V2,
     enforce_key_validity = True,
     special_case_aliases_auth = False,
     strict_canonicaljson = True,
     limit_notifications_power_levels = True,
     implicit_room_creator = False,
     updated_redaction_rules = False,
     restricted_join_rule = True,
     restricted_join_rule_fix = True,
     knock_join_rule = True,
     msc3389_relation_redactions = False,
     knock_restricted_join_rule = False,
     enforce_int_power_levels = False,
     msc3931_push_features = []\<rparr>"

definition V10 :: room_version where
  "V10 = \<lparr>rv_identifier = ''10'',
     disposition = STABLE,
     event_format = ROOM_V4_PLUS,
     state_res = SR_V2,
     enforce_key_validity = True,
     special_case_aliases_auth = False,
     strict_canonicaljson = True,
     limit_notifications_power_levels = True,
     implicit_room_creator = False,
     updated_redaction_rules = False,
     restricted_join_rule = True,
     restricted_join_rule_fix = True,
     knock_join_rule = True,
     msc3389_relation_redactions = False,
     knock_restricted_join_rule = True,
     enforce_int_power_levels = True,
     msc3931_push_features = []\<rparr>"

definition MSC1767v10 :: room_version where
  "MSC1767v10 = \<lparr>rv_identifier = ''org.matrix.msc1767.10'',
     disposition = UNSTABLE,
     event_format = ROOM_V4_PLUS,
     state_res = SR_V2,
     enforce_key_validity = True,
     special_case_aliases_auth = False,
     strict_canonicaljson = True,
     limit_notifications_power_levels = True,
     implicit_room_creator = False,
     updated_redaction_rules = False,
     restricted_join_rule = True,
     restricted_join_rule_fix = True,
     knock_join_rule = True,
     msc3389_relation_redactions = False,
     knock_restricted_join_rule = True,
     enforce_int_power_levels = True,
     msc3931_push_features = [''org.matrix.msc3932.extensible_events'']\<rparr>"

definition V11 :: room_version where
  "V11 = \<lparr>rv_identifier = ''11'',
     disposition = STABLE,
     event_format = ROOM_V4_PLUS,
     state_res = SR_V2,
     enforce_key_validity = True,
     special_case_aliases_auth = False,
     strict_canonicaljson = True,
     limit_notifications_power_levels = True,
     implicit_room_creator = True,
     updated_redaction_rules = True,
     restricted_join_rule = True,
     restricted_join_rule_fix = True,
     knock_join_rule = True,
     msc3389_relation_redactions = False,
     knock_restricted_join_rule = True,
     enforce_int_power_levels = True,
     msc3931_push_features = []\<rparr>"

definition all_room_versions :: "room_version list" where
  "all_room_versions = [V1, V2, V3, V4, V5, V6, V7, V8, V9, V10, V11]"

text \<open>\<^verbatim>\<open>KNOWN_ROOM_VERSIONS\<close>: the dict from identifier to version.\<close>

definition KNOWN_ROOM_VERSIONS :: "(string \<times> room_version) list" where
  "KNOWN_ROOM_VERSIONS = map (\<lambda>v. (rv_identifier v, v)) all_room_versions"

text \<open>One entry of \<^verbatim>\<open>MSC3244_CAPABILITIES\<close>: the identifiers with support.\<close>

definition capability_support :: "(room_version \<Rightarrow> bool) \<Rightarrow> string list" where
  "capability_support chk = map fst (filter (\<lambda>kv. chk (snd kv)) KNOWN_ROOM_VERSIONS)"

definition MSC3244_CAPABILITIES :: "(string \<times> string option \<times> string list) list" where
  "MSC3244_CAPABILITIES =
     [(''knock'', Some (rv_identifier V7), capability_support knock_join_rule),
      (''restricted'', Some (rv_identifier V9), capability_support restricted_join_rule)]"

section \<open>Relations between the flags\<close>

text \<open>A version the code can construct: one of the table, or the unstable extra one.\<close>

definition valid_room_version :: "room_version \<Rightarrow> bool" where
  "valid_room_version v \<longleftrightarrow> v \<in> set all_room_versions \<or> v = MSC1767v10"

lemmas room_version_defs =
  V1_def V2_def V3_def V4_def V5_def V6_def V7_def V8_def V9_def V10_def MSC1767v10_def V11_def

lemma knock_restricted_imp_restricted:
  "valid_room_version v \<Longrightarrow> knock_restricted_join_rule v \<Longrightarrow> restricted_join_rule v"
  by (auto simp: valid_room_version_def all_room_versions_def room_version_defs)

lemma knock_restricted_imp_knock:
  "valid_room_version v \<Longrightarrow> knock_restricted_join_rule v \<Longrightarrow> knock_join_rule v"
  by (auto simp: valid_room_version_def all_room_versions_def room_version_defs)

lemma restricted_fix_imp_restricted:
  "valid_room_version v \<Longrightarrow> restricted_join_rule_fix v \<Longrightarrow> restricted_join_rule v"
  by (auto simp: valid_room_version_def all_room_versions_def room_version_defs)

lemma updated_redaction_imp_fix:
  "valid_room_version v \<Longrightarrow> updated_redaction_rules v \<Longrightarrow>
     restricted_join_rule_fix v \<and> implicit_room_creator v"
  by (auto simp: valid_room_version_def all_room_versions_def room_version_defs)

lemma state_res_v1_only_V1:
  "valid_room_version v \<Longrightarrow> state_res v = SR_V1 \<longleftrightarrow> v = V1"
  by (auto simp: valid_room_version_def all_room_versions_def room_version_defs)

lemma known_room_versions_lookup:
  "map_of KNOWN_ROOM_VERSIONS i = Some v \<Longrightarrow> rv_identifier v = i \<and> v \<in> set all_room_versions"
  by (auto simp: KNOWN_ROOM_VERSIONS_def dest!: map_of_SomeD)

end
