(* ===== verification/Events.thy ===== *)
theory Events
  imports Json Room_Versions
begin

text \<open>
  \<^verbatim>\<open>synapse/events/__init__.py\<close>: the event object.  The record has the entries of
  \<^verbatim>\<open>EventBase._dict\<close> that the class exposes as properties, with the types the
  class annotates, and the attributes set by \<^verbatim>\<open>__init__\<close>.
  \<^verbatim>\<open>state_key\<close> is the one property the code tests for presence, so it is an
  option; reading it when absent raises \<^verbatim>\<open>AttributeError\<close>.  The content of an
  event is an unchecked JSON object.  Event IDs (the stored one of the V1 format, the
  reference hash of the later formats) are a field.
\<close>

section \<open>Constants\<close>

abbreviation (input) Membership_INVITE :: string where "Membership_INVITE \<equiv> ''invite''"
abbreviation (input) Membership_JOIN :: string where "Membership_JOIN \<equiv> ''join''"
abbreviation (input) Membership_KNOCK :: string where "Membership_KNOCK \<equiv> ''knock''"
abbreviation (input) Membership_LEAVE :: string where "Membership_LEAVE \<equiv> ''leave''"
abbreviation (input) Membership_BAN :: string where "Membership_BAN \<equiv> ''ban''"

abbreviation (input) JoinRules_PUBLIC :: string where "JoinRules_PUBLIC \<equiv> ''public''"
abbreviation (input) JoinRules_KNOCK :: string where "JoinRules_KNOCK \<equiv> ''knock''"
abbreviation (input) JoinRules_INVITE :: string where "JoinRules_INVITE \<equiv> ''invite''"
abbreviation (input) JoinRules_RESTRICTED :: string where "JoinRules_RESTRICTED \<equiv> ''restricted''"
abbreviation (input) JoinRules_KNOCK_RESTRICTED :: string where
  "JoinRules_KNOCK_RESTRICTED \<equiv> ''knock_restricted''"

definition EventTypes_Member :: string where "EventTypes_Member = ''m.room.member''"
definition EventTypes_Create :: string where "EventTypes_Create = ''m.room.create''"
definition EventTypes_JoinRules :: string where "EventTypes_JoinRules = ''m.room.join_rules''"
definition EventTypes_PowerLevels :: string where "EventTypes_PowerLevels = ''m.room.power_levels''"
definition EventTypes_Aliases :: string where "EventTypes_Aliases = ''m.room.aliases''"
definition EventTypes_Redaction :: string where "EventTypes_Redaction = ''m.room.redaction''"
definition EventTypes_ThirdPartyInvite :: string where
  "EventTypes_ThirdPartyInvite = ''m.room.third_party_invite''"
definition EventTypes_RoomHistoryVisibility :: string where
  "EventTypes_RoomHistoryVisibility = ''m.room.history_visibility''"

lemmas EventTypes_defs = EventTypes_Member_def EventTypes_Create_def EventTypes_JoinRules_def
  EventTypes_PowerLevels_def EventTypes_Aliases_def EventTypes_Redaction_def
  EventTypes_ThirdPartyInvite_def EventTypes_RoomHistoryVisibility_def

lemma EventTypes_distinct [simp]:
  "EventTypes_Member \<noteq> EventTypes_Create" "EventTypes_Create \<noteq> EventTypes_Member"
  "EventTypes_Member \<noteq> EventTypes_JoinRules" "EventTypes_JoinRules \<noteq> EventTypes_Member"
  "EventTypes_Member \<noteq> EventTypes_PowerLevels" "EventTypes_PowerLevels \<noteq> EventTypes_Member"
  "EventTypes_Member \<noteq> EventTypes_Aliases" "EventTypes_Aliases \<noteq> EventTypes_Member"
  "EventTypes_Member \<noteq> EventTypes_Redaction" "EventTypes_Redaction \<noteq> EventTypes_Member"
  "EventTypes_Member \<noteq> EventTypes_ThirdPartyInvite" "EventTypes_ThirdPartyInvite \<noteq> EventTypes_Member"
  "EventTypes_Create \<noteq> EventTypes_JoinRules" "EventTypes_JoinRules \<noteq> EventTypes_Create"
  "EventTypes_Create \<noteq> EventTypes_PowerLevels" "EventTypes_PowerLevels \<noteq> EventTypes_Create"
  "EventTypes_Create \<noteq> EventTypes_Aliases" "EventTypes_Aliases \<noteq> EventTypes_Create"
  "EventTypes_Create \<noteq> EventTypes_ThirdPartyInvite" "EventTypes_ThirdPartyInvite \<noteq> EventTypes_Create"
  "EventTypes_PowerLevels \<noteq> EventTypes_JoinRules" "EventTypes_JoinRules \<noteq> EventTypes_PowerLevels"
  "EventTypes_PowerLevels \<noteq> EventTypes_Aliases" "EventTypes_Aliases \<noteq> EventTypes_PowerLevels"
  "EventTypes_PowerLevels \<noteq> EventTypes_ThirdPartyInvite"
  "EventTypes_ThirdPartyInvite \<noteq> EventTypes_PowerLevels"
  "EventTypes_PowerLevels \<noteq> EventTypes_Redaction" "EventTypes_Redaction \<noteq> EventTypes_PowerLevels"
  "EventTypes_ThirdPartyInvite \<noteq> EventTypes_Redaction" "EventTypes_Redaction \<noteq> EventTypes_ThirdPartyInvite"
  by (simp_all add: EventTypes_defs)

abbreviation (input) AUTHORISING_USER :: string where
  "AUTHORISING_USER \<equiv> ''join_authorised_via_users_server''"
abbreviation (input) ROOM_CREATOR :: string where "ROOM_CREATOR \<equiv> ''creator''"
abbreviation (input) FEDERATE :: string where "FEDERATE \<equiv> ''m.federate''"

section \<open>Events\<close>

type_synonym state_key = "string \<times> string"

record event =
  ev_type :: string
  ev_sender :: string
  ev_room_id :: string
  ev_state_key :: "string option"
  ev_content :: json_obj
  ev_event_id :: string
  ev_prev_event_ids :: "string list"
  ev_auth_event_ids :: "string list"
  ev_depth :: int
  ev_origin_server_ts :: int
  ev_redacts :: json
  ev_signatures :: "(string \<times> (string \<times> string) list) list"
  ev_unsigned :: json_obj
  ev_rejected_reason :: "string option"
  ev_room_version :: room_version
  ev_recheck_redaction :: bool
  ev_redacted :: bool

text \<open>\<^verbatim>\<open>event.state_key\<close>.\<close>

definition state_key_of :: "event \<Rightarrow> string result" where
  "state_key_of e = (case ev_state_key e of None \<Rightarrow> Inl PyAttributeError | Some k \<Rightarrow> Inr k)"

definition is_state :: "event \<Rightarrow> bool" where
  "is_state e \<longleftrightarrow> ev_state_key e \<noteq> None"

text \<open>\<^verbatim>\<open>event.membership\<close>.\<close>

definition membership_of :: "event \<Rightarrow> json result" where
  "membership_of e = dict_item (ev_content e) ''membership''"

text \<open>\<^verbatim>\<open>event.redacts\<close>: room version 11 moved the field into the content.\<close>

definition redacts_of :: "event \<Rightarrow> json" where
  "redacts_of e = (if updated_redaction_rules (ev_room_version e)
     then jget (ev_content e) ''redacts'' JNull else ev_redacts e)"

text \<open>\<^verbatim>\<open>event.signatures.get(domain)\<close> as a condition.\<close>

definition signed_by :: "event \<Rightarrow> string \<Rightarrow> bool" where
  "signed_by e d = (case map_of (ev_signatures e) d of None \<Rightarrow> False | Some sigs \<Rightarrow> sigs \<noteq> [])"

text \<open>The relation of an event: \<^verbatim>\<open>relation_from_event\<close>.\<close>

record event_relation =
  parent_id :: string
  rel_type :: string
  aggregation_key :: "string option"

definition relation_from_event :: "event \<Rightarrow> event_relation option" where
  "relation_from_event e =
     (case jget (ev_content e) ''m.relates_to'' JNull of
        JObj relation \<Rightarrow>
          if relation = [] then None
          else (case jget relation ''rel_type'' JNull of
            JStr rt \<Rightarrow>
              (case jget relation ''event_id'' JNull of
                 JStr pid \<Rightarrow>
                   Some \<lparr>parent_id = pid, rel_type = rt,
                     aggregation_key =
                       (if rt = ''m.annotation''
                        then (case jget relation ''key'' JNull of JStr k \<Rightarrow> Some k | _ \<Rightarrow> None)
                        else None)\<rparr>
               | _ \<Rightarrow> None)
          | _ \<Rightarrow> None)
      | _ \<Rightarrow> None)"

text \<open>The (type, state_key) pair under which an event is stored in a state map.\<close>

definition state_key_pair :: "event \<Rightarrow> state_key result" where
  "state_key_pair e = rbind (state_key_of e) (\<lambda>k. Inr (ev_type e, k))"

lemma state_key_of_simps [simp]:
  "ev_state_key e = Some k \<Longrightarrow> state_key_of e = Inr k"
  "ev_state_key e = None \<Longrightarrow> state_key_of e = Inl PyAttributeError"
  by (simp_all add: state_key_of_def)

lemma state_key_of_Inr: "state_key_of e = Inr k \<longleftrightarrow> ev_state_key e = Some k"
  by (auto simp: state_key_of_def split: option.splits)

lemma state_key_pair_Inr:
  "state_key_pair e = Inr p \<longleftrightarrow> (\<exists>k. ev_state_key e = Some k \<and> p = (ev_type e, k))"
  by (auto simp: state_key_pair_def state_key_of_Inr rbind_Inr_iff)

end
