(* ===== verification/Identifiers.thy ===== *)
theory Identifiers
  imports Json
begin

text \<open>
  The identifier part of \<^verbatim>\<open>synapse/types/__init__.py\<close>: splitting an ID at its
  first colon, and the class \<^verbatim>\<open>DomainSpecificString\<close> with its subclasses
  \<^verbatim>\<open>UserID\<close>, \<^verbatim>\<open>RoomAlias\<close>, \<^verbatim>\<open>RoomID\<close> and
  \<^verbatim>\<open>EventID\<close>, which differ in their sigil.  The class is the locale
  \<open>domain_specific_string\<close>; the subclasses are its interpretations.
\<close>

definition get_domain_from_id :: "string \<Rightarrow> string result" where
  "get_domain_from_id s =
     (case split_once (CHR '':'') s of
        None \<Rightarrow> Inl (SynapseError 400 ''Invalid ID: %r'' UNKNOWN)
      | Some (a, b) \<Rightarrow> Inr b)"

definition get_localpart_from_id :: "string \<Rightarrow> string result" where
  "get_localpart_from_id s =
     (case split_once (CHR '':'') s of
        None \<Rightarrow> Inl (SynapseError 400 ''Invalid ID: %r'' UNKNOWN)
      | Some (a, b) \<Rightarrow> Inr (tl a))"

record domain_specific =
  localpart :: string
  domain :: string

definition ds_from_string :: "char \<Rightarrow> string \<Rightarrow> domain_specific result" where
  "ds_from_string SIGIL s =
     (if length s < 1 \<or> hd s \<noteq> SIGIL
      then Inl (SynapseError 400 ''Expected %s string to start with '' INVALID_PARAM)
      else case split_once (CHR '':'') (tl s) of
        None \<Rightarrow> Inl (SynapseError 400 ''Expected %s of the form '' INVALID_PARAM)
      | Some (a, b) \<Rightarrow> Inr \<lparr>localpart = a, domain = b\<rparr>)"

definition ds_to_string :: "char \<Rightarrow> domain_specific \<Rightarrow> string" where
  "ds_to_string SIGIL d = SIGIL # localpart d @ CHR '':'' # domain d"

text \<open>
  The server names of \<^verbatim>\<open>synapse/util/stringutils.py\<close>.  \<open>valid_ipv6\<close> is the function of the
  third-party package netaddr.
\<close>

definition rsplit_once :: "char \<Rightarrow> string \<Rightarrow> (string \<times> string) option" where
  "rsplit_once c s = map_option (\<lambda>(a, b). (rev b, rev a)) (split_once c (rev s))"

definition parse_server_name :: "string \<Rightarrow> (string \<times> int option) result" where
  "parse_server_name server_name =
     (if server_name \<noteq> [] \<and> last server_name = CHR '']'' then Inr (server_name, None)
      else case rsplit_once (CHR '':'') server_name of
        None \<Rightarrow> Inr (server_name, None)
      | Some (host, port) \<Rightarrow> rbind (py_int_of_str port) (\<lambda>p. Inr (host, Some p)))"

definition host_char :: "char \<Rightarrow> bool" where
  "host_char c = (let n = (of_char c :: nat) in
     48 \<le> n \<and> n \<le> 57 \<or> 65 \<le> n \<and> n \<le> 90 \<or> 97 \<le> n \<and> n \<le> 122 \<or> c = CHR ''-'')"

definition VALID_HOST_REGEX :: "string \<Rightarrow> bool" where
  "VALID_HOST_REGEX host = list_all (\<lambda>label. label \<noteq> [] \<and> list_all host_char label) (split_all (CHR ''.'') host)"

definition parse_and_validate_server_name ::
  "(string \<Rightarrow> bool) \<Rightarrow> string \<Rightarrow> (string \<times> int option) result" where
  "parse_and_validate_server_name valid_ipv6 server_name =
     rbind (parse_server_name server_name) (\<lambda>(host, port).
     if host \<noteq> [] \<and> hd host = CHR ''['' then
       (if last host \<noteq> CHR '']'' then Inl PyValueError
        else let ipv6_address = butlast (tl host)
          in if ipv6_address = [] \<or> \<not> valid_ipv6 ipv6_address then Inl PyValueError else Inr (host, port))
     else if \<not> VALID_HOST_REGEX host then Inl PyValueError
     else Inr (host, port))"

definition ds_is_valid :: "(string \<Rightarrow> bool) \<Rightarrow> char \<Rightarrow> string \<Rightarrow> bool" where
  "ds_is_valid valid_ipv6 SIGIL s =
     is_ok (rbind (ds_from_string SIGIL s) (\<lambda>d. parse_and_validate_server_name valid_ipv6 (domain d)))"

text \<open>A host and a port are found again in the text made of them.\<close>

lemma parse_server_name_port: "parse_server_name (host @ CHR '':'' # show_int port) = Inr (host, Some port)"
proof -
  have chars: "c \<noteq> CHR '':'' \<and> c \<noteq> CHR '']''" if "c \<in> set (show_int port)" for c
    using show_int_chars [OF that] by (auto simp: is_digit_def)
  have ne: "show_int port \<noteq> []" by (simp add: show_int_def)
  have "last (show_int port) \<in> set (show_int port)" using ne by (rule last_in_set)
  then have "last (host @ CHR '':'' # show_int port) \<noteq> CHR '']''" using ne chars by (simp split: if_splits)
  moreover have "rsplit_once (CHR '':'') (host @ CHR '':'' # show_int port) = Some (host, show_int port)"
  proof -
    have "CHR '':'' \<notin> set (rev (show_int port))" using chars by auto
    then show ?thesis by (simp add: rsplit_once_def)
  qed
  ultimately show ?thesis by (simp add: parse_server_name_def)
qed

definition UserID_from_string :: "string \<Rightarrow> domain_specific result" where
  "UserID_from_string = ds_from_string (CHR ''@'')"

definition RoomAlias_from_string :: "string \<Rightarrow> domain_specific result" where
  "RoomAlias_from_string = ds_from_string (CHR ''#'')"

definition RoomID_from_string :: "string \<Rightarrow> domain_specific result" where
  "RoomID_from_string = ds_from_string (CHR ''!'')"

definition EventID_from_string :: "string \<Rightarrow> domain_specific result" where
  "EventID_from_string = ds_from_string (CHR ''$'')"

text \<open>The characters of a localpart, and the mapping of user names onto them.\<close>

definition mxid_char :: "char \<Rightarrow> bool" where
  "mxid_char c \<longleftrightarrow> c \<in> set ''_-./=+'' \<or> c \<in> set ''abcdefghijklmnopqrstuvwxyz'' \<or> c \<in> set ''0123456789''"

definition contains_invalid_mxid_characters :: "string \<Rightarrow> bool" where
  "contains_invalid_mxid_characters s = list_ex (\<lambda>c. \<not> mxid_char c) s"

definition is_upper :: "char \<Rightarrow> bool" where
  "is_upper c \<longleftrightarrow> 65 \<le> (of_char c :: nat) \<and> (of_char c :: nat) \<le> 90"

definition to_lower :: "char \<Rightarrow> char" where
  "to_lower c = (if is_upper c then char_of ((of_char c :: nat) + 32) else c)"

definition hex_digit :: "nat \<Rightarrow> char" where
  "hex_digit n = (if n < 10 then char_of (48 + n) else char_of (87 + n))"

text \<open>\<^verbatim>\<open>b"=%02x" % c\<close>.\<close>

definition hex_escape :: "char \<Rightarrow> string" where
  "hex_escape c = [CHR ''='', hex_digit (of_char c div 16), hex_digit (of_char c mod 16)]"

definition map_username_to_mxid_localpart :: "string \<Rightarrow> bool \<Rightarrow> string" where
  "map_username_to_mxid_localpart username case_sensitive =
     (let u1 = (if case_sensitive
                then concat (map (\<lambda>c. if is_upper c \<or> c = CHR ''_'' then [CHR ''_'', to_lower c] else [c])
                       username)
                else map to_lower username);
          u2 = concat (map (\<lambda>c. if mxid_char c \<and> c \<noteq> CHR ''='' then [c] else hex_escape c) u1)
      in case u2 of c # cs \<Rightarrow> if c = CHR ''_'' then ''=5f'' @ cs else u2 | [] \<Rightarrow> u2)"

text \<open>\<^verbatim>\<open>ThirdPartyInstanceID.from_string\<close>: \<^verbatim>\<open>s.split("|", 2)\<close> has exactly two parts.\<close>

definition ThirdPartyInstanceID_from_string :: "string \<Rightarrow> (string \<times> string) result" where
  "ThirdPartyInstanceID_from_string s =
     (case split_once (CHR ''|'') s of
        None \<Rightarrow> Inl (SynapseError 400 ''Invalid ID %r'' UNKNOWN)
      | Some (a, b) \<Rightarrow> if CHR ''|'' \<in> set b then Inl (SynapseError 400 ''Invalid ID %r'' UNKNOWN)
          else Inr (a, b))"

definition ThirdPartyInstanceID_to_string :: "string \<times> string \<Rightarrow> string" where
  "ThirdPartyInstanceID_to_string p = fst p @ CHR ''|'' # snd p"

section \<open>The contract of the identifier classes\<close>

locale domain_specific_string =
  fixes from_string :: "string \<Rightarrow> domain_specific result"
    and to_string :: "domain_specific \<Rightarrow> string"
    and sigil :: char
  assumes from_string_Inr:
      "from_string s = Inr d \<longleftrightarrow> s = to_string d \<and> CHR '':'' \<notin> set (localpart d)"
    and to_string_eq: "to_string d = sigil # localpart d @ CHR '':'' # domain d"
    and sigil_not_colon: "sigil \<noteq> CHR '':''"
begin

lemma print_parse: "from_string s = Inr d \<Longrightarrow> to_string d = s"
  by (simp add: from_string_Inr)

lemma parse_print: "CHR '':'' \<notin> set (localpart d) \<Longrightarrow> from_string (to_string d) = Inr d"
  by (simp add: from_string_Inr)

lemma parse_inj: "from_string s = Inr d \<Longrightarrow> from_string t = Inr d \<Longrightarrow> s = t"
  by (simp add: from_string_Inr)

text \<open>The generic splitters agree with the class on well-formed identifiers.\<close>

lemma domain_agrees: "from_string s = Inr d \<Longrightarrow> get_domain_from_id s = Inr (domain d)"
proof -
  assume "from_string s = Inr d"
  then have "s = (sigil # localpart d) @ CHR '':'' # domain d"
    and "CHR '':'' \<notin> set (sigil # localpart d)"
    using sigil_not_colon by (auto simp: from_string_Inr to_string_eq)
  then have "split_once (CHR '':'') s = Some (sigil # localpart d, domain d)"
    using split_once_Some by blast
  then show ?thesis by (simp add: get_domain_from_id_def)
qed

lemma localpart_agrees: "from_string s = Inr d \<Longrightarrow> get_localpart_from_id s = Inr (localpart d)"
proof -
  assume "from_string s = Inr d"
  then have "s = (sigil # localpart d) @ CHR '':'' # domain d"
    and "CHR '':'' \<notin> set (sigil # localpart d)"
    using sigil_not_colon by (auto simp: from_string_Inr to_string_eq)
  then have "split_once (CHR '':'') s = Some (sigil # localpart d, domain d)"
    using split_once_Some by blast
  then show ?thesis by (simp add: get_localpart_from_id_def)
qed

end

lemma ds_from_string_Inr:
  "ds_from_string c s = Inr d \<longleftrightarrow> s = ds_to_string c d \<and> CHR '':'' \<notin> set (localpart d)"
proof (cases s)
  case Nil
  then show ?thesis by (simp add: ds_from_string_def ds_to_string_def)
next
  case (Cons x xs)
  show ?thesis
  proof (cases "x = c")
    case False
    with Cons show ?thesis by (simp add: ds_from_string_def ds_to_string_def)
  next
    case True
    with Cons have "ds_from_string c s = Inr d \<longleftrightarrow>
        split_once (CHR '':'') xs = Some (localpart d, domain d)"
      by (cases d) (auto simp: ds_from_string_def split: option.splits)
    then show ?thesis using Cons True by (simp add: split_once_Some ds_to_string_def)
  qed
qed

interpretation user_id: domain_specific_string
  UserID_from_string "ds_to_string (CHR ''@'')" "CHR ''@''"
  by unfold_locales (auto simp: UserID_from_string_def ds_from_string_Inr ds_to_string_def)

interpretation room_alias: domain_specific_string
  RoomAlias_from_string "ds_to_string (CHR ''#'')" "CHR ''#''"
  by unfold_locales (auto simp: RoomAlias_from_string_def ds_from_string_Inr ds_to_string_def)

interpretation room_id_ds: domain_specific_string
  RoomID_from_string "ds_to_string (CHR ''!'')" "CHR ''!''"
  by unfold_locales (auto simp: RoomID_from_string_def ds_from_string_Inr ds_to_string_def)

interpretation event_id_ds: domain_specific_string
  EventID_from_string "ds_to_string (CHR ''$'')" "CHR ''$''"
  by unfold_locales (auto simp: EventID_from_string_def ds_from_string_Inr ds_to_string_def)

end
