(* ===== verification/Event_Auth.thy ===== *)
theory Event_Auth
  imports Events Identifiers
begin

text \<open>
  \<^verbatim>\<open>synapse/event_auth.py\<close>: the authorisation rules of room events.  The
  functions are in the order of the file within each group: power levels, the small
  predicates, third-party invites, membership changes, power-level changes, and the two
  entry points \<open>check_state_independent_auth_rules\<close> and
  \<open>check_state_dependent_auth_rules\<close>.

  A state map from (type, state_key) to events is a HOL map.  Code outside the repository
  is a parameter: \<open>vs\<close> is the pair \<^verbatim>\<open>decode_verify_key_bytes\<close>,
  \<^verbatim>\<open>verify_signed_json\<close> of signedjson (given the signed object, the server, the
  key name and the public key), \<open>pdu_len\<close> the length of the canonical JSON of an event,
  \<open>get_events\<close> the event store.
\<close>

type_synonym state_map = "state_key \<Rightarrow> event option"
type_synonym sig_verifier = "json_obj \<Rightarrow> string \<Rightarrow> string \<Rightarrow> json \<Rightarrow> unit result"

section \<open>Power levels\<close>

definition get_power_level_event :: "state_map \<Rightarrow> event option" where
  "get_power_level_event auth = auth (EventTypes_PowerLevels, [])"

text \<open>The creator of the room, by its create event.\<close>

definition creator_of :: "room_version \<Rightarrow> event \<Rightarrow> json result" where
  "creator_of rv create =
     (if implicit_room_creator rv then Inr (JStr (ev_sender create))
      else dict_item (ev_content create) ROOM_CREATOR)"

definition get_user_power_level :: "string \<Rightarrow> state_map \<Rightarrow> int result" where
  "get_user_power_level user_id auth =
     (case get_power_level_event auth of
        Some pl \<Rightarrow>
          rbind (py_get (jget (ev_content pl) ''users'' (JObj [])) user_id JNull) (\<lambda>l0.
          let level = (if l0 = JNull then jget (ev_content pl) ''users_default'' (JInt 0) else l0)
          in if level = JNull then Inr 0 else py_int level)
      | None \<Rightarrow>
          (case auth (EventTypes_Create, []) of
             None \<Rightarrow> Inr 0
           | Some create \<Rightarrow>
               rbind (creator_of (ev_room_version create) create) (\<lambda>creator.
               Inr (if creator = JStr user_id then 100 else 0))))"

definition get_named_level :: "state_map \<Rightarrow> string \<Rightarrow> int \<Rightarrow> int result" where
  "get_named_level auth name dflt =
     (case get_power_level_event auth of
        None \<Rightarrow> Inr dflt
      | Some pl \<Rightarrow>
          (let level = jget (ev_content pl) name JNull
           in if level \<noteq> JNull then py_int level else Inr dflt))"

definition get_send_level :: "string \<Rightarrow> string option \<Rightarrow> event option \<Rightarrow> int result" where
  "get_send_level etype skey power_levels_event =
     (let content = (case power_levels_event of Some pl \<Rightarrow> ev_content pl | None \<Rightarrow> [])
      in rbind (py_get (jget content ''events'' (JObj [])) etype JNull) (\<lambda>s0.
         let send_level =
           (if s0 = JNull
            then (if skey \<noteq> None then jget content ''state_default'' (JInt 50)
                  else jget content ''events_default'' (JInt 0))
            else s0)
         in py_int send_level))"

section \<open>Small predicates\<close>

definition can_federate :: "state_map \<Rightarrow> bool" where
  "can_federate auth =
     (case auth (EventTypes_Create, []) of
        None \<Rightarrow> False
      | Some create \<Rightarrow> jget (ev_content create) FEDERATE (JBool True) = JBool True)"

definition check_joined_room :: "event option \<Rightarrow> unit result" where
  "check_joined_room member =
     (case member of
        None \<Rightarrow> Inl (AuthError 403 ''User %s not in room %s (%s)'')
      | Some m \<Rightarrow> rbind (membership_of m) (\<lambda>ms.
          guard_raise (ms \<noteq> JStr Membership_JOIN) (AuthError 403 ''User %s not in room %s (%s)'')))"

definition check_event_sender_in_room :: "event \<Rightarrow> state_map \<Rightarrow> unit result" where
  "check_event_sender_in_room e auth = check_joined_room (auth (EventTypes_Member, ev_sender e))"

definition can_send_event :: "event \<Rightarrow> state_map \<Rightarrow> unit result" where
  "can_send_event e auth =
     rbind (get_send_level (ev_type e) (ev_state_key e) (get_power_level_event auth)) (\<lambda>send_level.
     rbind (get_user_power_level (ev_sender e) auth) (\<lambda>user_level.
     rbind (guard_raise (user_level < send_level)
       (UnstableSpecAuthError 403 ''You don't have permission to post that to the room.''
          INSUFFICIENT_POWER)) (\<lambda>_.
     case ev_state_key e of
       None \<Rightarrow> Inr ()
     | Some k \<Rightarrow> guard_raise (prefix ''@'' k \<and> k \<noteq> ev_sender e)
         (AuthError 403 ''You are not allowed to set others state''))))"

text \<open>
  The result of \<open>check_redaction\<close> is the returned flag and whether
  \<^verbatim>\<open>event.internal_metadata.recheck_redaction\<close> was set.
\<close>

definition check_redaction :: "room_version \<Rightarrow> event \<Rightarrow> state_map \<Rightarrow> (bool \<times> bool) result" where
  "check_redaction rv e auth =
     rbind (get_user_power_level (ev_sender e) auth) (\<lambda>user_level.
     rbind (get_named_level auth ''redact'' 50) (\<lambda>redact_level.
     if redact_level \<le> user_level then Inr (False, False)
     else if event_format rv = ROOM_V1_V2 then
       rbind (get_domain_from_id (ev_event_id e)) (\<lambda>redacter_domain.
       case redacts_of e of
         JStr r \<Rightarrow>
           rbind (get_domain_from_id r) (\<lambda>redactee_domain.
           if redacter_domain = redactee_domain then Inr (True, False)
           else Inl (AuthError 403 ''You don't have permission to redact events''))
       | _ \<Rightarrow> Inr (False, False))
     else Inr (True, True)))"

section \<open>Third-party invites\<close>

definition get_public_keys :: "event \<Rightarrow> json list result" where
  "get_public_keys invite_event =
     (let c = ev_content invite_event;
          first = (case map_of c ''public_key'' of
                     None \<Rightarrow> []
                   | Some pk \<Rightarrow>
                       [JObj ((''public_key'', pk) #
                          (case map_of c ''key_validity_url'' of
                             None \<Rightarrow> [] | Some u \<Rightarrow> [(''key_validity_url'', u)]))])
      in rbind (py_iter (jget c ''public_keys'' (JList []))) (\<lambda>rest. Inr (first @ rest)))"

fun verify_key_names :: "sig_verifier \<Rightarrow> json_obj \<Rightarrow> json \<Rightarrow> string \<Rightarrow> string list \<Rightarrow> bool result" where
  "verify_key_names vs signed public_key server [] = Inr False"
| "verify_key_names vs signed public_key server (k # ks) =
     (if prefix ''ed25519:'' k
      then rbind (vs signed server k public_key) (\<lambda>_. Inr True)
      else verify_key_names vs signed public_key server ks)"

fun verify_servers :: "sig_verifier \<Rightarrow> json_obj \<Rightarrow> json \<Rightarrow> json_obj \<Rightarrow> bool result" where
  "verify_servers vs signed public_key [] = Inr False"
| "verify_servers vs signed public_key ((server, block) # rest) =
     rbind (py_items block) (\<lambda>sigs.
     rbind (verify_key_names vs signed public_key server (map fst sigs)) (\<lambda>b.
     if b then Inr True else verify_servers vs signed public_key rest))"

text \<open>The loop over the public keys, with its \<^verbatim>\<open>except (KeyError, SignatureVerifyException)\<close>.\<close>

fun verify_public_keys :: "sig_verifier \<Rightarrow> json_obj \<Rightarrow> json \<Rightarrow> json list \<Rightarrow> bool result" where
  "verify_public_keys vs signed signatures [] = Inr False"
| "verify_public_keys vs signed signatures (pko # rest) =
     rbind (py_item pko (JStr ''public_key'')) (\<lambda>public_key.
     case rbind (py_items signatures) (verify_servers vs signed public_key) of
       Inr True \<Rightarrow> Inr True
     | Inr False \<Rightarrow> verify_public_keys vs signed signatures rest
     | Inl err \<Rightarrow> if err = PyKeyError \<or> err = SignatureVerifyException
                  then verify_public_keys vs signed signatures rest else Inl err)"

text \<open>\<^verbatim>\<open>auth_events.get((etype, v))\<close> for a JSON value as state key.\<close>

fun auth_get_json :: "state_map \<Rightarrow> string \<Rightarrow> json \<Rightarrow> event option result" where
  "auth_get_json auth etype (JStr k) = Inr (auth (etype, k))"
| "auth_get_json auth etype v = (if hashable v then Inr None else Inl PyTypeError)"

definition verify_third_party_invite :: "sig_verifier \<Rightarrow> event \<Rightarrow> state_map \<Rightarrow> bool result" where
  "verify_third_party_invite vs e auth =
     (case map_of (ev_content e) ''third_party_invite'' of
        Some (JObj tpi) \<Rightarrow>
          (case map_of tpi ''signed'' of
             Some (JObj signed) \<Rightarrow>
               (case (map_of signed ''mxid'', map_of signed ''token'', map_of signed ''signatures'') of
                  (Some mxid, Some token, Some signatures) \<Rightarrow>
                    rbind (auth_get_json auth EventTypes_ThirdPartyInvite token) (\<lambda>ie.
                    case ie of
                      None \<Rightarrow> Inr False
                    | Some invite_event \<Rightarrow>
                        if ev_sender invite_event \<noteq> ev_sender e then Inr False
                        else rbind (state_key_of e) (\<lambda>k.
                          if mxid \<noteq> JStr k then Inr False
                          else rbind (get_public_keys invite_event)
                                 (verify_public_keys vs signed signatures)))
                | _ \<Rightarrow> Inr False)
           | _ \<Rightarrow> Inr False)
      | _ \<Rightarrow> Inr False)"

section \<open>Membership changes\<close>

text \<open>Whether the event is the room creator's first join.\<close>

definition is_creator_join :: "room_version \<Rightarrow> event \<Rightarrow> json \<Rightarrow> state_map \<Rightarrow> bool result" where
  "is_creator_join rv e membership auth =
     (if length (ev_prev_event_ids e) = 1 \<and> membership = JStr Membership_JOIN then
        (case auth (EventTypes_Create, []) of
           None \<Rightarrow> Inr False
         | Some create \<Rightarrow>
             if hd (ev_prev_event_ids e) = ev_event_id create then
               rbind (creator_of rv create) (\<lambda>creator.
               rbind (state_key_of e) (\<lambda>k. Inr (creator = JStr k)))
             else Inr False)
      else Inr False)"

definition has_membership :: "event option \<Rightarrow> string \<Rightarrow> bool result" where
  "has_membership m s =
     (case m of None \<Rightarrow> Inr False | Some ev \<Rightarrow> rbind (membership_of ev) (\<lambda>v. Inr (v = JStr s)))"

text \<open>What the function gathers before it decides.\<close>

record membership_facts =
  caller_in_room :: bool
  caller_invited :: bool
  caller_knocked :: bool
  target_in_room :: bool
  target_banned :: bool
  join_rule :: json
  user_level :: int
  target_level :: int
  invite_level :: int
  ban_level :: int

definition gather_membership_facts ::
  "room_version \<Rightarrow> event \<Rightarrow> string \<Rightarrow> state_map \<Rightarrow> membership_facts result" where
  "gather_membership_facts rv e target_user_id auth =
     (let caller = auth (EventTypes_Member, ev_sender e);
          target = auth (EventTypes_Member, target_user_id);
          jr = (case auth (EventTypes_JoinRules, []) of
                  Some jre \<Rightarrow> jget (ev_content jre) ''join_rule'' (JStr JoinRules_INVITE)
                | None \<Rightarrow> JStr JoinRules_INVITE)
      in rbind (has_membership caller Membership_JOIN) (\<lambda>c_in.
         rbind (has_membership caller Membership_INVITE) (\<lambda>c_inv.
         rbind (if knock_join_rule rv then has_membership caller Membership_KNOCK else Inr False) (\<lambda>c_kn.
         rbind (has_membership target Membership_JOIN) (\<lambda>t_in.
         rbind (has_membership target Membership_BAN) (\<lambda>t_ban.
         rbind (get_user_power_level (ev_sender e) auth) (\<lambda>ul.
         rbind (get_user_power_level target_user_id auth) (\<lambda>tl.
         rbind (get_named_level auth ''invite'' 0) (\<lambda>il.
         rbind (get_named_level auth ''ban'' 50) (\<lambda>bl.
         Inr \<lparr>caller_in_room = c_in, caller_invited = c_inv, caller_knocked = c_kn,
              target_in_room = t_in, target_banned = t_ban, join_rule = jr,
              user_level = ul, target_level = tl, invite_level = il, ban_level = bl\<rparr>))))))))))"

text \<open>The branch of the restricted join rules: the event names a user who may invite.\<close>

definition check_restricted_join :: "event \<Rightarrow> membership_facts \<Rightarrow> state_map \<Rightarrow> unit result" where
  "check_restricted_join e f auth =
     (if \<not> caller_in_room f \<and> \<not> caller_invited f then
        (let authorising_user = jget (ev_content e) AUTHORISING_USER JNull
         in if authorising_user = JNull
            then Inl (AuthError 403 ''Join event is missing authorising user.'')
            else rbind (auth_get_json auth EventTypes_Member authorising_user) (\<lambda>member_event.
                 rbind (check_joined_room member_event) (\<lambda>_.
                 case authorising_user of
                   JStr u \<Rightarrow>
                     rbind (get_user_power_level u auth) (\<lambda>authorising_user_level.
                     guard_raise (authorising_user_level < invite_level f)
                       (AuthError 403 ''Join event authorised by invalid server.''))
                 | _ \<Rightarrow> Inr ())))
      else Inr ())"

definition check_invite :: "membership_facts \<Rightarrow> unit result" where
  "check_invite f =
     (if target_banned f then Inl (AuthError 403 ''%s is banned from the room'')
      else if target_in_room f
        then Inl (UnstableSpecAuthError 403 ''%s is already in the room.'' ALREADY_JOINED)
      else guard_raise (user_level f < invite_level f)
        (UnstableSpecAuthError 403 ''You don't have permission to invite users'' INSUFFICIENT_POWER))"

definition check_join ::
  "room_version \<Rightarrow> event \<Rightarrow> string \<Rightarrow> membership_facts \<Rightarrow> state_map \<Rightarrow> unit result" where
  "check_join rv e target_user_id f auth =
     (if ev_sender e \<noteq> target_user_id then Inl (AuthError 403 ''Cannot force another user to join.'')
      else if target_banned f then Inl (AuthError 403 ''You are banned from this room'')
      else if join_rule f = JStr JoinRules_PUBLIC then Inr ()
      else if (restricted_join_rule rv \<and> join_rule f = JStr JoinRules_RESTRICTED)
           \<or> (knock_restricted_join_rule rv \<and> join_rule f = JStr JoinRules_KNOCK_RESTRICTED)
        then check_restricted_join e f auth
      else if join_rule f = JStr JoinRules_INVITE
           \<or> (knock_join_rule rv \<and> join_rule f = JStr JoinRules_KNOCK)
           \<or> (knock_restricted_join_rule rv \<and> join_rule f = JStr JoinRules_KNOCK_RESTRICTED)
        then guard_raise (\<not> caller_in_room f \<and> \<not> caller_invited f)
          (AuthError 403 ''You are not invited to this room.'')
      else Inl (AuthError 403 ''You are not allowed to join this room''))"

definition check_leave :: "event \<Rightarrow> string \<Rightarrow> membership_facts \<Rightarrow> state_map \<Rightarrow> unit result" where
  "check_leave e target_user_id f auth =
     (if target_banned f \<and> user_level f < ban_level f
        then Inl (UnstableSpecAuthError 403 ''You cannot unban user %s.'' INSUFFICIENT_POWER)
      else if target_user_id \<noteq> ev_sender e then
        rbind (get_named_level auth ''kick'' 50) (\<lambda>kick_level.
        guard_raise (user_level f < kick_level \<or> user_level f \<le> target_level f)
          (UnstableSpecAuthError 403 ''You cannot kick user %s.'' INSUFFICIENT_POWER))
      else Inr ())"

definition check_ban :: "membership_facts \<Rightarrow> unit result" where
  "check_ban f =
     (if user_level f < ban_level f
        then Inl (UnstableSpecAuthError 403 ''You don't have permission to ban'' INSUFFICIENT_POWER)
      else guard_raise (user_level f \<le> target_level f)
        (UnstableSpecAuthError 403 ''You don't have permission to ban this user'' INSUFFICIENT_POWER))"

definition check_knock :: "room_version \<Rightarrow> event \<Rightarrow> string \<Rightarrow> membership_facts \<Rightarrow> unit result" where
  "check_knock rv e target_user_id f =
     (if join_rule f \<noteq> JStr JoinRules_KNOCK \<and>
         (\<not> knock_restricted_join_rule rv \<or> join_rule f \<noteq> JStr JoinRules_KNOCK_RESTRICTED)
        then Inl (AuthError 403 ''You don't have permission to knock'')
      else if target_user_id \<noteq> ev_sender e then Inl (AuthError 403 ''You cannot knock for other users'')
      else if target_in_room f
        then Inl (UnstableSpecAuthError 403 ''You cannot knock on a room you are already in'' ALREADY_JOINED)
      else if caller_invited f then Inl (AuthError 403 ''You are already invited to this room'')
      else guard_raise (target_banned f) (AuthError 403 ''You are banned from this room''))"

text \<open>The decision once the facts are known.\<close>

definition decide_membership ::
  "sig_verifier \<Rightarrow> room_version \<Rightarrow> event \<Rightarrow> json \<Rightarrow> string \<Rightarrow> membership_facts \<Rightarrow> state_map \<Rightarrow> unit result" where
  "decide_membership vs rv e membership target_user_id f auth =
     (if membership = JStr Membership_INVITE \<and> dict_has (ev_content e) ''third_party_invite'' then
        rbind (verify_third_party_invite vs e auth) (\<lambda>ok.
        if \<not> ok then Inl (AuthError 403 ''You are not invited to this room.'')
        else guard_raise (target_banned f) (AuthError 403 ''%s is banned from the room''))
      else if membership \<noteq> JStr Membership_JOIN \<and> membership \<noteq> JStr Membership_KNOCK
           \<and> (caller_invited f \<or> caller_knocked f) \<and> membership = JStr Membership_LEAVE
           \<and> target_user_id = ev_sender e
        then Inr ()
      else if membership \<noteq> JStr Membership_JOIN \<and> membership \<noteq> JStr Membership_KNOCK
           \<and> \<not> caller_in_room f
        then Inl (UnstableSpecAuthError 403 ''%s not in room %s.'' NOT_JOINED)
      else if membership = JStr Membership_INVITE then check_invite f
      else if membership = JStr Membership_JOIN then check_join rv e target_user_id f auth
      else if membership = JStr Membership_LEAVE then check_leave e target_user_id f auth
      else if membership = JStr Membership_BAN then check_ban f
      else if knock_join_rule rv \<and> membership = JStr Membership_KNOCK
        then check_knock rv e target_user_id f
      else Inl (AuthError 500 ''Unknown membership %s''))"

definition is_membership_change_allowed ::
  "sig_verifier \<Rightarrow> room_version \<Rightarrow> event \<Rightarrow> state_map \<Rightarrow> unit result" where
  "is_membership_change_allowed vs rv e auth =
     rbind (membership_of e) (\<lambda>membership.
     rbind (is_creator_join rv e membership auth) (\<lambda>creator_join.
     if creator_join then Inr ()
     else
       rbind (state_key_of e) (\<lambda>target_user_id.
       rbind (get_domain_from_id (ev_room_id e)) (\<lambda>creating_domain.
       rbind (get_domain_from_id target_user_id) (\<lambda>target_domain.
       rbind (guard_raise (creating_domain \<noteq> target_domain \<and> \<not> can_federate auth)
         (AuthError 403 ''This room has been marked as unfederatable.'')) (\<lambda>_.
       rbind (gather_membership_facts rv e target_user_id auth) (\<lambda>f.
       decide_membership vs rv e membership target_user_id f auth)))))))"

section \<open>Changes of the power levels\<close>

definition check_user_entry :: "string \<times> json \<Rightarrow> unit result" where
  "check_user_entry kv =
     (if \<not> is_ok (UserID_from_string (fst kv))
        then Inl (SynapseError 400 ''Not a valid user_id: %s'' UNKNOWN)
      else if \<not> is_ok (py_int (snd kv))
        then Inl (SynapseError 400 ''Not a valid power level: %s'' UNKNOWN)
      else Inr ())"

definition named_levels :: "string list" where
  "named_levels = [''users_default'', ''events_default'', ''state_default'', ''ban'', ''redact'',
     ''kick'', ''invite'']"

fun all_int_values :: "json \<Rightarrow> bool" where
  "all_int_values (JObj d) = list_all (\<lambda>kv. is_int (snd kv)) d"
| "all_int_values _ = False"

definition check_int_entry :: "string \<times> json \<Rightarrow> unit result" where
  "check_int_entry kv =
     (if fst kv \<in> set named_levels \<and> \<not> is_int (snd kv)
        then Inl (SynapseError 400 ''%r must be an integer.'' UNKNOWN)
      else if fst kv \<in> set [''events'', ''notifications'', ''users''] \<and> \<not> all_int_values (snd kv)
        then Inl (SynapseError 400 ''%r must be a dict wherein all the values are integers.'' UNKNOWN)
      else Inr ())"

text \<open>\<^verbatim>\<open>for x in set(list(old) + list(new)): levels_to_check.append((x, dir))\<close>.\<close>

definition union_levels :: "json_obj \<Rightarrow> json_obj \<Rightarrow> string \<Rightarrow> (json \<times> string option) list result" where
  "union_levels old_content new_content dir =
     rbind (py_iter (jget old_content dir (JObj []))) (\<lambda>old_list.
     rbind (py_iter (jget new_content dir (JObj []))) (\<lambda>new_list.
     rbind (py_set (old_list @ new_list)) (\<lambda>xs. Inr (map (\<lambda>x. (x, Some dir)) xs))))"

text \<open>\<^verbatim>\<open>int(loc[x]) if x in loc else None\<close>.\<close>

definition level_in :: "json \<Rightarrow> json \<Rightarrow> int option result" where
  "level_in loc x =
     rbind (py_contains x loc) (\<lambda>b.
     if b then rbind (py_item loc x) (\<lambda>v. rbind (py_int v) (\<lambda>i. Inr (Some i))) else Inr None)"

definition location_in :: "json_obj \<Rightarrow> string option \<Rightarrow> json" where
  "location_in content dir = (case dir of None \<Rightarrow> JObj content | Some d \<Rightarrow> jget content d (JObj []))"

definition check_level_change ::
  "string \<Rightarrow> int \<Rightarrow> json_obj \<Rightarrow> json_obj \<Rightarrow> json \<times> string option \<Rightarrow> unit result" where
  "check_level_change sender ul old_state new_state ld =
     (case ld of (level_to_check, dir) \<Rightarrow>
        rbind (level_in (location_in old_state dir) level_to_check) (\<lambda>old_level.
        rbind (level_in (location_in new_state dir) level_to_check) (\<lambda>new_level.
        if new_level \<noteq> None \<and> old_level \<noteq> None \<and> new_level = old_level then Inr ()
        else if dir = Some ''users'' \<and> level_to_check \<noteq> JStr sender \<and> old_level = Some ul
          then Inl (AuthError 403 ''You don't have permission to remove ops level equal to your own'')
        else guard_raise
          ((case old_level of None \<Rightarrow> False | Some l \<Rightarrow> ul < l)
           \<or> (case new_level of None \<Rightarrow> False | Some l \<Rightarrow> ul < l))
          (AuthError 403 ''You don't have permission to add ops level greater than your own''))))"

definition levels_to_check :: "room_version \<Rightarrow> json_obj \<Rightarrow> json_obj \<Rightarrow> (json \<times> string option) list result" where
  "levels_to_check rv old_state new_state =
     rbind (union_levels old_state new_state ''users'') (\<lambda>us.
     rbind (union_levels old_state new_state ''events'') (\<lambda>es.
     rbind (if limit_notifications_power_levels rv
            then union_levels old_state new_state ''notifications'' else Inr []) (\<lambda>ns.
     Inr (map (\<lambda>n. (JStr n, None)) named_levels @ us @ es @ ns))))"

definition check_power_levels :: "room_version \<Rightarrow> event \<Rightarrow> state_map \<Rightarrow> unit result" where
  "check_power_levels rv e auth =
     rbind (py_items (jget (ev_content e) ''users'' (JObj []))) (\<lambda>user_list.
     rbind (for_each check_user_entry user_list) (\<lambda>_.
     rbind (if ev_type e = EventTypes_PowerLevels \<and> enforce_int_power_levels rv
            then for_each check_int_entry (ev_content e) else Inr ()) (\<lambda>_.
     rbind (state_key_of e) (\<lambda>skey.
     case auth (ev_type e, skey) of
       None \<Rightarrow> Inr ()
     | Some current_state \<Rightarrow>
         rbind (get_user_power_level (ev_sender e) auth) (\<lambda>ul.
         rbind (levels_to_check rv (ev_content current_state) (ev_content e)) (\<lambda>ls.
         for_each (check_level_change (ev_sender e) ul (ev_content current_state) (ev_content e)) ls))))))"

section \<open>Entry points\<close>

text \<open>
  \<open>auth_types_for_event\<close>: the keys of the state that authorise an event.  The lookup
  of the third-party token raises on malformed content.
\<close>

definition third_party_token :: "event \<Rightarrow> json result" where
  "third_party_token e =
     rbind (dict_item (ev_content e) ''third_party_invite'') (\<lambda>tpi.
     rbind (py_item tpi (JStr ''signed'')) (\<lambda>signed.
     py_item signed (JStr ''token'')))"

text \<open>Adding the pair (etype, v) to a set of keys; only string state keys can match state.\<close>

fun add_auth_type :: "string \<Rightarrow> json \<Rightarrow> state_key list \<Rightarrow> state_key list result" where
  "add_auth_type etype (JStr k) ks = Inr (set_add (etype, k) ks)"
| "add_auth_type etype v ks = (if hashable v then Inr ks else Inl PyTypeError)"

definition auth_types_for_event :: "room_version \<Rightarrow> event \<Rightarrow> state_key list result" where
  "auth_types_for_event rv e =
     (if ev_type e = EventTypes_Create then Inr []
      else
        let base = [(EventTypes_PowerLevels, []), (EventTypes_Member, ev_sender e), (EventTypes_Create, [])]
        in if ev_type e = EventTypes_Member then
             rbind (membership_of e) (\<lambda>membership.
             rbind (state_key_of e) (\<lambda>skey.
             let t1 = (if membership \<in> set [JStr Membership_JOIN, JStr Membership_INVITE, JStr Membership_KNOCK]
                       then set_add (EventTypes_JoinRules, []) base else base);
                 t2 = set_add (EventTypes_Member, skey) t1
             in rbind (if membership = JStr Membership_INVITE
                         \<and> dict_has (ev_content e) ''third_party_invite''
                       then rbind (third_party_token e) (\<lambda>tok.
                              add_auth_type EventTypes_ThirdPartyInvite tok t2)
                       else Inr t2) (\<lambda>t3.
                if restricted_join_rule rv \<and> membership = JStr Membership_JOIN
                then (case map_of (ev_content e) AUTHORISING_USER of
                        None \<Rightarrow> Inr t3
                      | Some u \<Rightarrow> add_auth_type EventTypes_Member u t3)
                else Inr t3)))
           else Inr base)"

definition LENIENT_EVENT_BYTE_LIMITS_ROOM_VERSIONS :: "room_version list" where
  "LENIENT_EVENT_BYTE_LIMITS_ROOM_VERSIONS = [V1, V2, V3, V4, V5, V6, V7, V8, V9, V10, MSC1767v10]"

definition MAX_PDU_SIZE :: nat where
  "MAX_PDU_SIZE = 65536"

definition check_size_limits :: "(event \<Rightarrow> nat) \<Rightarrow> event \<Rightarrow> unit result" where
  "check_size_limits pdu_len e =
     (let skey = (case ev_state_key e of Some k \<Rightarrow> k | None \<Rightarrow> []);
          fields = [(''user_id'', ev_sender e), (''room_id'', ev_room_id e), (''state_key'', skey),
                    (''type'', ev_type e), (''event_id'', ev_event_id e)];
          strict_byte_limits = (ev_room_version e \<notin> set LENIENT_EVENT_BYTE_LIMITS_ROOM_VERSIONS)
      in rbind (guard_raise (pdu_len e > MAX_PDU_SIZE) (EventSizeError ''event too large'' True)) (\<lambda>_.
         rbind (for_each (\<lambda>(n, s). guard_raise (py_len s > 255) (EventSizeError n True)) fields) (\<lambda>_.
         for_each (\<lambda>(n, s). guard_raise (length s > 255) (EventSizeError n strict_byte_limits)) fields)))"

definition validate_event_for_room_version :: "(event \<Rightarrow> nat) \<Rightarrow> event \<Rightarrow> unit result" where
  "validate_event_for_room_version pdu_len e =
     rbind (check_size_limits pdu_len e) (\<lambda>_.
     rbind (get_domain_from_id (ev_sender e)) (\<lambda>sender_domain.
     rbind (if ev_type e = EventTypes_Member
            then rbind (membership_of e) (\<lambda>m. Inr (m = JStr Membership_INVITE
                   \<and> dict_has (ev_content e) ''third_party_invite''))
            else Inr False) (\<lambda>is_invite_via_3pid.
     rbind (guard_raise (\<not> signed_by e sender_domain \<and> \<not> is_invite_via_3pid)
       (AuthError 403 ''Event not signed by sender's server'')) (\<lambda>_.
     rbind (if event_format (ev_room_version e) = ROOM_V1_V2
            then rbind (get_domain_from_id (ev_event_id e)) (\<lambda>event_id_domain.
                 guard_raise (\<not> signed_by e event_id_domain)
                   (AuthError 403 ''Event not signed by sending server''))
            else Inr ()) (\<lambda>_.
     rbind (if restricted_join_rule (ev_room_version e) \<and> ev_type e = EventTypes_Member
            then rbind (membership_of e) (\<lambda>m. Inr (m = JStr Membership_JOIN
                   \<and> dict_has (ev_content e) AUTHORISING_USER))
            else Inr False) (\<lambda>is_invite_via_allow_rule.
     if is_invite_via_allow_rule then
       (case jget (ev_content e) AUTHORISING_USER JNull of
          JStr u \<Rightarrow> rbind (get_domain_from_id u) (\<lambda>d.
            guard_raise (\<not> signed_by e d) (AuthError 403 ''Event not signed by authorising server''))
        | _ \<Rightarrow> Inl PyAttributeError)
     else Inr ()))))))"

definition check_create :: "event \<Rightarrow> unit result" where
  "check_create e =
     (if ev_type e \<noteq> EventTypes_Create then Inl PyAssertionError
      else if ev_prev_event_ids e \<noteq> [] then Inl (AuthError 403 ''Create event has prev events'')
      else
        rbind (get_domain_from_id (ev_sender e)) (\<lambda>sender_domain.
        rbind (get_domain_from_id (ev_room_id e)) (\<lambda>room_id_domain.
        rbind (guard_raise (room_id_domain \<noteq> sender_domain)
          (AuthError 403 ''Creation event's room_id domain does not match sender's'')) (\<lambda>_.
        rbind (let v = jget (ev_content e) ''room_version'' (JStr ''1'')
               in if \<not> hashable v then Inl PyTypeError
                  else guard_raise
                    (case v of JStr i \<Rightarrow> \<not> dict_has KNOWN_ROOM_VERSIONS i | _ \<Rightarrow> True)
                    (AuthError 403 ''room appears to have unsupported version %s'')) (\<lambda>_.
        guard_raise (\<not> implicit_room_creator (ev_room_version e) \<and> \<not> dict_has (ev_content e) ROOM_CREATOR)
          (AuthError 403 ''Create event lacks a 'creator' property''))))))"

text \<open>The auth events: those of the batch, the missing ones from the store.\<close>

definition fetch_auth_events ::
  "(string list \<Rightarrow> (string \<times> event) list) \<Rightarrow> event \<Rightarrow> (string \<times> event) list \<Rightarrow> (string \<times> event) list" where
  "fetch_auth_events get_events e batched =
     (if batched \<noteq> [] then
        (let needed = filter (\<lambda>i. \<not> dict_has batched i) (remdups (ev_auth_event_ids e))
         in if needed \<noteq> [] then dict_update batched (get_events needed) else batched)
      else get_events (ev_auth_event_ids e))"

definition check_auth_event ::
  "event \<Rightarrow> state_key list \<Rightarrow> (string \<times> event) list \<Rightarrow> string \<Rightarrow> (state_key \<times> string) list
     \<Rightarrow> (state_key \<times> string) list result" where
  "check_auth_event e expected auth_events auth_event_id auth_dict =
     (case map_of auth_events auth_event_id of
        None \<Rightarrow> Inl (RuntimeError ''Event %s has unknown auth event %s'')
      | Some ae \<Rightarrow>
          if ev_room_id ae \<noteq> ev_room_id e
            then Inl (AuthError 403 ''During auth for event %s in room %s, found event %s in the state which is in room %s'')
          else rbind (state_key_pair ae) (\<lambda>k.
            if dict_has auth_dict k then Inl (AuthError 403 ''Event %s has duplicate auth_events'')
            else if k \<notin> set expected then Inl (AuthError 403 ''Event %s has unexpected auth_event'')
            else if (case ev_rejected_reason ae of None \<Rightarrow> False | Some r \<Rightarrow> r \<noteq> [])
              then Inl (AuthError 403 ''During auth for event %s: found rejected event %s in the state'')
            else Inr (AList.update k auth_event_id auth_dict)))"

definition check_state_independent_auth_rules ::
  "(string list \<Rightarrow> (string \<times> event) list) \<Rightarrow> event \<Rightarrow> (string \<times> event) list \<Rightarrow> unit result" where
  "check_state_independent_auth_rules get_events e batched =
     (if ev_type e = EventTypes_Create then check_create e
      else
        let auth_events = fetch_auth_events get_events e batched
        in rbind (auth_types_for_event (ev_room_version e) e) (\<lambda>expected.
           rbind (rfold (check_auth_event e expected auth_events) (ev_auth_event_ids e) []) (\<lambda>auth_dict.
           guard_raise (case map_of auth_dict (EventTypes_Create, []) of None \<Rightarrow> True | Some i \<Rightarrow> i = [])
             (AuthError 403 ''No create event in auth events''))))"

text \<open>\<^verbatim>\<open>{(e.type, e.state_key): e for e in auth_events}\<close>.\<close>

definition make_auth_dict :: "event list \<Rightarrow> state_map result" where
  "make_auth_dict auth_events =
     rfold (\<lambda>ae m. rbind (state_key_pair ae) (\<lambda>k. Inr (m(k \<mapsto> ae)))) auth_events Map.empty"

text \<open>
  The rules after the auth dictionary is built.  The result is the event, since
  \<open>check_redaction\<close> may set its recheck flag.
\<close>

definition check_rules_with_dict :: "sig_verifier \<Rightarrow> event \<Rightarrow> state_map \<Rightarrow> event result" where
  "check_rules_with_dict vs e auth =
     rbind (get_domain_from_id (ev_room_id e)) (\<lambda>creating_domain.
     rbind (get_domain_from_id (ev_sender e)) (\<lambda>originating_domain.
     rbind (guard_raise (creating_domain \<noteq> originating_domain \<and> \<not> can_federate auth)
       (AuthError 403 ''This room has been marked as unfederatable.'')) (\<lambda>_.
     if ev_type e = EventTypes_Aliases \<and> special_case_aliases_auth (ev_room_version e) then
       (case ev_state_key e of
          None \<Rightarrow> Inl (AuthError 403 ''Alias event must be a state event'')
        | Some k \<Rightarrow>
            if k = [] then Inl (AuthError 403 ''Alias event must have non-empty state_key'')
            else if k \<noteq> originating_domain
              then Inl (AuthError 403 ''Alias event's state_key does not match sender's domain'')
            else Inr e)
     else if ev_type e = EventTypes_Member then
       rbind (is_membership_change_allowed vs (ev_room_version e) e auth) (\<lambda>_. Inr e)
     else
       rbind (check_event_sender_in_room e auth) (\<lambda>_.
       if ev_type e = EventTypes_ThirdPartyInvite then
         rbind (get_user_power_level (ev_sender e) auth) (\<lambda>ul.
         rbind (get_named_level auth ''invite'' 0) (\<lambda>il.
         if ul < il
         then Inl (UnstableSpecAuthError 403 ''You don't have permission to invite users'' INSUFFICIENT_POWER)
         else Inr e))
       else
         rbind (can_send_event e auth) (\<lambda>_.
         rbind (if ev_type e = EventTypes_PowerLevels
                then check_power_levels (ev_room_version e) e auth else Inr ()) (\<lambda>_.
         if ev_type e = EventTypes_Redaction
         then rbind (check_redaction (ev_room_version e) e auth) (\<lambda>(_, recheck).
                Inr (if recheck then e\<lparr>ev_recheck_redaction := True\<rparr> else e))
         else Inr e))))))"

definition check_state_dependent_auth_rules :: "sig_verifier \<Rightarrow> event \<Rightarrow> event list \<Rightarrow> event result" where
  "check_state_dependent_auth_rules vs e auth_events =
     (if ev_type e = EventTypes_Create then Inr e
      else rbind (make_auth_dict auth_events) (check_rules_with_dict vs e))"

end
