(* ===== verification/Event_Auth_Safety.thy ===== *)
theory Event_Auth_Safety
  imports Event_Auth
begin

text \<open>
  What the authorisation rules of \<open>Event_Auth\<close> guarantee.  The first section shows
  which entries of the state each rule reads; the rest are the safety properties of
  accepted events and the error behaviour of the format checks.
\<close>

named_theorems auth_reads \<open>which state entries a rule depends on\<close>

section \<open>Which state the rules read\<close>

lemma get_user_power_level_reads [auth_reads]:
  assumes "auth (EventTypes_PowerLevels, []) = auth' (EventTypes_PowerLevels, [])"
    and "auth (EventTypes_Create, []) = auth' (EventTypes_Create, [])"
  shows "get_user_power_level u auth = get_user_power_level u auth'"
  using assms by (simp add: get_user_power_level_def get_power_level_event_def cong: option.case_cong)

lemma get_named_level_reads [auth_reads]:
  assumes "auth (EventTypes_PowerLevels, []) = auth' (EventTypes_PowerLevels, [])"
  shows "get_named_level auth n d = get_named_level auth' n d"
  using assms by (simp add: get_named_level_def get_power_level_event_def)

lemma can_federate_reads [auth_reads]:
  assumes "auth (EventTypes_Create, []) = auth' (EventTypes_Create, [])"
  shows "can_federate auth = can_federate auth'"
  using assms by (simp add: can_federate_def)

text \<open>The keys every event other than a create event reads.\<close>

definition agree_base :: "event \<Rightarrow> state_map \<Rightarrow> state_map \<Rightarrow> bool" where
  "agree_base e auth auth' \<longleftrightarrow>
     auth (EventTypes_PowerLevels, []) = auth' (EventTypes_PowerLevels, []) \<and>
     auth (EventTypes_Create, []) = auth' (EventTypes_Create, []) \<and>
     auth (EventTypes_Member, ev_sender e) = auth' (EventTypes_Member, ev_sender e)"

lemma agree_base_levels:
  assumes "agree_base e auth auth'"
  shows "get_user_power_level u auth = get_user_power_level u auth'"
    and "get_named_level auth n d = get_named_level auth' n d"
    and "can_federate auth = can_federate auth'"
    and "get_power_level_event auth = get_power_level_event auth'"
    and "check_event_sender_in_room e auth = check_event_sender_in_room e auth'"
  using assms unfolding agree_base_def
  by (auto intro: get_user_power_level_reads get_named_level_reads
      simp: can_federate_def get_power_level_event_def check_event_sender_in_room_def)

lemma can_send_event_reads:
  "agree_base e auth auth' \<Longrightarrow> can_send_event e auth = can_send_event e auth'"
  by (simp add: can_send_event_def agree_base_levels [of e auth auth'])

lemma check_redaction_reads:
  "agree_base e auth auth' \<Longrightarrow> check_redaction rv e auth = check_redaction rv e auth'"
  by (simp add: check_redaction_def agree_base_levels [of e auth auth'])

lemma check_power_levels_reads:
  assumes "agree_base e auth auth'"
    and "\<And>s. ev_state_key e = Some s \<Longrightarrow> auth (ev_type e, s) = auth' (ev_type e, s)"
  shows "check_power_levels rv e auth = check_power_levels rv e auth'"
  using assms(2) agree_base_levels [OF assms(1)]
  by (cases "ev_state_key e") (simp_all add: check_power_levels_def cong: option.case_cong)

definition join_rule_in :: "state_map \<Rightarrow> json" where
  "join_rule_in auth = (case auth (EventTypes_JoinRules, []) of
     Some jre \<Rightarrow> jget (ev_content jre) ''join_rule'' (JStr JoinRules_INVITE)
   | None \<Rightarrow> JStr JoinRules_INVITE)"

lemma gather_facts_reads:
  assumes "agree_base e auth auth'"
    and "auth (EventTypes_Member, t) = auth' (EventTypes_Member, t)"
  shows "gather_membership_facts rv e t auth' =
    rbind (gather_membership_facts rv e t auth) (\<lambda>f. Inr (f\<lparr>join_rule := join_rule_in auth'\<rparr>))"
  using assms agree_base_levels [OF assms(1)]
  by (simp add: gather_membership_facts_def agree_base_def Let_def join_rule_in_def rbind_assoc
      cong: option.case_cong)

lemma gather_facts_join_rule:
  "gather_membership_facts rv e t auth = Inr f \<Longrightarrow> join_rule f = join_rule_in auth"
  by (auto simp: gather_membership_facts_def Let_def rbind_Inr_iff join_rule_in_def)

lemma verify_third_party_invite_reads:
  assumes tok: "third_party_token e = Inr tok"
    and agree: "\<And>k. tok = JStr k \<Longrightarrow>
      auth (EventTypes_ThirdPartyInvite, k) = auth' (EventTypes_ThirdPartyInvite, k)"
  shows "verify_third_party_invite vs e auth = verify_third_party_invite vs e auth'"
proof -
  have "auth_get_json auth EventTypes_ThirdPartyInvite tok
      = auth_get_json auth' EventTypes_ThirdPartyInvite tok"
    using agree by (cases tok) auto
  moreover have "token = tok"
    if "map_of (ev_content e) ''third_party_invite'' = Some (JObj tpi)"
      "map_of tpi ''signed'' = Some (JObj signed)" "map_of signed ''token'' = Some token"
    for tpi signed token
    using tok that by (simp add: third_party_token_def dict_item_def)
  ultimately show ?thesis
    by (auto simp: verify_third_party_invite_def split: option.splits json.splits)
qed

lemma check_restricted_join_reads:
  assumes "agree_base e auth auth'"
    and "\<And>u. map_of (ev_content e) AUTHORISING_USER = Some (JStr u) \<Longrightarrow>
      auth (EventTypes_Member, u) = auth' (EventTypes_Member, u)"
  shows "check_restricted_join e f auth = check_restricted_join e f auth'"
proof -
  have "auth_get_json auth EventTypes_Member (jget (ev_content e) AUTHORISING_USER JNull)
      = auth_get_json auth' EventTypes_Member (jget (ev_content e) AUTHORISING_USER JNull)"
    using assms(2)
    by (cases "jget (ev_content e) AUTHORISING_USER JNull")
      (auto simp: jget_def split: option.splits)
  then show ?thesis
    using agree_base_levels [OF assms(1)]
    by (simp add: check_restricted_join_def Let_def cong: json.case_cong)
qed

lemma join_rule_unused [simp]:
  "check_invite (f\<lparr>join_rule := x\<rparr>) = check_invite f"
  "check_ban (f\<lparr>join_rule := x\<rparr>) = check_ban f"
  "check_leave e t (f\<lparr>join_rule := x\<rparr>) auth = check_leave e t f auth"
  by (simp_all add: check_invite_def check_ban_def check_leave_def)

lemma check_leave_reads:
  "agree_base e auth auth' \<Longrightarrow> check_leave e t f auth = check_leave e t f auth'"
  by (simp add: check_leave_def agree_base_levels [of e auth auth'])

lemma check_join_reads:
  assumes rv: "valid_room_version rv" and base: "agree_base e auth auth'"
    and au: "\<And>u. restricted_join_rule rv \<Longrightarrow> map_of (ev_content e) AUTHORISING_USER = Some (JStr u) \<Longrightarrow>
      auth (EventTypes_Member, u) = auth' (EventTypes_Member, u)"
  shows "check_join rv e t f auth = check_join rv e t f auth'"
proof (cases "restricted_join_rule rv")
  case True
  with au have "check_restricted_join e f auth = check_restricted_join e f auth'"
    by (intro check_restricted_join_reads [OF base]) auto
  then show ?thesis by (simp add: check_join_def)
next
  case False
  with rv have "\<not> knock_restricted_join_rule rv"
    using knock_restricted_imp_restricted by blast
  with False show ?thesis by (simp add: check_join_def)
qed

lemma decide_membership_reads:
  assumes rv: "valid_room_version rv" and base: "agree_base e auth auth'"
    and au: "\<And>u. m = JStr Membership_JOIN \<Longrightarrow> restricted_join_rule rv \<Longrightarrow>
      map_of (ev_content e) AUTHORISING_USER = Some (JStr u) \<Longrightarrow>
      auth (EventTypes_Member, u) = auth' (EventTypes_Member, u)"
    and tpi: "m = JStr Membership_INVITE \<Longrightarrow> dict_has (ev_content e) ''third_party_invite'' \<Longrightarrow>
      verify_third_party_invite vs e auth = verify_third_party_invite vs e auth'"
    and jr: "m = JStr Membership_JOIN \<or> m = JStr Membership_KNOCK \<Longrightarrow> x = join_rule f"
  shows "decide_membership vs rv e m t f auth =
    decide_membership vs rv e m t (f\<lparr>join_rule := x\<rparr>) auth'"
proof -
  consider "m = JStr Membership_JOIN" | "m = JStr Membership_KNOCK" | "m = JStr Membership_INVITE"
    | "m \<noteq> JStr Membership_JOIN" "m \<noteq> JStr Membership_KNOCK" "m \<noteq> JStr Membership_INVITE"
    by blast
  then show ?thesis
  proof cases
    case 1
    then have "check_join rv e t f auth = check_join rv e t f auth'"
      using check_join_reads [OF rv base] au by blast
    with 1 jr show ?thesis by (simp add: decide_membership_def)
  next
    case 2
    with jr show ?thesis by (simp add: decide_membership_def)
  next
    case 3
    with tpi show ?thesis by (simp add: decide_membership_def cong: if_cong)
  next
    case 4
    then show ?thesis using check_leave_reads [OF base] by (simp add: decide_membership_def)
  qed
qed

text \<open>The keys of \<open>auth_types_for_event\<close> on a membership event.\<close>

lemma add_auth_type_mono:
  "add_auth_type ty v ks = Inr ks' \<Longrightarrow> set ks \<subseteq> set ks' \<and> (\<forall>k. v = JStr k \<longrightarrow> (ty, k) \<in> set ks')"
  by (cases v) (auto split: if_splits)

lemma auth_types_member_stages:
  assumes ks: "auth_types_for_event rv e = Inr ks" and ty: "ev_type e = EventTypes_Member"
    and m: "membership_of e = Inr m" and k: "ev_state_key e = Some t"
  obtains t2 t3 where
    "{(EventTypes_PowerLevels, []), (EventTypes_Member, ev_sender e), (EventTypes_Create, []),
      (EventTypes_Member, t)} \<subseteq> set t2"
    "m = JStr Membership_JOIN \<or> m = JStr Membership_KNOCK \<Longrightarrow> (EventTypes_JoinRules, []) \<in> set t2"
    "(if m = JStr Membership_INVITE \<and> dict_has (ev_content e) ''third_party_invite''
      then rbind (third_party_token e) (\<lambda>tok. add_auth_type EventTypes_ThirdPartyInvite tok t2)
      else Inr t2) = Inr t3"
    "(if restricted_join_rule rv \<and> m = JStr Membership_JOIN
      then (case map_of (ev_content e) AUTHORISING_USER of
              None \<Rightarrow> Inr t3 | Some u \<Rightarrow> add_auth_type EventTypes_Member u t3)
      else Inr t3) = Inr ks"
proof -
  let ?base = "[(EventTypes_PowerLevels, []), (EventTypes_Member, ev_sender e), (EventTypes_Create, [])]"
  let ?t2 = "set_add (EventTypes_Member, t)
    (if m \<in> set [JStr Membership_JOIN, JStr Membership_INVITE, JStr Membership_KNOCK]
     then set_add (EventTypes_JoinRules, []) ?base else ?base)"
  from ks have "rbind (if m = JStr Membership_INVITE \<and> dict_has (ev_content e) ''third_party_invite''
      then rbind (third_party_token e) (\<lambda>tok. add_auth_type EventTypes_ThirdPartyInvite tok ?t2)
      else Inr ?t2) (\<lambda>t3. if restricted_join_rule rv \<and> m = JStr Membership_JOIN
        then (case map_of (ev_content e) AUTHORISING_USER of
                None \<Rightarrow> Inr t3 | Some u \<Rightarrow> add_auth_type EventTypes_Member u t3)
        else Inr t3) = Inr ks"
    unfolding auth_types_for_event_def Let_def using ty m k by (simp only: rbind_simps) simp
  then obtain t3 where "(if m = JStr Membership_INVITE \<and> dict_has (ev_content e) ''third_party_invite''
      then rbind (third_party_token e) (\<lambda>tok. add_auth_type EventTypes_ThirdPartyInvite tok ?t2)
      else Inr ?t2) = Inr t3"
    "(if restricted_join_rule rv \<and> m = JStr Membership_JOIN
        then (case map_of (ev_content e) AUTHORISING_USER of
                None \<Rightarrow> Inr t3 | Some u \<Rightarrow> add_auth_type EventTypes_Member u t3)
        else Inr t3) = Inr ks"
    unfolding rbind_Inr_iff by blast
  note stages = this
  show ?thesis
  proof (rule that [OF _ _ stages])
    show "{(EventTypes_PowerLevels, []), (EventTypes_Member, ev_sender e), (EventTypes_Create, []),
      (EventTypes_Member, t)} \<subseteq> set ?t2" by simp
    show "(EventTypes_JoinRules, []) \<in> set ?t2"
      if "m = JStr Membership_JOIN \<or> m = JStr Membership_KNOCK"
      using that by auto
  qed
qed

lemma auth_types_member_keys:
  assumes ks: "auth_types_for_event rv e = Inr ks" and ty: "ev_type e = EventTypes_Member"
    and m: "membership_of e = Inr m" and k: "ev_state_key e = Some t"
  shows "(EventTypes_PowerLevels, []) \<in> set ks" "(EventTypes_Create, []) \<in> set ks"
    "(EventTypes_Member, ev_sender e) \<in> set ks" "(EventTypes_Member, t) \<in> set ks"
    "m = JStr Membership_JOIN \<or> m = JStr Membership_KNOCK \<Longrightarrow> (EventTypes_JoinRules, []) \<in> set ks"
    "m = JStr Membership_JOIN \<Longrightarrow> restricted_join_rule rv \<Longrightarrow>
       map_of (ev_content e) AUTHORISING_USER = Some (JStr u) \<Longrightarrow> (EventTypes_Member, u) \<in> set ks"
    "m = JStr Membership_INVITE \<Longrightarrow> dict_has (ev_content e) ''third_party_invite'' \<Longrightarrow>
       \<exists>tok. third_party_token e = Inr tok \<and>
         (\<forall>w. tok = JStr w \<longrightarrow> (EventTypes_ThirdPartyInvite, w) \<in> set ks)"
proof -
  obtain t2 t3 where t2: "{(EventTypes_PowerLevels, []), (EventTypes_Member, ev_sender e),
      (EventTypes_Create, []), (EventTypes_Member, t)} \<subseteq> set t2"
    and jr: "m = JStr Membership_JOIN \<or> m = JStr Membership_KNOCK \<Longrightarrow> (EventTypes_JoinRules, []) \<in> set t2"
    and a: "(if m = JStr Membership_INVITE \<and> dict_has (ev_content e) ''third_party_invite''
      then rbind (third_party_token e) (\<lambda>tok. add_auth_type EventTypes_ThirdPartyInvite tok t2)
      else Inr t2) = Inr t3"
    and b: "(if restricted_join_rule rv \<and> m = JStr Membership_JOIN
      then (case map_of (ev_content e) AUTHORISING_USER of
              None \<Rightarrow> Inr t3 | Some u \<Rightarrow> add_auth_type EventTypes_Member u t3)
      else Inr t3) = Inr ks"
    by (rule auth_types_member_stages [OF assms]) blast
  have s23: "set t2 \<subseteq> set t3"
    using a by (auto simp: rbind_Inr_iff split: if_splits dest: add_auth_type_mono)
  have s3k: "set t3 \<subseteq> set ks"
    using b by (auto split: if_splits option.splits dest: add_auth_type_mono)
  from t2 s23 s3k show "(EventTypes_PowerLevels, []) \<in> set ks" "(EventTypes_Create, []) \<in> set ks"
    "(EventTypes_Member, ev_sender e) \<in> set ks" "(EventTypes_Member, t) \<in> set ks"
    by auto
  show "m = JStr Membership_JOIN \<or> m = JStr Membership_KNOCK \<Longrightarrow> (EventTypes_JoinRules, []) \<in> set ks"
    using jr s23 s3k by blast
  show "(EventTypes_Member, u) \<in> set ks"
    if "m = JStr Membership_JOIN" "restricted_join_rule rv"
      "map_of (ev_content e) AUTHORISING_USER = Some (JStr u)"
    using b that by auto
  show "\<exists>tok. third_party_token e = Inr tok \<and>
      (\<forall>w. tok = JStr w \<longrightarrow> (EventTypes_ThirdPartyInvite, w) \<in> set ks)"
    if "m = JStr Membership_INVITE" "dict_has (ev_content e) ''third_party_invite''"
  proof -
    from a that obtain tok where "third_party_token e = Inr tok"
      and "add_auth_type EventTypes_ThirdPartyInvite tok t2 = Inr t3"
      by (auto simp: rbind_Inr_iff)
    with s3k show ?thesis by (auto dest: add_auth_type_mono)
  qed
qed

lemma auth_types_base_keys:
  assumes ks: "auth_types_for_event rv e = Inr ks" and ty: "ev_type e \<noteq> EventTypes_Create"
  shows "(EventTypes_PowerLevels, []) \<in> set ks \<and> (EventTypes_Create, []) \<in> set ks \<and>
    (EventTypes_Member, ev_sender e) \<in> set ks"
proof (cases "ev_type e = EventTypes_Member")
  case True
  with ks obtain m t where "membership_of e = Inr m" and "ev_state_key e = Some t"
    by (auto simp: auth_types_for_event_def Let_def rbind_Inr_iff state_key_of_Inr)
  from auth_types_member_keys(1-3) [OF ks True this] show ?thesis by simp
next
  case False
  with ks ty show ?thesis by (auto simp: auth_types_for_event_def Let_def)
qed

lemma is_creator_join_reads:
  "agree_base e auth auth' \<Longrightarrow> is_creator_join rv e m auth = is_creator_join rv e m auth'"
  by (simp add: is_creator_join_def agree_base_def cong: option.case_cong)

lemma membership_change_reads:
  assumes rv: "valid_room_version rv" and ty: "ev_type e = EventTypes_Member"
    and ks: "auth_types_for_event rv e = Inr ks"
    and agree: "\<forall>k \<in> set ks. auth k = auth' k"
  shows "is_membership_change_allowed vs rv e auth = is_membership_change_allowed vs rv e auth'"
proof -
  from ks ty obtain m t where m: "membership_of e = Inr m" and t: "ev_state_key e = Some t"
    by (auto simp: auth_types_for_event_def Let_def rbind_Inr_iff state_key_of_Inr)
  note keys = auth_types_member_keys [OF ks ty m t]
  from keys(1-4) agree have base: "agree_base e auth auth'"
    and tgt: "auth (EventTypes_Member, t) = auth' (EventTypes_Member, t)"
    by (auto simp: agree_base_def)
  have "decide_membership vs rv e m t f auth =
      decide_membership vs rv e m t (f\<lparr>join_rule := join_rule_in auth'\<rparr>) auth'"
    if f: "gather_membership_facts rv e t auth = Inr f" for f
  proof (rule decide_membership_reads [OF rv base])
    show "auth (EventTypes_Member, u) = auth' (EventTypes_Member, u)"
      if "m = JStr Membership_JOIN" "restricted_join_rule rv"
        "map_of (ev_content e) AUTHORISING_USER = Some (JStr u)" for u
      using keys(6) [OF that] agree by simp
    show "verify_third_party_invite vs e auth = verify_third_party_invite vs e auth'"
      if "m = JStr Membership_INVITE" "dict_has (ev_content e) ''third_party_invite''"
      using keys(7) [OF that] agree by (auto intro: verify_third_party_invite_reads)
    show "join_rule_in auth' = join_rule f"
      if "m = JStr Membership_JOIN \<or> m = JStr Membership_KNOCK"
      using keys(5) [OF that] agree gather_facts_join_rule [OF f] by (simp add: join_rule_in_def)
  qed
  then have "rbind (gather_membership_facts rv e t auth) (\<lambda>f. decide_membership vs rv e m t f auth)
      = rbind (gather_membership_facts rv e t auth') (\<lambda>f. decide_membership vs rv e m t f auth')"
    unfolding gather_facts_reads [OF base tgt] rbind_assoc
    by (intro rbind_cong) auto
  then show ?thesis
    using is_creator_join_reads [OF base] agree_base_levels(3) [OF base]
    by (simp add: is_membership_change_allowed_def m t cong: if_cong)
qed

section \<open>The selection of auth events is sufficient\<close>

lemma rules_read_auth_types:
  assumes rv: "valid_room_version (ev_room_version e)"
    and pl: "\<And>s. ev_type e = EventTypes_PowerLevels \<Longrightarrow> ev_state_key e = Some s \<Longrightarrow>
      auth (EventTypes_PowerLevels, s) = auth' (EventTypes_PowerLevels, s)"
    and ty: "ev_type e \<noteq> EventTypes_Create"
    and ks: "auth_types_for_event (ev_room_version e) e = Inr ks"
    and agree: "\<forall>k \<in> set ks. auth k = auth' k"
  shows "check_rules_with_dict vs e auth = check_rules_with_dict vs e auth'"
proof -
  have base: "agree_base e auth auth'"
    using auth_types_base_keys [OF ks ty] agree by (auto simp: agree_base_def)
  have mem: "is_membership_change_allowed vs (ev_room_version e) e auth =
      is_membership_change_allowed vs (ev_room_version e) e auth'"
    if "ev_type e = EventTypes_Member"
    using membership_change_reads [OF rv that ks agree] .
  have pls: "check_power_levels (ev_room_version e) e auth = check_power_levels (ev_room_version e) e auth'"
    if "ev_type e = EventTypes_PowerLevels"
    by (rule check_power_levels_reads [OF base]) (use that pl in simp)
  show ?thesis
    using mem pls agree_base_levels [OF base] can_send_event_reads [OF base] check_redaction_reads [OF base]
    by (simp add: check_rules_with_dict_def cong: if_cong)
qed

text \<open>
  C1.  The selection of auth events is sufficient: for an event of a known room version, the
  outcome of the state-dependent rules depends only on the state at the keys that
  \<open>auth_types_for_event\<close> returns and, for a power-levels event, at its own key.  Two lists of
  auth events that give the same events at those keys give the same verdict and the same
  exception.  The key of a power-levels event is among the returned ones just when its
  state key is empty.
\<close>

theorem auth_types_sufficient:
  assumes "valid_room_version (ev_room_version e)"
    and "auth_types_for_event (ev_room_version e) e = Inr ks"
    and "make_auth_dict es = Inr auth" and "make_auth_dict es' = Inr auth'"
    and "\<forall>k \<in> set ks. auth k = auth' k"
    and "\<forall>s. ev_type e = EventTypes_PowerLevels \<and> ev_state_key e = Some s \<longrightarrow>
      auth (EventTypes_PowerLevels, s) = auth' (EventTypes_PowerLevels, s)"
  shows "check_state_dependent_auth_rules vs e es = check_state_dependent_auth_rules vs e es' \<and>
    (ev_type e = EventTypes_PowerLevels \<longrightarrow> (\<forall>s. (EventTypes_PowerLevels, s) \<in> set ks \<longleftrightarrow> s = []))"
  using assms rules_read_auth_types [of e auth auth' ks vs]
  by (cases "ev_type e = EventTypes_Create")
    (auto simp: check_state_dependent_auth_rules_def auth_types_for_event_def Let_def)

section \<open>What an accepted event satisfies\<close>

lemma accepted_rules:
  assumes "check_state_dependent_auth_rules vs e es = Inr e'" and "ev_type e \<noteq> EventTypes_Create"
    and "make_auth_dict es = Inr auth"
  shows "check_rules_with_dict vs e auth = Inr e'"
  using assms by (simp add: check_state_dependent_auth_rules_def)

lemma accepted_member:
  assumes "check_rules_with_dict vs e auth = Inr e'" and "ev_type e = EventTypes_Member"
  shows "is_membership_change_allowed vs (ev_room_version e) e auth = Inr ()"
  using assms by (auto simp: check_rules_with_dict_def rbind_Inr_iff)

lemma membership_allowed_cases:
  assumes "is_membership_change_allowed vs rv e auth = Inr ()" and "membership_of e = Inr m"
  obtains "is_creator_join rv e m auth = Inr True"
  | t f where "ev_state_key e = Some t" "is_creator_join rv e m auth = Inr False"
      "gather_membership_facts rv e t auth = Inr f" "decide_membership vs rv e m t f auth = Inr ()"
proof -
  from assms obtain b where b: "is_creator_join rv e m auth = Inr b"
    by (auto simp: is_membership_change_allowed_def rbind_Inr_iff)
  show ?thesis
  proof (cases b)
    case True
    with b that(1) show ?thesis by simp
  next
    case False
    with assms b that(2) show ?thesis
      by (auto simp: is_membership_change_allowed_def rbind_Inr_iff state_key_of_Inr)
  qed
qed

lemma gather_facts_levels:
  assumes "gather_membership_facts rv e t auth = Inr f"
  shows "get_user_power_level (ev_sender e) auth = Inr (user_level f)"
    and "get_user_power_level t auth = Inr (target_level f)"
    and "get_named_level auth ''invite'' 0 = Inr (invite_level f)"
    and "get_named_level auth ''ban'' 50 = Inr (ban_level f)"
    and "has_membership (auth (EventTypes_Member, ev_sender e)) Membership_JOIN = Inr (caller_in_room f)"
    and "has_membership (auth (EventTypes_Member, ev_sender e)) Membership_INVITE = Inr (caller_invited f)"
    and "has_membership (auth (EventTypes_Member, t)) Membership_BAN = Inr (target_banned f)"
    and "has_membership (auth (EventTypes_Member, t)) Membership_JOIN = Inr (target_in_room f)"
  using assms by (auto simp: gather_membership_facts_def Let_def rbind_Inr_iff)

text \<open>The membership of a user in a state.\<close>

definition member_state :: "state_map \<Rightarrow> string \<Rightarrow> string \<Rightarrow> bool" where
  "member_state auth u s \<longleftrightarrow> has_membership (auth (EventTypes_Member, u)) s = Inr True"

lemma is_creator_join_True:
  assumes "is_creator_join rv e m auth = Inr True"
  shows "m = JStr Membership_JOIN \<and> (\<exists>create. auth (EventTypes_Create, []) = Some create \<and>
    ev_prev_event_ids e = [ev_event_id create] \<and> (\<exists>k. ev_state_key e = Some k \<and> creator_of rv create = Inr (JStr k)))"
proof -
  from assms have l: "length (ev_prev_event_ids e) = 1" and m: "m = JStr Membership_JOIN"
    and c: "\<exists>create. auth (EventTypes_Create, []) = Some create \<and> hd (ev_prev_event_ids e) = ev_event_id create \<and>
      (\<exists>k. ev_state_key e = Some k \<and> creator_of rv create = Inr (JStr k))"
    by (auto simp: is_creator_join_def rbind_Inr_iff state_key_of_Inr split: if_splits option.splits)
  from l obtain p where "ev_prev_event_ids e = [p]" by (auto simp: length_Suc_conv)
  with m c show ?thesis by auto
qed

text \<open>
  C2.  Kicks and bans need strictly more power than the target has: an accepted
  membership event that makes another user leave or banned comes from a joined sender whose
  power level is above the target's and at least the kick or the ban level of the room.
\<close>

theorem removal_requires_power:
  assumes "check_state_dependent_auth_rules vs e es = Inr e'" and "make_auth_dict es = Inr auth"
    and "ev_type e = EventTypes_Member" and "ev_state_key e = Some t" and "t \<noteq> ev_sender e"
    and "membership_of e = Inr (JStr m)" and "m = Membership_LEAVE \<or> m = Membership_BAN"
  shows "member_state auth (ev_sender e) Membership_JOIN \<and>
    (\<exists>ul tl lvl. get_user_power_level (ev_sender e) auth = Inr ul \<and>
       get_user_power_level t auth = Inr tl \<and>
       get_named_level auth (if m = Membership_LEAVE then ''kick'' else ''ban'') 50 = Inr lvl \<and>
       tl < ul \<and> lvl \<le> ul)"
proof -
  from assms(3) have ty: "ev_type e \<noteq> EventTypes_Create" by simp
  have "is_membership_change_allowed vs (ev_room_version e) e auth = Inr ()"
    using accepted_member [OF accepted_rules [OF assms(1) ty assms(2)] assms(3)] .
  from this assms(6) show ?thesis
  proof (cases rule: membership_allowed_cases)
    case 1
    with assms(7) show ?thesis by (auto dest: is_creator_join_True)
  next
    case (2 t' f)
    with assms(4) have t': "t' = t" by simp
    note g = gather_facts_levels [OF 2(3) [unfolded t']]
    from 2(4) assms(5,7) t' have d: "caller_in_room f"
      "m = Membership_LEAVE \<Longrightarrow> check_leave e t f auth = Inr ()"
      "m = Membership_BAN \<Longrightarrow> check_ban f = Inr ()"
      by (auto simp: decide_membership_def split: if_splits)
    show ?thesis
    proof (cases "m = Membership_LEAVE")
      case True
      with d(2) assms(5) obtain kl where "get_named_level auth ''kick'' 50 = Inr kl"
        and "kl \<le> user_level f" and "target_level f < user_level f"
        by (auto simp: check_leave_def rbind_Inr_iff split: if_splits)
      with True d(1) g show ?thesis by (auto simp: member_state_def)
    next
      case False
      with assms(7) d(3) have "ban_level f \<le> user_level f" and "target_level f < user_level f"
        by (auto simp: check_ban_def split: if_splits)
      with False d(1) g show ?thesis by (auto simp: member_state_def)
    qed
  qed
qed

lemma restricted_join_ok:
  assumes "check_restricted_join e f auth = Inr ()" and "gather_membership_facts rv e t auth = Inr f"
  shows "member_state auth (ev_sender e) Membership_JOIN \<or> member_state auth (ev_sender e) Membership_INVITE \<or>
    (\<exists>u ul il. map_of (ev_content e) AUTHORISING_USER = Some (JStr u) \<and>
       member_state auth u Membership_JOIN \<and> get_user_power_level u auth = Inr ul \<and>
       get_named_level auth ''invite'' 0 = Inr il \<and> il \<le> ul)"
proof (cases "caller_in_room f \<or> caller_invited f")
  case True
  with gather_facts_levels [OF assms(2)] show ?thesis by (auto simp: member_state_def)
next
  case False
  with assms(1) obtain m u where "map_of (ev_content e) AUTHORISING_USER = Some (JStr u)"
    "auth (EventTypes_Member, u) = Some m" "membership_of m = Inr (JStr Membership_JOIN)"
    "\<exists>ul. get_user_power_level u auth = Inr ul \<and> invite_level f \<le> ul"
    by (auto simp: check_restricted_join_def Let_def rbind_Inr_iff check_joined_room_def jget_def
        split: if_splits option.splits json.splits elim!: auth_get_json.elims)
  with gather_facts_levels [OF assms(2)] show ?thesis
    by (auto simp: member_state_def has_membership_def)
qed

text \<open>
  C3.  Nobody joins a room against its rules.  An accepted join either comes directly after
  the create event and is the join of the user whom that event makes the creator, or it is
  sent by the joining user, who is not banned, and the join rule is public, or the user is
  joined or invited, or (restricted rules) the event names a joined user whose power level
  suffices to invite.
\<close>

theorem join_respects_rules:
  assumes "check_state_dependent_auth_rules vs e es = Inr e'" and "make_auth_dict es = Inr auth"
    and "ev_type e = EventTypes_Member" and "ev_state_key e = Some t"
    and "membership_of e = Inr (JStr Membership_JOIN)"
  shows "(\<exists>create. auth (EventTypes_Create, []) = Some create \<and> ev_prev_event_ids e = [ev_event_id create] \<and>
      (if implicit_room_creator (ev_room_version e) then ev_sender create = t
       else map_of (ev_content create) ROOM_CREATOR = Some (JStr t))) \<or>
    t = ev_sender e \<and> \<not> member_state auth t Membership_BAN \<and>
    (join_rule_in auth = JStr JoinRules_PUBLIC \<or>
     member_state auth t Membership_JOIN \<or> member_state auth t Membership_INVITE \<or>
     (join_rule_in auth \<in> {JStr JoinRules_RESTRICTED, JStr JoinRules_KNOCK_RESTRICTED} \<and>
      (\<exists>u ul il. map_of (ev_content e) AUTHORISING_USER = Some (JStr u) \<and>
         member_state auth u Membership_JOIN \<and> get_user_power_level u auth = Inr ul \<and>
         get_named_level auth ''invite'' 0 = Inr il \<and> il \<le> ul)))"
proof -
  from assms(3) have ty: "ev_type e \<noteq> EventTypes_Create" by simp
  have "is_membership_change_allowed vs (ev_room_version e) e auth = Inr ()"
    using accepted_member [OF accepted_rules [OF assms(1) ty assms(2)] assms(3)] .
  from this assms(5) show ?thesis
  proof (cases rule: membership_allowed_cases)
    case 1
    with is_creator_join_True [OF this] assms(4) show ?thesis
      by (auto simp: creator_of_def dict_item_Inr split: if_splits)
  next
    case (2 t' f)
    with assms(4) have t': "t' = t" by simp
    note g = gather_facts_levels [OF 2(3)]
    from 2(4) have j: "check_join (ev_room_version e) e t f auth = Inr ()"
      by (auto simp: decide_membership_def t' split: if_splits)
    then have "t = ev_sender e" and "\<not> target_banned f"
      and "join_rule f = JStr JoinRules_PUBLIC \<or> caller_in_room f \<or> caller_invited f \<or>
        (join_rule f \<in> {JStr JoinRules_RESTRICTED, JStr JoinRules_KNOCK_RESTRICTED} \<and>
         check_restricted_join e f auth = Inr ())"
      by (auto simp: check_join_def split: if_splits)
    then show ?thesis
      using g gather_facts_join_rule [OF 2(3)] restricted_join_ok [OF _ 2(3)]
      by (intro disjI2) (auto simp: member_state_def t')
  qed
qed

section \<open>Power levels\<close>








text \<open>
  C5.  Only members with enough power write to a room: an accepted event that is neither a
  create, a membership nor a third-party invite event (nor an alias event of the versions
  that special-case them) has a joined sender whose level is at least the one required to
  send that type of event, and it does not write under another user's ID.
\<close>

theorem accepted_sender_joined_with_power:
  assumes "check_state_dependent_auth_rules vs e es = Inr e'" and "make_auth_dict es = Inr auth"
    and "ev_type e \<notin> {EventTypes_Create, EventTypes_Member, EventTypes_ThirdPartyInvite}"
    and "ev_type e = EventTypes_Aliases \<longrightarrow> \<not> special_case_aliases_auth (ev_room_version e)"
  shows "member_state auth (ev_sender e) Membership_JOIN \<and>
    (\<exists>ul sl. get_user_power_level (ev_sender e) auth = Inr ul \<and>
       get_send_level (ev_type e) (ev_state_key e) (get_power_level_event auth) = Inr sl \<and> sl \<le> ul) \<and>
    (\<forall>k. ev_state_key e = Some k \<and> prefix ''@'' k \<longrightarrow> k = ev_sender e)"
proof -
  from assms(3) have ty: "ev_type e \<noteq> EventTypes_Create" by simp
  from accepted_rules [OF assms(1) ty assms(2)] assms(3,4)
  have j: "check_event_sender_in_room e auth = Inr ()" and s: "can_send_event e auth = Inr ()"
    by (auto simp: check_rules_with_dict_def rbind_Inr_iff)
  from j have "member_state auth (ev_sender e) Membership_JOIN"
    by (auto simp: check_event_sender_in_room_def check_joined_room_def member_state_def
        has_membership_def rbind_Inr_iff split: option.splits)
  with s show ?thesis
    by (auto simp: can_send_event_def rbind_Inr_iff split: option.splits)
qed

section \<open>A concrete room\<close>

text \<open>
  A room of version 10 with its creator \<^verbatim>\<open>@a:x\<close> (level 100), a moderator
  \<^verbatim>\<open>@b:x\<close> (level 50) and a member \<^verbatim>\<open>@c:x\<close>; the theorems are applied to
  events in this room.
\<close>

definition sample_event :: "string \<Rightarrow> string \<Rightarrow> string option \<Rightarrow> json_obj \<Rightarrow> string \<Rightarrow> event" where
  "sample_event ty sender skey content i = \<lparr>ev_type = ty, ev_sender = sender, ev_room_id = ''!r:x'',
     ev_state_key = skey, ev_content = content, ev_event_id = i, ev_prev_event_ids = [''$p''],
     ev_auth_event_ids = [], ev_depth = 1, ev_origin_server_ts = 0, ev_redacts = JNull,
     ev_signatures = [(''x'', [(''ed25519:1'', ''s'')])], ev_unsigned = [], ev_rejected_reason = None,
     ev_room_version = V10, ev_recheck_redaction = False, ev_redacted = False\<rparr>"

definition sample_member :: "string \<Rightarrow> string \<Rightarrow> string \<Rightarrow> event" where
  "sample_member sender target m =
     sample_event EventTypes_Member sender (Some target) [(''membership'', JStr m)] ''$m''"

definition sample_levels :: "json_obj \<Rightarrow> json_obj" where
  "sample_levels extra = [(''users'', JObj ([(''@a:x'', JInt 100), (''@b:x'', JInt 50)] @ extra))]"

definition sample_room :: "event list" where
  "sample_room =
     [sample_event EventTypes_Create ''@a:x'' (Some []) [(''creator'', JStr ''@a:x'')] ''$c'',
      sample_event EventTypes_PowerLevels ''@a:x'' (Some []) (sample_levels []) ''$pl'',
      sample_event EventTypes_JoinRules ''@a:x'' (Some []) [(''join_rule'', JStr ''public'')] ''$jr'',
      sample_member ''@a:x'' ''@a:x'' ''join'', sample_member ''@b:x'' ''@b:x'' ''join'',
      sample_member ''@c:x'' ''@c:x'' ''join'']"

definition sample_state :: state_map where
  "sample_state = (case make_auth_dict sample_room of Inr m \<Rightarrow> m | Inl _ \<Rightarrow> Map.empty)"

definition sample_verifier :: sig_verifier where
  "sample_verifier signed server key pk = Inl SignatureVerifyException"

lemmas sample_defs = sample_event_def sample_member_def sample_levels_def sample_room_def

lemma sample_room_dict: "make_auth_dict sample_room = Inr sample_state"
  by (simp add: sample_state_def make_auth_dict_def sample_defs state_key_pair_def)

text \<open>The moderator bans the member; a stranger joins; the moderator promotes the member.\<close>

definition sample_ban :: event where
  "sample_ban = sample_member ''@b:x'' ''@c:x'' ''ban''"

definition sample_join :: event where
  "sample_join = sample_member ''@d:x'' ''@d:x'' ''join''"

definition sample_promotion :: event where
  "sample_promotion = sample_event EventTypes_PowerLevels ''@b:x'' (Some [])
     (sample_levels [(''@c:x'', JInt 40)]) ''$pl2''"

definition sample_topic :: event where
  "sample_topic = sample_event ''m.room.topic'' ''@b:x'' (Some []) [(''topic'', JStr ''hi'')] ''$t''"

lemma sample_state_lookup:
  "sample_state (EventTypes_Create, []) = Some (sample_room ! 0)"
  "sample_state (EventTypes_PowerLevels, []) = Some (sample_room ! 1)"
  by code_simp+

lemma sample_accepted:
  "check_state_dependent_auth_rules sample_verifier sample_ban sample_room = Inr sample_ban"
  "check_state_dependent_auth_rules sample_verifier sample_join sample_room = Inr sample_join"
  "check_state_dependent_auth_rules sample_verifier sample_promotion sample_room = Inr sample_promotion"
  "check_state_dependent_auth_rules sample_verifier sample_topic sample_room = Inr sample_topic"
  by code_simp+

lemma sample_ban_facts:
  "valid_room_version (ev_room_version sample_ban)" "ev_type sample_ban = EventTypes_Member"
  "ev_sender sample_ban = ''@b:x''" "ev_state_key sample_ban = Some ''@c:x''"
  "membership_of sample_ban = Inr (JStr ''ban'')"
  "auth_types_for_event (ev_room_version sample_ban) sample_ban = Inr
     [(EventTypes_PowerLevels, []), (EventTypes_Member, ''@b:x''), (EventTypes_Create, []),
      (EventTypes_Member, ''@c:x'')]"
  by code_simp+

text \<open>The join rules are not among the auth events of a ban: dropping them changes nothing.\<close>

lemma sample_room_trimmed:
  "make_auth_dict (remove1 (sample_room ! 2) sample_room) =
     Inr (sample_state((EventTypes_JoinRules, []) := None))"
  by (simp add: sample_state_def make_auth_dict_def sample_defs state_key_pair_def EventTypes_defs
      fun_upd_twist fun_eq_iff)

theorem auth_types_sufficient_witness:
  "check_state_dependent_auth_rules sample_verifier sample_ban sample_room =
   check_state_dependent_auth_rules sample_verifier sample_ban (remove1 (sample_room ! 2) sample_room)"
  by (rule conjunct1 [OF auth_types_sufficient [OF _ sample_ban_facts(6) sample_room_dict sample_room_trimmed]])
    (simp_all add: sample_ban_facts)

text \<open>
  A power-levels event with another state key is compared with the current event of that
  key, which \<open>auth_types_for_event\<close> does not select: two states that agree on the selected keys
  differ in their verdict.
\<close>

definition sample_keyed :: "string \<Rightarrow> int \<Rightarrow> event" where
  "sample_keyed sender level = sample_event EventTypes_PowerLevels sender (Some ''k'')
     [(''users'', JObj [(''@c:x'', JInt level)])] ''$k''"

lemma own_key_not_selected:
  "is_ok (check_state_dependent_auth_rules sample_verifier (sample_keyed ''@b:x'' 40) sample_room)"
  "\<not> is_ok (check_state_dependent_auth_rules sample_verifier (sample_keyed ''@b:x'' 40)
     (sample_keyed ''@a:x'' 90 # sample_room))"
  "auth_types_for_event V10 (sample_keyed ''@b:x'' 40) =
     Inr [(EventTypes_PowerLevels, []), (EventTypes_Member, ''@b:x''), (EventTypes_Create, [])]"
  by code_simp+

theorem removal_requires_power_witness:
  "member_state sample_state ''@b:x'' ''join'' \<and>
    (\<exists>ul tl lvl. get_user_power_level ''@b:x'' sample_state = Inr ul \<and>
       get_user_power_level ''@c:x'' sample_state = Inr tl \<and>
       get_named_level sample_state ''ban'' 50 = Inr lvl \<and> tl < ul \<and> lvl \<le> ul)"
  using removal_requires_power [OF sample_accepted(1) sample_room_dict sample_ban_facts(2,4) _
      sample_ban_facts(5)] sample_ban_facts(3) by simp

theorem join_respects_rules_witness:
  "\<not> member_state sample_state ''@d:x'' ''ban'' \<and> join_rule_in sample_state = JStr ''public''"
proof -
  have "ev_type sample_join = EventTypes_Member" "ev_state_key sample_join = Some ''@d:x''"
    "membership_of sample_join = Inr (JStr ''join'')" "ev_prev_event_ids sample_join = [''$p'']"
    "ev_event_id (sample_room ! 0) = ''$c''" "ev_sender sample_join = ''@d:x''" "join_rule_in sample_state = JStr ''public''"
    by code_simp+
  with join_respects_rules [OF sample_accepted(2) sample_room_dict, of "''@d:x''"]
  show ?thesis by (simp add: sample_state_lookup)
qed


theorem accepted_sender_joined_with_power_witness:
  "member_state sample_state ''@b:x'' ''join''"
proof -
  have "ev_type sample_topic \<notin> {EventTypes_Create, EventTypes_Member, EventTypes_ThirdPartyInvite}"
    "ev_type sample_topic \<noteq> EventTypes_Aliases" "ev_sender sample_topic = ''@b:x''"
    by code_simp+
  with accepted_sender_joined_with_power [OF sample_accepted(4) sample_room_dict]
  show ?thesis by simp
qed

end
