(* ===== verification/Event_Auth_Format.thy ===== *)
theory Event_Auth_Format
  imports Event_Auth_Safety
begin

text \<open>
  The checks of \<^verbatim>\<open>synapse/event_auth.py\<close> that do not read room state: the auth
  events an event cites, its size, its signatures, and the create event.
\<close>

section \<open>The cited auth events\<close>






section \<open>Size limits\<close>

text \<open>The bounded fields of an event.\<close>

definition limited_fields :: "event \<Rightarrow> string list" where
  "limited_fields e = [ev_sender e, ev_room_id e, (case ev_state_key e of Some k \<Rightarrow> k | None \<Rightarrow> []),
     ev_type e, ev_event_id e]"

text \<open>
  C7.  An event passes the size checks exactly when its canonical form has at most 65536
  bytes and its sender, room ID, state key, type and event ID have at most 255 bytes each:
  the check on code points is implied by the one on bytes.
\<close>

theorem size_limits_exact:
  "check_size_limits pdu_len e = Inr () \<longleftrightarrow>
     pdu_len e \<le> 65536 \<and> list_all (\<lambda>s. length s \<le> 255) (limited_fields e)"
proof -
  have "py_len s \<le> 255" if "length s \<le> 255" for s using py_len_le_bytes [of s] that by simp
  then show ?thesis
    by (auto simp: check_size_limits_def limited_fields_def Let_def MAX_PDU_SIZE_def rbind_Inr_iff
        not_less)
qed

lemma for_each_Inl:
  "for_each f xs = Inl err \<Longrightarrow> \<exists>x \<in> set xs. f x = Inl err"
  by (induction xs) (auto simp: rbind_Inl_iff)

text \<open>
  C8.  The size checks raise only size errors, and they mark the event persistable only when
  it belongs to a room version with lenient limits, its canonical form fits and every field
  has at most 255 code points.
\<close>

theorem size_limits_error:
  assumes "check_size_limits pdu_len e = Inl err"
  shows "\<exists>field unpersistable. err = EventSizeError field unpersistable \<and>
    (\<not> unpersistable \<longrightarrow> ev_room_version e \<in> set LENIENT_EVENT_BYTE_LIMITS_ROOM_VERSIONS \<and>
       pdu_len e \<le> 65536 \<and> list_all (\<lambda>s. py_len s \<le> 255) (limited_fields e) \<and>
       \<not> list_all (\<lambda>s. length s \<le> 255) (limited_fields e))"
proof -
  let ?skey = "case ev_state_key e of Some k \<Rightarrow> k | None \<Rightarrow> []"
  define fields where "fields = [(''user_id'', ev_sender e), (''room_id'', ev_room_id e),
    (''state_key'', ?skey), (''type'', ev_type e), (''event_id'', ev_event_id e)]"
  define strict where "strict = (ev_room_version e \<notin> set LENIENT_EVENT_BYTE_LIMITS_ROOM_VERSIONS)"
  let ?chars = "for_each (\<lambda>(n, s). guard_raise (py_len s > 255) (EventSizeError n True)) fields"
  let ?bytes = "for_each (\<lambda>(n, s). guard_raise (length s > 255) (EventSizeError n strict)) fields"
  have lf: "limited_fields e = map snd fields" by (simp add: limited_fields_def fields_def)
  have "check_size_limits pdu_len e =
      rbind (guard_raise (pdu_len e > 65536) (EventSizeError ''event too large'' True))
        (\<lambda>_. rbind ?chars (\<lambda>_. ?bytes))"
    by (simp only: check_size_limits_def Let_def fields_def strict_def MAX_PDU_SIZE_def)
  with assms consider "err = EventSizeError ''event too large'' True"
    | "?chars = Inl err" | "pdu_len e \<le> 65536" "?chars = Inr ()" "?bytes = Inl err"
    by (auto simp: rbind_Inl_iff guard_raise_def split: if_splits)
  then show ?thesis
  proof cases
    case 2
    from for_each_Inl [OF this] obtain n where "err = EventSizeError n True"
      by (auto simp: guard_raise_def split: if_splits)
    then show ?thesis by blast
  next
    case 3
    from for_each_Inl [OF 3(3)] obtain n s where "(n, s) \<in> set fields" "length s > 255"
      "err = EventSizeError n strict" by (auto simp: guard_raise_def split: if_splits)
    with 3(1,2) show ?thesis
      by (force simp: for_each_Inr lf list_all_iff strict_def)
  qed auto
qed

section \<open>Signatures and the create event\<close>

lemma membership_check:
  "(if ev_type e = EventTypes_Member then rbind (membership_of e) (\<lambda>m. Inr (m = JStr x \<and> P)) else Inr False) = Inr b \<longleftrightarrow>
     (ev_type e = EventTypes_Member \<longrightarrow> is_ok (membership_of e)) \<and>
     b = (ev_type e = EventTypes_Member \<and> membership_of e = Inr (JStr x) \<and> P)"
  by (cases "membership_of e") auto

text \<open>
  C9.  Provenance: an event passes the checks of its format exactly if its sizes are within
  the limits and it is signed by the servers that answer for it.  It is signed by the server
  of its sender, unless it is an invite from a third-party identifier, which needs no such
  signature; in the old event format it is signed by the server of its event ID; and a join
  that a restricted room authorised is signed by the server of the user who authorised it.
  (A membership event must have a membership.)
\<close>

theorem validated_event_signed:
  "validate_event_for_room_version pdu_len e = Inr () \<longleftrightarrow>
    check_size_limits pdu_len e = Inr () \<and> (ev_type e = EventTypes_Member \<longrightarrow> is_ok (membership_of e)) \<and>
    (\<exists>d. get_domain_from_id (ev_sender e) = Inr d \<and>
      (signed_by e d \<or> (ev_type e = EventTypes_Member \<and> membership_of e = Inr (JStr Membership_INVITE) \<and>
        dict_has (ev_content e) ''third_party_invite''))) \<and>
    (event_format (ev_room_version e) = ROOM_V1_V2 \<longrightarrow>
      (\<exists>d. get_domain_from_id (ev_event_id e) = Inr d \<and> signed_by e d)) \<and>
    (\<forall>v. restricted_join_rule (ev_room_version e) \<and> ev_type e = EventTypes_Member \<and>
       membership_of e = Inr (JStr Membership_JOIN) \<and> map_of (ev_content e) AUTHORISING_USER = Some v \<longrightarrow>
       (\<exists>u d. v = JStr u \<and> get_domain_from_id u = Inr d \<and> signed_by e d))"
proof -
  let ?m = "ev_type e = EventTypes_Member \<longrightarrow> is_ok (membership_of e)"
  let ?allow = "restricted_join_rule (ev_room_version e) \<and> ev_type e = EventTypes_Member \<and>
    membership_of e = Inr (JStr Membership_JOIN)"
  have allow: "(if restricted_join_rule (ev_room_version e) \<and> ev_type e = EventTypes_Member
      then rbind (membership_of e) (\<lambda>m. Inr (m = JStr Membership_JOIN \<and> dict_has (ev_content e) AUTHORISING_USER))
      else Inr False) = Inr (?allow \<and> dict_has (ev_content e) AUTHORISING_USER)" if ?m
    using that by (cases "membership_of e") auto
  have user: "(if ?allow \<and> dict_has (ev_content e) AUTHORISING_USER
      then (case jget (ev_content e) AUTHORISING_USER JNull of
          JStr u \<Rightarrow> rbind (get_domain_from_id u) (\<lambda>d.
            guard_raise (\<not> signed_by e d) (AuthError 403 ''Event not signed by authorising server''))
        | _ \<Rightarrow> Inl PyAttributeError)
      else Inr ()) = Inr () \<longleftrightarrow>
    (\<forall>v. ?allow \<and> map_of (ev_content e) AUTHORISING_USER = Some v \<longrightarrow>
       (\<exists>u d. v = JStr u \<and> get_domain_from_id u = Inr d \<and> signed_by e d))"
    by (cases "map_of (ev_content e) AUTHORISING_USER")
      (auto simp: dict_has_def jget_def rbind_Inr_iff split: json.splits)
  have "validate_event_for_room_version pdu_len e = Inr () \<longleftrightarrow>
    check_size_limits pdu_len e = Inr () \<and> ?m \<and>
    (\<exists>d. get_domain_from_id (ev_sender e) = Inr d \<and>
      (signed_by e d \<or> (ev_type e = EventTypes_Member \<and> membership_of e = Inr (JStr Membership_INVITE) \<and>
        dict_has (ev_content e) ''third_party_invite''))) \<and>
    (event_format (ev_room_version e) = ROOM_V1_V2 \<longrightarrow>
      (\<exists>d. get_domain_from_id (ev_event_id e) = Inr d \<and> signed_by e d)) \<and>
    (if ?allow \<and> dict_has (ev_content e) AUTHORISING_USER
      then (case jget (ev_content e) AUTHORISING_USER JNull of
          JStr u \<Rightarrow> rbind (get_domain_from_id u) (\<lambda>d.
            guard_raise (\<not> signed_by e d) (AuthError 403 ''Event not signed by authorising server''))
        | _ \<Rightarrow> Inl PyAttributeError)
      else Inr ()) = Inr ()"
  proof (cases ?m)
    case True
    then show ?thesis
      unfolding validate_event_for_room_version_def rbind_Inr_iff membership_check allow [OF True]
      by (auto simp: rbind_Inr_iff)
  next
    case False
    then show ?thesis
      unfolding validate_event_for_room_version_def rbind_Inr_iff membership_check by auto
  qed
  then show ?thesis unfolding user by (simp only: conj_assoc)
qed

section \<open>The theorems at concrete events\<close>




text \<open>A type of 200 two-byte characters is within the limit on code points only.\<close>

definition sample_long :: event where
  "sample_long = sample_topic\<lparr>ev_type := concat (replicate 200 [CHR 0xC3, CHR 0xA9])\<rparr>"

lemma concat_replicate_lengths:
  "length (concat (replicate n s)) = n * length s" "py_len (concat (replicate n s)) = n * py_len s"
  by (induction n) (auto simp: py_len_def)

lemma sample_long_fields:
  "ev_sender sample_long = ''@b:x''" "ev_room_id sample_long = ''!r:x''" "ev_state_key sample_long = Some []"
  "ev_event_id sample_long = ''$t''" "ev_room_version sample_long = V10"
  "py_len (ev_type sample_long) = 200" "length (ev_type sample_long) = 400"
  by (simp_all add: sample_long_def sample_topic_def sample_event_def concat_replicate_lengths)
    (simp add: py_len_def utf8_cont_def)

theorem size_limits_error_witness:
  "check_size_limits (\<lambda>_. 1000) sample_long = Inl (EventSizeError ''type'' False) \<and>
   list_all (\<lambda>s. py_len s \<le> 255) (limited_fields sample_long)"
proof -
  have "check_size_limits (\<lambda>_. 1000) sample_long = Inl (EventSizeError ''type'' False)"
    by (simp add: check_size_limits_def Let_def sample_long_fields MAX_PDU_SIZE_def
        LENIENT_EVENT_BYTE_LIMITS_ROOM_VERSIONS_def py_len_def [of "_ # _"] py_len_def [of "[]"])
  with size_limits_error [OF this] show ?thesis by auto
qed

theorem validated_event_signed_witness:
  "\<exists>d. get_domain_from_id ''@b:x'' = Inr d \<and> signed_by sample_topic d"
proof -
  have "validate_event_for_room_version (\<lambda>_. 1000) sample_topic = Inr ()"
    by (simp add: validate_event_for_room_version_def check_size_limits_def sample_topic_def
        sample_event_def MAX_PDU_SIZE_def py_len_def utf8_cont_def EventTypes_defs V10_def get_domain_from_id_def
        signed_by_def split_once_def)
  moreover have "ev_type sample_topic \<noteq> EventTypes_Member" "ev_sender sample_topic = ''@b:x''"
    by code_simp+
  ultimately show ?thesis using validated_event_signed [of "\<lambda>_. 1000" sample_topic] by auto
qed

end
