(* ===== verification/State_Filter_Props.thy ===== *)
theory State_Filter_Props
  imports State_Filter
begin

text \<open>
  The operations of \<open>State_Filter\<close> against the set of state keys a filter selects.
\<close>

section \<open>Semantics\<close>

text \<open>The keys that a filter selects, by the documentation of its two attributes.\<close>

definition matches :: "state_filter \<Rightarrow> state_key \<Rightarrow> bool" where
  "matches f k \<longleftrightarrow>
     (\<exists>ks. (fst k, ks) \<in> set (types f) \<and> (\<forall>l. ks = Some l \<longrightarrow> snd k \<in> set l)) \<or>
     (include_others f \<and> fst k \<notin> fst ` set (types f))"

text \<open>
  The invariant of the class: \<open>types\<close> is a dict, its values are sets, and a filter that
  includes other types has no wildcards.
\<close>

definition wf_filter :: "state_filter \<Rightarrow> bool" where
  "wf_filter f \<longleftrightarrow> distinct (map fst (types f)) \<and>
     (\<forall>(t, ks) \<in> set (types f). (\<forall>l. ks = Some l \<longrightarrow> distinct l) \<and> (include_others f \<longrightarrow> ks \<noteq> None))"

text \<open>What one entry of the dict says about a state key.\<close>

definition entry_sem :: "string list option option \<Rightarrow> bool \<Rightarrow> string \<Rightarrow> bool" where
  "entry_sem en others k =
     (case en of None \<Rightarrow> others | Some None \<Rightarrow> True | Some (Some l) \<Rightarrow> k \<in> set l)"

lemma entry_sem_simps [simp]:
  "entry_sem None o' k = o'" "entry_sem (Some None) o' k = True"
  "entry_sem (Some (Some l)) o' k \<longleftrightarrow> k \<in> set l"
  by (simp_all add: entry_sem_def)

lemma keeps_entry: "keeps f (t, k) = entry_sem (map_of (types f) t) (include_others f) k"
  by (simp add: keeps_def entry_sem_def split: option.splits)

lemma matches_entry:
  assumes "distinct (map fst (types f))"
  shows "matches f (t, k) = entry_sem (map_of (types f) t) (include_others f) k"
proof -
  have "(t, ks) \<in> set (types f) \<longleftrightarrow> map_of (types f) t = Some ks" for ks
    using assms by simp
  moreover have "t \<in> fst ` set (types f) \<longleftrightarrow> map_of (types f) t \<noteq> None"
    by (simp add: map_of_eq_None_iff)
  ultimately show ?thesis
    by (auto simp: matches_def entry_sem_def simp del: not_None_eq split: option.splits)
qed

lemma wf_filterD [dest]: "wf_filter f \<Longrightarrow> distinct (map fst (types f))"
  by (simp add: wf_filter_def)

lemma matches_keeps: "wf_filter f \<Longrightarrow> matches f k = keeps f k"
  by (cases k) (auto simp: matches_entry keeps_entry)

lemma distinct_fst_filter: "distinct (map fst ts) \<Longrightarrow> distinct (map fst (filter P ts))"
  by (simp add: distinct_map_filter)

lemma types_StateFilter:
  "distinct (map fst ts) \<Longrightarrow> distinct (map fst (types (StateFilter ts others)))"
  "include_others (StateFilter ts others) = others"
  by (simp_all add: StateFilter_def distinct_fst_filter)

lemma matches_StateFilter:
  assumes "distinct (map fst ts)"
  shows "matches (StateFilter ts others) (t, k) = entry_sem (map_of ts t) others k"
proof -
  have "matches (StateFilter ts others) (t, k) =
      entry_sem (map_of (types (StateFilter ts others)) t) others k"
    using matches_entry [OF types_StateFilter(1) [OF assms]] by (simp add: types_StateFilter)
  also have "\<dots> = entry_sem (map_of ts t) others k"
    by (auto simp: StateFilter_def map_of_filter_snd [OF assms, of "\<lambda>v. v \<noteq> None"] simp del: not_None_eq split: option.splits)
  finally show ?thesis .
qed

lemma wf_StateFilter:
  assumes "distinct (map fst ts)" and "\<forall>(t, ks) \<in> set ts. \<forall>l. ks = Some l \<longrightarrow> distinct l"
  shows "wf_filter (StateFilter ts others)"
  using assms by (auto simp: wf_filter_def StateFilter_def distinct_fst_filter)

section \<open>Building filters from lists of types\<close>

lemma from_types_step_distinct:
  "distinct (map fst d) \<Longrightarrow> distinct (map fst (from_types_step x d))"
  by (auto simp: from_types_step_def dict_setdefault_def distinct_update split: prod.splits option.splits)

lemma from_types_step_sem:
  "entry_sem (map_of (from_types_step x d) t) False k \<longleftrightarrow>
     entry_sem (map_of d t) False k \<or> x = (t, None) \<or> x = (t, Some k)"
proof (cases x)
  case (Pair ty s)
  then show ?thesis
    by (cases s; cases "map_of d ty"; cases "the (map_of d ty)"; cases "t = ty")
      (auto simp: from_types_step_def map_of_dict_setdefault update_conv' dict_has_def)
qed

lemma from_types_fold:
  "entry_sem (map_of (fold from_types_step ts d) t) False k \<longleftrightarrow>
     entry_sem (map_of d t) False k \<or> (t, None) \<in> set ts \<or> (t, Some k) \<in> set ts"
  by (induction ts arbitrary: d) (auto simp: from_types_step_sem)

lemma from_types_fold_distinct:
  "distinct (map fst d) \<Longrightarrow> distinct (map fst (fold from_types_step ts d))"
  by (induction ts arbitrary: d) (auto simp: from_types_step_distinct)

lemma matches_from_types:
  "matches (from_types ts) (t, k) \<longleftrightarrow> (t, None) \<in> set ts \<or> (t, Some k) \<in> set ts"
  by (simp add: from_types_def matches_StateFilter from_types_fold_distinct from_types_fold)

lemma set_to_types:
  "set (to_types f) = {(t, None) | t. (t, None) \<in> set (types f)} \<union>
     {(t, Some k) | t l k. (t, Some l) \<in> set (types f) \<and> k \<in> set l}"
  by (auto simp: to_types_def split: option.splits)

section \<open>Four parts\<close>

lemma insert_state_key_sem:
  "entry_sem (map_of (insert_state_key a x d) t) a k \<longleftrightarrow> entry_sem (map_of d t) a k \<or> (t, k) = x"
proof (cases x)
  case (Pair st sk)
  then show ?thesis
    by (cases "map_of d st"; cases "the (map_of d st)"; cases "t = st")
      (auto simp: insert_state_key_def update_conv')
qed

lemma insert_state_keys_sem:
  "entry_sem (map_of (fold (insert_state_key a) xs d) t) a k \<longleftrightarrow>
     entry_sem (map_of d t) a k \<or> (t, k) \<in> set xs"
  by (induction xs arbitrary: d) (auto simp: insert_state_key_sem)

lemma insert_state_keys_distinct:
  "distinct (map fst d) \<Longrightarrow> distinct (map fst (fold (insert_state_key a) xs d))"
  by (induction xs arbitrary: d)
    (auto simp: insert_state_key_def distinct_update split: prod.splits option.splits)

lemma map_of_map_const:
  "map_of (rev (map (\<lambda>t. (t, c)) ts)) t = (if t \<in> set ts then Some c else None)"
  by (induction ts) (auto simp: map_add_def split: option.splits)

lemma matches_freeze:
  assumes "distinct (map fst ts)"
  shows "matches (freeze ts others) (t, k) = entry_sem (map_of ts t) others k"
proof -
  have eq: "map (\<lambda>(t, ks). (t, map_option remdups ks)) ts = map (\<lambda>(t, ks). (t, (map_option remdups) ks)) ts"
    by simp
  have d: "distinct (map fst (map (\<lambda>(t, ks). (t, map_option remdups ks)) ts))"
    using assms by (simp add: case_prod_beta comp_def)
  show ?thesis
    by (cases "map_of ts t"; cases "the (map_of ts t)")
      (simp_all add: freeze_def matches_StateFilter [OF d] map_of_map)
qed

lemma matches_recompose:
  "matches (recompose_from_four_parts a mw pw pk) (t, k) \<longleftrightarrow>
     t \<in> set pw \<or> (t, k) \<in> set pk \<or> (a \<and> t \<notin> set mw)"
proof -
  let ?t1 = "if a then dict_update [] (map (\<lambda>t. (t, Some [])) mw) else []"
  let ?t2 = "dict_update ?t1 (map (\<lambda>t. (t, None)) pw)"
  have d: "distinct (map fst ?t2)" by (simp add: distinct_dict_update)
  have "entry_sem (map_of ?t2 t) a k \<longleftrightarrow> t \<in> set pw \<or> (a \<and> t \<notin> set mw)"
    by (auto simp: map_of_dict_update map_add_def map_of_map_const split: option.splits)
  then show ?thesis
    unfolding recompose_from_four_parts_def Let_def
    by (auto simp: matches_freeze [OF insert_state_keys_distinct [OF d]] insert_state_keys_sem)
qed

lemma set_wildcard_types: "t \<in> set (wildcard_types f) \<longleftrightarrow> (t, None) \<in> set (types f)"
  by (force simp: wildcard_types_def)

lemma set_concrete_types:
  "(t, k) \<in> set (concrete_types f) \<longleftrightarrow> (\<exists>l. (t, Some l) \<in> set (types f) \<and> k \<in> set l)"
  by (force simp: concrete_types_def split: option.splits)

lemma matches_parts:
  "matches f (t, k) \<longleftrightarrow> t \<in> set (wildcard_types f) \<or> (t, k) \<in> set (concrete_types f) \<or>
     (include_others f \<and> t \<notin> fst ` set (types f))"
proof -
  have "(\<exists>ks. (t, ks) \<in> set (types f) \<and> (\<forall>l. ks = Some l \<longrightarrow> k \<in> set l)) \<longleftrightarrow>
      (t, None) \<in> set (types f) \<or> (\<exists>l. (t, Some l) \<in> set (types f) \<and> k \<in> set l)"
    by (simp add: split_option_ex)
  then show ?thesis by (simp add: matches_def set_wildcard_types set_concrete_types)
qed

lemma matches_decompose:
  assumes "decompose_into_four_parts f = ((a, ex), (w, c))"
  shows "matches f (t, k) \<longleftrightarrow> t \<in> set w \<or> (t, k) \<in> set c \<or> (a \<and> t \<notin> set ex)"
proof -
  have "a = include_others f" "w = wildcard_types f" "set c = set (concrete_types f)"
    "a \<Longrightarrow> set ex = fst ` set (types f)"
    using assms by (force simp: decompose_into_four_parts_def split: if_splits)+
  then show ?thesis by (cases a) (simp_all add: matches_parts)
qed

lemma wf_no_wildcard: "wf_filter f \<Longrightarrow> include_others f \<Longrightarrow> wildcard_types f = []"
  by (auto simp: wf_filter_def wildcard_types_def filter_empty_conv)

section \<open>Every operation returns a well-formed filter\<close>

lemma wf_freeze: "distinct (map fst ts) \<Longrightarrow> wf_filter (freeze ts others)"
  unfolding freeze_def by (rule wf_StateFilter) (auto simp: case_prod_beta comp_def)

lemma wf_recompose: "wf_filter (recompose_from_four_parts a mw pw pk)"
  unfolding recompose_from_four_parts_def Let_def
  by (intro wf_freeze insert_state_keys_distinct distinct_dict_update) (simp add: distinct_dict_update)

lemma wf_approx_difference: "wf_filter (approx_difference f g)"
  by (simp add: approx_difference_def Let_def wf_recompose split: prod.splits)

definition sets_distinct :: "filter_types \<Rightarrow> bool" where
  "sets_distinct d \<longleftrightarrow> (\<forall>t l. map_of d t = Some (Some l) \<longrightarrow> distinct l)"

lemma sets_distinct_update:
  "sets_distinct d \<Longrightarrow> (\<forall>l. v = Some l \<longrightarrow> distinct l) \<Longrightarrow> sets_distinct (AList.update t v d)"
  unfolding sets_distinct_def update_conv' fun_upd_apply by (metis option.inject)

lemma sets_distinct_setdefault: "sets_distinct d \<Longrightarrow> sets_distinct (dict_setdefault d t (Some []))"
  by (simp add: dict_setdefault_def sets_distinct_update)

lemma sets_distinct_lookup: "sets_distinct d \<Longrightarrow> map_of d t = Some (Some l) \<Longrightarrow> distinct l"
  unfolding sets_distinct_def by blast

lemma sets_distinct_step:
  assumes "sets_distinct d"
  shows "sets_distinct (from_types_step x d)"
proof -
  note dflt = sets_distinct_setdefault [OF assms]
  show ?thesis
    using assms
    by (auto simp: from_types_step_def intro!: sets_distinct_update dflt
        dest: sets_distinct_lookup [OF dflt] split: prod.split option.split)
qed

lemma wf_from_types: "wf_filter (from_types ts)"
proof -
  have "sets_distinct d \<Longrightarrow> sets_distinct (fold from_types_step ts d)" for d
    by (induction ts arbitrary: d) (auto simp: sets_distinct_step)
  moreover have "sets_distinct []" by (simp add: sets_distinct_def)
  ultimately have "sets_distinct (fold from_types_step ts [])" by blast
  moreover have d: "distinct (map fst (fold from_types_step ts []))"
    by (simp add: from_types_fold_distinct)
  ultimately show ?thesis
    unfolding from_types_def
    by (intro wf_StateFilter) (auto dest: map_of_is_SomeI [OF d] sets_distinct_lookup)
qed

lemma wf_constants [simp]:
  "wf_filter ALL_STATE_FILTER" "wf_filter NONE_STATE_FILTER" "wf_filter ALL_NON_MEMBER_STATE_FILTER"
  by (simp_all add: wf_filter_def ALL_STATE_FILTER_def NONE_STATE_FILTER_def
      ALL_NON_MEMBER_STATE_FILTER_def StateFilter_def)

lemma wf_member_entry:
  assumes "wf_filter f" and "map_of (types f) t = Some (Some ks)"
  shows "distinct ks"
  using assms map_of_SomeD [OF assms(2)] by (auto simp: wf_filter_def)

text \<open>
  C29.  The class invariant: the constructors establish that \<open>types\<close> is a dict of sets
  without wildcards next to \<open>include_others\<close>, and \<open>return_expanded\<close>,
  \<open>get_member_split\<close> and \<open>approx_difference\<close> keep it.  The class constructor establishes
  it for every dict of sets, by dropping the wildcard entries when other types are
  included, and the filter it makes still selects what the dict asks for: the listed state
  keys of a type, everything of a type with a wildcard, and a type that is not listed
  exactly when other types are included.
\<close>

theorem filters_well_formed:
  assumes "wf_filter f"
  shows "wf_filter (from_types ts) \<and> wf_filter (from_lazy_load_member_list ms) \<and>
    wf_filter (return_expanded f) \<and> wf_filter (fst (get_member_split f)) \<and>
    wf_filter (snd (get_member_split f)) \<and> wf_filter (approx_difference f g) \<and>
    (distinct (map fst es) \<and> (\<forall>(t, ks) \<in> set es. \<forall>l. ks = Some l \<longrightarrow> distinct l) \<longrightarrow>
       wf_filter (StateFilter es others) \<and>
       (\<forall>t k. matches (StateFilter es others) (t, k) =
          (case map_of es t of None \<Rightarrow> others | Some None \<Rightarrow> True | Some (Some l) \<Rightarrow> k \<in> set l)))"
proof (intro conjI impI allI)
  show "wf_filter (from_types ts)" by (rule wf_from_types)
  show "wf_filter (approx_difference f g)" by (rule wf_approx_difference)
  show "wf_filter (from_lazy_load_member_list ms)"
    by (auto simp: from_lazy_load_member_list_def intro: wf_StateFilter)
  show "wf_filter (return_expanded f)"
    using assms
    by (auto simp: return_expanded_def Let_def split: option.splits intro!: wf_StateFilter
        dest: wf_member_entry [OF assms])
  show "wf_filter (fst (get_member_split f))"
    by (auto simp: get_member_split_def Let_def split: option.splits intro!: wf_StateFilter
        dest: wf_member_entry [OF assms])
  show "wf_filter (snd (get_member_split f))"
    using assms by (auto simp: get_member_split_def Let_def wf_filter_def StateFilter_def distinct_map_filter)
next
  assume es: "distinct (map fst es) \<and> (\<forall>(t, ks) \<in> set es. \<forall>l. ks = Some l \<longrightarrow> distinct l)"
  show "wf_filter (StateFilter es others)" using es by (intro wf_StateFilter) blast+
  show "matches (StateFilter es others) (t, k) =
      (case map_of es t of None \<Rightarrow> others | Some None \<Rightarrow> True | Some (Some l) \<Rightarrow> k \<in> set l)" for t k
    using matches_StateFilter [OF conjunct1 [OF es], of others t k] by (simp add: entry_sem_def split: option.splits)
qed

section \<open>Selection\<close>

text \<open>
  C28.  Filtering a state map keeps exactly the entries the filter selects, in their order;
  the shortcut for full filters changes nothing.
\<close>

theorem filter_state_exact:
  assumes "wf_filter f"
  shows "filter_state f st = filter (\<lambda>kv. matches f (fst kv)) st"
  using assms by (auto simp: filter_state_def matches_keeps is_full_def keeps_def split: prod.splits)

text \<open>
  C27.  The contract of \<open>approx_difference\<close>: the difference selects everything that
  the first filter selects and the second does not, nothing that the first does not select,
  and it is exact when the first filter has no wildcards.
\<close>

theorem approx_difference_contract:
  assumes "wf_filter f" and "wf_filter g"
  shows "(matches f k \<and> \<not> matches g k \<longrightarrow> matches (approx_difference f g) k) \<and>
    (matches (approx_difference f g) k \<longrightarrow> matches f k) \<and>
    (\<not> has_wildcards f \<longrightarrow> matches (approx_difference f g) k = (matches f k \<and> \<not> matches g k))"
proof -
  obtain t s where k: "k = (t, s)" by (cases k)
  obtain a ex w c where f: "decompose_into_four_parts f = ((a, ex), (w, c))" by (metis prod.exhaust)
  obtain a' ex' w' c' where g: "decompose_into_four_parts g = ((a', ex'), (w', c'))" by (metis prod.exhaust)
  have ew: "a \<Longrightarrow> w = []" "a' \<Longrightarrow> w' = []" "\<not> has_wildcards f \<Longrightarrow> \<not> a \<and> w = []"
    using f g wf_no_wildcard [OF assms(1)] wf_no_wildcard [OF assms(2)]
    by (auto simp: decompose_into_four_parts_def has_wildcards_def wildcard_types_def list_ex_iff
        filter_empty_conv)
  have sub: "(t, s) \<in> set c' \<Longrightarrow> a' \<Longrightarrow> t \<in> set ex'"
    using g by (force simp: decompose_into_four_parts_def set_concrete_types)
  have sub2: "(t, s) \<in> set c \<Longrightarrow> a \<Longrightarrow> t \<in> set ex"
    using f by (force simp: decompose_into_four_parts_def set_concrete_types)
  show ?thesis
    unfolding k matches_decompose [OF f] matches_decompose [OF g] approx_difference_def f g
    using ew sub sub2
    by (cases a; cases a') (auto simp: Let_def matches_recompose)
qed

text \<open>
  \<open>return_expanded\<close> returns a superset of the filter with the same selection of
  membership events; and when it returns a different filter, that filter takes every
  non-member event.
\<close>

lemma return_expanded_superset:
  assumes "wf_filter f"
  shows "(matches f k \<longrightarrow> matches (return_expanded f) k) \<and>
    (fst k = EventTypes_Member \<longrightarrow> matches (return_expanded f) k = matches f k) \<and>
    (return_expanded f \<noteq> f \<and> fst k \<noteq> EventTypes_Member \<longrightarrow> matches (return_expanded f) k)"
proof -
  obtain t s where k: "k = (t, s)" by (cases k)
  have one: "matches (StateFilter [(EventTypes_Member, ks)] True) (t, s) =
      entry_sem (map_of [(EventTypes_Member, ks)] t) True s" for ks t
    by (simp add: matches_StateFilter)
  have all: "matches ALL_STATE_FILTER (t, s)" for t
    by (simp add: ALL_STATE_FILTER_def matches_StateFilter)
  have f: "matches f (t, s) = entry_sem (map_of (types f) t) (include_others f) s" for t
    using assms by (simp add: matches_entry wf_filterD)
  show ?thesis
    using assms
    by (auto simp: k return_expanded_def Let_def one all f ALL_NON_MEMBER_STATE_FILTER_def
        split: option.splits)
qed

text \<open>
  \<open>from_types\<close> selects exactly the pairs it is given (a pair without state key
  selects the whole type), and \<open>to_types\<close> is its inverse up to the selection, for
  filters without \<open>include_others\<close>.
\<close>

lemma from_types_to_types:
  assumes "\<not> include_others f"
  shows "(matches (from_types ts) (t, k) \<longleftrightarrow> (t, None) \<in> set ts \<or> (t, Some k) \<in> set ts) \<and>
    matches (from_types (to_types f)) (t, k) = matches f (t, k)"
  using assms
  by (auto simp: matches_from_types set_to_types matches_parts [of f] set_wildcard_types
      set_concrete_types)

lemma matched_concrete:
  assumes "\<not> has_wildcards f" and "matches f k"
  shows "k \<in> set (concrete_types f)"
  using assms by (cases k) (auto simp: matches_parts has_wildcards_def set_wildcard_types list_ex_iff)

text \<open>
  \<open>max_entries_returned\<close> is a bound: filtering any state map with distinct keys
  leaves at most that many entries.
\<close>

lemma max_entries_returned_bound:
  assumes "wf_filter f" and "max_entries_returned f = Some n" and "distinct (map fst st)"
  shows "length (filter_state f st) \<le> n"
proof -
  let ?r = "filter (\<lambda>kv. matches f (fst kv)) st"
  from assms(2) have nw: "\<not> has_wildcards f" and n: "n = length (concrete_types f)"
    by (auto simp: max_entries_returned_def split: if_splits)
  have "distinct (map fst ?r)" using assms(3) by (simp add: distinct_map_filter)
  then have "length ?r = card (set (map fst ?r))" using distinct_card by fastforce
  also have "\<dots> \<le> card (set (concrete_types f))"
    using matched_concrete [OF nw] by (intro card_mono) auto
  also have "\<dots> \<le> n" by (simp add: n card_length)
  finally show ?thesis
    using assms(1) by (auto simp: filter_state_def matches_keeps is_full_def keeps_def nw
        has_wildcards_def)
qed

text \<open>
  The member split is exact on both sides: the first filter decides membership events
  and the second all others as the original filter does.
\<close>

lemma get_member_split_exact:
  assumes "wf_filter f" and "get_member_split f = (m, n)"
  shows "matches m (EventTypes_Member, u) = matches f (EventTypes_Member, u) \<and>
    (t \<noteq> EventTypes_Member \<longrightarrow> matches n (t, k) = matches f (t, k))"
proof -
  have d: "distinct (map fst (types f))" using assms(1) by auto
  have "map_of (filter (\<lambda>kv. fst kv \<noteq> EventTypes_Member) ts) t = map_of ts t"
    if "t \<noteq> EventTypes_Member" for ts :: filter_types
    using that by (induction ts) auto
  then show ?thesis
    using assms(2) d
    by (auto simp: get_member_split_def Let_def matches_StateFilter matches_entry distinct_map_filter
        ALL_STATE_FILTER_def NONE_STATE_FILTER_def split: option.splits if_splits)
qed

text \<open>
  Partial state suffices when \<open>must_await_full_state\<close> says so: then every
  membership event the filter selects is that of a local user.
\<close>

lemma partial_state_only_local_members:
  assumes "wf_filter f" and "\<not> must_await_full_state is_mine_id f"
    and "matches f (EventTypes_Member, u)"
  shows "is_mine_id u"
  using assms
  by (auto simp: must_await_full_state_def matches_entry wf_filterD list_ex_iff split: option.splits)

section \<open>The SQL clause\<close>

definition placeholders :: "string \<Rightarrow> nat" where
  "placeholders s = count_list s (CHR ''?'')"

lemma placeholders_simps [simp]:
  "placeholders [] = 0" "placeholders (c # s) = (if c = CHR ''?'' then 1 else 0) + placeholders s"
  "placeholders (s @ t) = placeholders s + placeholders t"
  by (simp_all add: placeholders_def)

lemma placeholders_join:
  "placeholders sep = 0 \<Longrightarrow> placeholders (join_str sep ss) = sum_list (map placeholders ss)"
  by (induction sep ss rule: join_str.induct) auto

lemma join_str_Nil:
  assumes "\<forall>s \<in> set ss. s \<noteq> []"
  shows "join_str sep ss = [] \<longleftrightarrow> ss = []"
  using assms by (cases "(sep, ss)" rule: join_str.cases) auto

lemma type_clauses_arity:
  "sum_list (map placeholders (fst (type_clauses kv))) = length (snd (type_clauses kv))"
proof -
  have "sum_list (map placeholders (map (\<lambda>_. ''(type = ? AND state_key = ?)'') ks)) =
      length (concat (map (\<lambda>k. [t, k]) ks))" for t :: string and ks :: "string list"
    by (induction ks) auto
  then show ?thesis by (auto simp: type_clauses_def split: prod.split option.split)
qed

lemma type_clauses_nonempty: "s \<in> set (fst (type_clauses kv)) \<Longrightarrow> s \<noteq> []"
  by (auto simp: type_clauses_def split: prod.splits option.splits)

lemma clauses_arity:
  "placeholders (join_str '' OR '' (concat (map (fst \<circ> type_clauses) ts))) =
     length (concat (map (snd \<circ> type_clauses) ts))"
proof -
  have "sum_list (map placeholders (concat (map (fst \<circ> type_clauses) ts))) =
      length (concat (map (snd \<circ> type_clauses) ts))"
    by (induction ts) (auto simp: type_clauses_arity)
  then show ?thesis by (subst placeholders_join) simp_all
qed

lemma not_in_arity: "placeholders (join_str '','' (replicate n ''?'')) = n"
proof -
  have "sum_list (map placeholders (replicate n ''?'')) = n" by (induction n) auto
  then show ?thesis by (subst placeholders_join) simp_all
qed

lemma clauses_Nil:
  "join_str '' OR '' (concat (map (fst \<circ> type_clauses) ts)) = [] \<longleftrightarrow>
     (\<forall>(t, ks) \<in> set ts. ks = Some [])"
proof -
  have "join_str '' OR '' (concat (map (fst \<circ> type_clauses) ts)) = [] \<longleftrightarrow>
      concat (map (fst \<circ> type_clauses) ts) = []"
    by (rule join_str_Nil) (auto dest: type_clauses_nonempty)
  also have "\<dots> \<longleftrightarrow> (\<forall>kv \<in> set ts. fst (type_clauses kv) = [])" by simp
  also have "\<dots> \<longleftrightarrow> (\<forall>(t, ks) \<in> set ts. ks = Some [])"
    by (intro ball_cong refl) (auto simp: type_clauses_def split: prod.split option.split)
  finally show ?thesis .
qed

lemma matches_nothing:
  assumes "\<not> include_others f"
  shows "(\<forall>k. \<not> matches f k) \<longleftrightarrow> (\<forall>(t, ks) \<in> set (types f). ks = Some [])"
proof
  assume none: "\<forall>k. \<not> matches f k"
  show "\<forall>(t, ks) \<in> set (types f). ks = Some []"
  proof clarify
    fix t ks assume e: "(t, ks) \<in> set (types f)"
    have in_none: "matches f (t, [])" if "ks = None" using e that by (auto simp: matches_def)
    have in_some: "matches f (t, hd l)" if "ks = Some l" "l \<noteq> []" for l
      using e that by (auto simp: matches_def)
    from none in_none in_some show "ks = Some []" by (cases ks) auto
  qed
next
  assume "\<forall>(t, ks) \<in> set (types f). ks = Some []"
  with assms show "\<forall>k. \<not> matches f k" by (fastforce simp: matches_def)
qed

text \<open>
  C30.  The SQL clause of a filter has exactly as many placeholders as arguments.  It is
  empty, which the callers read as no restriction, for the full filter and also for a
  filter that lists only types with an empty set of state keys, although such a filter
  selects nothing.
\<close>

theorem sql_clause_arity:
  "placeholders (fst (make_sql_filter_clause f)) = length (snd (make_sql_filter_clause f)) \<and>
   (fst (make_sql_filter_clause f) = [] \<longleftrightarrow>
      is_full f \<or> (\<not> include_others f \<and> types f \<noteq> [] \<and> (\<forall>k. \<not> matches f k)))"
proof
  have "placeholders (if b then '' OR '' else []) = 0" for b by simp
  then show "placeholders (fst (make_sql_filter_clause f)) = length (snd (make_sql_filter_clause f))"
    by (simp add: make_sql_filter_clause_def Let_def clauses_arity not_in_arity del: length_concat
        cong: if_cong)
next
  show "(fst (make_sql_filter_clause f) = []) \<longleftrightarrow>
      is_full f \<or> (\<not> include_others f \<and> types f \<noteq> [] \<and> (\<forall>k. \<not> matches f k))"
  proof (cases "include_others f")
    case True
    then show ?thesis by (simp add: make_sql_filter_clause_def Let_def)
  next
    case False
    then show ?thesis
      by (simp add: make_sql_filter_clause_def Let_def is_full_def clauses_Nil
          matches_nothing [unfolded split_paired_All])
  qed
qed

section \<open>The theorems at concrete filters\<close>

definition sample_filter :: state_filter where
  "sample_filter = from_types [(EventTypes_Member, Some ''@a:x''), (''m.room.name'', Some []),
     (''m.room.avatar'', Some [])]"

definition sample_wild :: state_filter where
  "sample_wild = from_types [(''m.room.name'', None), (EventTypes_Member, Some ''@a:x'')]"

lemma sample_filters_wf: "wf_filter sample_filter" "wf_filter sample_wild"
  by (simp_all add: sample_filter_def sample_wild_def wf_from_types)

lemma sample_filter_selects:
  "matches sample_filter (t, k) \<longleftrightarrow> (t, k) \<in> {(EventTypes_Member, ''@a:x''), (''m.room.name'', []), (''m.room.avatar'', [])}"
  "matches sample_wild (t, k) \<longleftrightarrow> t = ''m.room.name'' \<or> (t, k) = (EventTypes_Member, ''@a:x'')"
  by (auto simp: sample_filter_def sample_wild_def matches_from_types)

theorem filters_well_formed_witness:
  "wf_filter (return_expanded sample_wild) \<and> wf_filter (approx_difference sample_wild sample_filter) \<and>
   wf_filter (StateFilter [(''m.room.name'', None), (EventTypes_Member, Some [''@a:x''])] True) \<and>
   matches (StateFilter [(''m.room.name'', None), (EventTypes_Member, Some [''@a:x''])] True) (''m.room.name'', ''k'')"
  using filters_well_formed [OF sample_filters_wf(2), of "[]" "[]" sample_filter
      "[(''m.room.name'', None), (EventTypes_Member, Some [''@a:x''])]" True]
  by (simp add: EventTypes_Member_def)

theorem filter_state_exact_witness:
  "filter_state sample_filter [((''m.room.name'', []), 1), ((''m.room.topic'', []), 2)] =
     [((''m.room.name'', []), 1::nat)]"
  by (simp add: filter_state_exact [OF sample_filters_wf(1)] sample_filter_selects)

theorem approx_difference_contract_witness:
  "matches (approx_difference sample_filter sample_wild) (''m.room.avatar'', []) \<and>
   \<not> matches (approx_difference sample_filter sample_wild) (''m.room.name'', [])"
proof -
  have "\<not> has_wildcards sample_filter" by code_simp
  then show ?thesis
    using approx_difference_contract [OF sample_filters_wf, of "(''m.room.avatar'', [])"]
      approx_difference_contract [OF sample_filters_wf, of "(''m.room.name'', [])"]
    by (simp add: sample_filter_selects)
qed

end
