(* ===== verification/Topological_Sort.thy ===== *)
theory Topological_Sort
  imports Prelude
begin

text \<open>
  \<open>lexicographical_topological_sort\<close> of \<^verbatim>\<open>synapse/state/v2.py\<close> and the
  functions of \<^verbatim>\<open>synapse/util/iterutils.py\<close>.  Both sorts are Kahn's algorithm
  with a heap.  Their loops take fuel; \<open>None\<close> means that it ran out, and the theorems
  show that one unit per node and one more is enough.

  The contract is \<open>greedy_order\<close>: at every point the next element is the least of the
  nodes whose dependencies have all been emitted.  It fixes the output completely, so the
  result does not depend on the order in which Python iterates over dicts and sets.
\<close>

section \<open>Definitions\<close>

text \<open>The nodes that may come next when \<open>D\<close> has been emitted, and the greedy order.\<close>

definition available :: "'n set \<Rightarrow> ('n \<Rightarrow> 'n set) \<Rightarrow> 'n set \<Rightarrow> 'n set" where
  "available nodes deps D = {n \<in> nodes. n \<notin> D \<and> deps n \<subseteq> D}"

fun greedy_order :: "'n set \<Rightarrow> ('n \<Rightarrow> 'n set) \<Rightarrow> ('n \<Rightarrow> 'k::linorder) \<Rightarrow> 'n set \<Rightarrow> 'n list \<Rightarrow> bool" where
  "greedy_order nodes deps prio D [] \<longleftrightarrow> available nodes deps D = {}"
| "greedy_order nodes deps prio D (x # xs) \<longleftrightarrow>
     x \<in> available nodes deps D \<and> (\<forall>y \<in> available nodes deps D. prio x \<le> prio y) \<and>
     greedy_order nodes deps prio (insert x D) xs"

type_synonym 'n graph = "('n \<times> 'n list) list"

text \<open>The loop that builds \<^verbatim>\<open>reverse_graph\<close>.\<close>

definition add_reverse_edges :: "'n \<times> 'n list \<Rightarrow> 'n graph \<Rightarrow> 'n graph" where
  "add_reverse_edges ne rg =
     (case ne of (node, edges) \<Rightarrow>
        fold (\<lambda>edge rg. dict_add_to rg edge node) edges (dict_setdefault rg node []))"

definition reverse_graph_of :: "'n graph \<Rightarrow> 'n graph" where
  "reverse_graph_of graph = fold add_reverse_edges graph []"

text \<open>The body of \<^verbatim>\<open>for parent in reverse_graph[node]\<close>.\<close>

definition lts_parent ::
  "('n \<Rightarrow> 'k) \<Rightarrow> 'n \<Rightarrow> 'n \<Rightarrow> 'n graph \<times> ('k::linorder \<times> 'n::linorder) list
     \<Rightarrow> ('n graph \<times> ('k \<times> 'n) list) result" where
  "lts_parent key node parent st =
     (case st of (outdegree_map, zero_outdegree) \<Rightarrow>
        rbind (dict_item outdegree_map parent) (\<lambda>out0.
        let out = filter (\<lambda>x. x \<noteq> node) out0
        in Inr (AList.update parent out outdegree_map,
                if out = [] then heappush zero_outdegree (key parent, parent) else zero_outdegree)))"

fun lts_loop ::
  "nat \<Rightarrow> ('n \<Rightarrow> 'k) \<Rightarrow> 'n graph \<Rightarrow> 'n graph \<Rightarrow> ('k::linorder \<times> 'n::linorder) list \<Rightarrow> 'n list result option" where
  "lts_loop 0 key rg outdegree_map zero_outdegree = None"
| "lts_loop (Suc fuel) key rg outdegree_map zero_outdegree =
     (case heappop zero_outdegree of
        None \<Rightarrow> Some (Inr [])
      | Some ((_, node), rest) \<Rightarrow>
          (case rbind (dict_item rg node) (\<lambda>parents. rfold (lts_parent key node) parents (outdegree_map, rest)) of
             Inl e \<Rightarrow> Some (Inl e)
           | Inr (od, zero) \<Rightarrow>
               map_option (\<lambda>r. rbind r (\<lambda>xs. Inr (node # xs))) (lts_loop fuel key rg od zero)))"

definition lexicographical_topological_sort ::
  "'n graph \<Rightarrow> ('n \<Rightarrow> 'k::linorder) \<Rightarrow> 'n::linorder list result option" where
  "lexicographical_topological_sort graph key =
     lts_loop (Suc (length graph)) key (reverse_graph_of graph) graph
       (heapify (map (\<lambda>(node, _). (key node, node)) (filter (\<lambda>(_, edges). edges = []) graph)))"

section \<open>Facts about greedy orders\<close>

text \<open>A finite graph with priorities that tell its nodes apart.\<close>

locale dependency_graph =
  fixes nodes :: "'n set" and deps :: "'n \<Rightarrow> 'n set" and prio :: "'n \<Rightarrow> 'k::linorder"
  assumes finite_nodes: "finite nodes"
    and prio_inj: "inj_on prio nodes"
begin

lemma greedy_unique:
  "greedy_order nodes deps prio D xs \<Longrightarrow> greedy_order nodes deps prio D ys \<Longrightarrow> xs = ys"
proof (induction xs arbitrary: D ys)
  case Nil
  then show ?case by (cases ys) auto
next
  case (Cons x xs)
  then obtain y ys' where ys: "ys = y # ys'" by (cases ys) auto
  with Cons.prems have "prio x = prio y" "x \<in> nodes" "y \<in> nodes"
    by (auto simp: available_def intro: order.antisym)
  with prio_inj have "x = y" by (auto dest: inj_onD)
  with Cons ys show ?case by auto
qed

lemma greedy_distinct:
  "greedy_order nodes deps prio D xs \<Longrightarrow> distinct xs \<and> set xs \<inter> D = {} \<and> set xs \<subseteq> nodes"
proof (induction xs arbitrary: D)
  case (Cons x xs)
  then have "distinct xs \<and> set xs \<inter> insert x D = {} \<and> set xs \<subseteq> nodes"
    using Cons.IH [of "insert x D"] by simp
  with Cons.prems show ?case by (auto simp: available_def)
qed simp

lemma greedy_topological:
  "greedy_order nodes deps prio D xs \<Longrightarrow> xs = ys @ n # zs \<Longrightarrow> deps n \<subseteq> D \<union> set ys"
proof (induction xs arbitrary: D ys)
  case (Cons x xs)
  then show ?case
  proof (cases ys)
    case Nil
    with Cons.prems show ?thesis by (auto simp: available_def)
  next
    case (Cons y ys')
    with Cons.prems Cons.IH [of "insert x D" ys'] show ?thesis by auto
  qed
qed simp

lemma greedy_least:
  "greedy_order nodes deps prio D xs \<Longrightarrow> xs = ys @ n # zs \<Longrightarrow>
     \<forall>m \<in> available nodes deps (D \<union> set ys). prio n \<le> prio m"
proof (induction xs arbitrary: D ys)
  case (Cons x xs)
  then show ?case
  proof (cases ys)
    case (Cons y ys')
    with Cons.prems Cons.IH [of "insert x D" ys'] show ?thesis by auto
  qed auto
qed simp

lemma greedy_exhausted:
  "greedy_order nodes deps prio D xs \<Longrightarrow> available nodes deps (D \<union> set xs) = {}"
proof (induction xs arbitrary: D)
  case (Cons x xs)
  then show ?case using Cons.IH [of "insert x D"] by simp
qed simp

lemma greedy_complete:
  assumes "greedy_order nodes deps prio {} xs" and "acyclic {(m, n). n \<in> nodes \<and> m \<in> deps n}"
    and "\<forall>n \<in> nodes. deps n \<subseteq> nodes"
  shows "set xs = nodes"
proof (rule ccontr)
  let ?r = "{(m, n). n \<in> nodes \<and> m \<in> deps n}"
  have "?r \<subseteq> nodes \<times> nodes" using assms(3) by auto
  then have "finite ?r" using finite_nodes by (auto intro: finite_subset)
  with assms(2) have wf: "wf ?r" by (rule finite_acyclic_wf [rotated])
  assume "set xs \<noteq> nodes"
  with greedy_distinct [OF assms(1)] obtain n0 where "n0 \<in> nodes - set xs" by auto
  with wf obtain n where n: "n \<in> nodes - set xs" and least: "\<And>m. (m, n) \<in> ?r \<Longrightarrow> m \<notin> nodes - set xs"
    by (rule wfE_min [of ?r]) auto
  have "deps n \<subseteq> set xs" using n least assms(3) by auto
  with n greedy_exhausted [OF assms(1)] show False by (auto simp: available_def)
qed

end

section \<open>The lexicographical sort is greedy\<close>

definition nodes_of :: "'n graph \<Rightarrow> 'n set" where
  "nodes_of g = fst ` set g"

definition deps_of :: "'n graph \<Rightarrow> 'n \<Rightarrow> 'n set" where
  "deps_of g n = set (dict_get_list g n)"

lemma distinct_add_to:
  "distinct (dict_get_list rg n) \<Longrightarrow> distinct (dict_get_list (dict_add_to rg k v) n)"
  by (auto simp: dict_get_list_add_to)

lemma add_edges:
  "set (dict_get_list (fold (\<lambda>e rg. dict_add_to rg e node) es rg) n) =
     set (dict_get_list rg n) \<union> (if n \<in> set es then {node} else {})"
  by (induction es arbitrary: rg) (auto simp: dict_get_list_add_to)

lemma add_edges_has:
  "dict_has (fold (\<lambda>e rg. dict_add_to rg e node) es rg) n \<longleftrightarrow> n \<in> set es \<or> dict_has rg n"
  by (induction es arbitrary: rg) auto

lemma add_edges_distinct:
  "distinct (dict_get_list rg n) \<Longrightarrow> distinct (dict_get_list (fold (\<lambda>e rg. dict_add_to rg e node) es rg) n)"
  by (induction es arbitrary: rg) (auto simp: distinct_add_to)

lemma add_reverse_edges_sem:
  "set (dict_get_list (add_reverse_edges (p, es) rg) n) =
     set (dict_get_list rg n) \<union> (if n \<in> set es then {p} else {})"
  "dict_has (add_reverse_edges (p, es) rg) n \<longleftrightarrow> n = p \<or> n \<in> set es \<or> dict_has rg n"
  "distinct (dict_get_list rg n) \<Longrightarrow> distinct (dict_get_list (add_reverse_edges (p, es) rg) n)"
  by (auto simp: add_reverse_edges_def add_edges add_edges_has add_edges_distinct)

lemma reverse_graph_fold:
  "set (dict_get_list (fold add_reverse_edges g rg) n) =
     set (dict_get_list rg n) \<union> {p. \<exists>es. (p, es) \<in> set g \<and> n \<in> set es}"
proof (induction g arbitrary: rg)
  case (Cons x g)
  obtain p es where "x = (p, es)" by (cases x)
  with Cons show ?case by (auto simp: add_reverse_edges_sem)
qed simp

lemma reverse_graph_fold_has:
  "dict_has rg n \<or> n \<in> nodes_of g \<Longrightarrow> dict_has (fold add_reverse_edges g rg) n"
proof (induction g arbitrary: rg)
  case (Cons x g)
  obtain p es where x: "x = (p, es)" by (cases x)
  with Cons.prems have "dict_has (add_reverse_edges x rg) n \<or> n \<in> nodes_of g"
    by (auto simp: add_reverse_edges_sem nodes_of_def)
  with Cons.IH show ?case by simp
qed (simp add: nodes_of_def)

lemma reverse_graph_fold_distinct:
  "distinct (dict_get_list rg n) \<Longrightarrow> distinct (dict_get_list (fold add_reverse_edges g rg) n)"
proof (induction g arbitrary: rg)
  case (Cons x g)
  then show ?case by (cases x) (simp add: add_reverse_edges_sem)
qed simp

lemma reverse_graph_of_sem:
  "set (dict_get_list (reverse_graph_of g) n) = {p. \<exists>es. (p, es) \<in> set g \<and> n \<in> set es}"
  "n \<in> nodes_of g \<Longrightarrow> dict_has (reverse_graph_of g) n"
  "distinct (dict_get_list (reverse_graph_of g) n)"
proof -
  have e: "dict_get_list ([] :: 'a graph) n = []" by (simp add: dict_get_list_def)
  show "set (dict_get_list (reverse_graph_of g) n) = {p. \<exists>es. (p, es) \<in> set g \<and> n \<in> set es}"
    by (simp add: reverse_graph_of_def reverse_graph_fold e)
  show "n \<in> nodes_of g \<Longrightarrow> dict_has (reverse_graph_of g) n"
    by (simp add: reverse_graph_of_def reverse_graph_fold_has)
  show "distinct (dict_get_list (reverse_graph_of g) n)"
    by (simp add: reverse_graph_of_def reverse_graph_fold_distinct e)
qed

lemma dict_item_get_list: "dict_has d k \<Longrightarrow> dict_item d k = Inr (dict_get_list d k)"
  by (auto simp: dict_has_def dict_item_def dict_get_list_def)

lemma lts_parents:
  assumes "distinct ps" and "\<forall>p \<in> set ps. dict_has od p" and "sorted z"
  shows "\<exists>od' z'. rfold (lts_parent key node) ps (od, z) = Inr (od', z') \<and>
    (\<forall>n. dict_has od' n = dict_has od n) \<and>
    (\<forall>n. dict_get_list od' n = (if n \<in> set ps then filter (\<lambda>x. x \<noteq> node) (dict_get_list od n)
         else dict_get_list od n)) \<and>
    sorted z' \<and>
    mset z' = mset z + mset (map (\<lambda>p. (key p, p))
      (filter (\<lambda>p. filter (\<lambda>x. x \<noteq> node) (dict_get_list od p) = []) ps))"
  using assms
proof (induction ps arbitrary: od z)
  case Nil
  then show ?case by simp
next
  case (Cons p ps)
  define out where "out = filter (\<lambda>x. x \<noteq> node) (dict_get_list od p)"
  define od1 where "od1 = AList.update p out od"
  define z1 where "z1 = (if out = [] then heappush z (key p, p) else z)"
  have has: "dict_has od1 n = dict_has od n" for n
    using Cons.prems(2) by (auto simp: dict_has_def od1_def update_conv')
  have get: "dict_get_list od1 n = (if n = p then out else dict_get_list od n)" for n
    by (simp add: dict_get_list_def od1_def update_conv')
  have step: "lts_parent key node p (od, z) = Inr (od1, z1)"
    using Cons.prems(2) by (simp add: lts_parent_def dict_item_get_list out_def od1_def z1_def)
  have sz: "sorted z1" and mz: "mset z1 = mset z + (if out = [] then {#(key p, p)#} else {#})"
    using Cons.prems(3) by (simp_all add: z1_def heapq.invar_push heapq.elems_push)
  have flt: "filter (\<lambda>q. filter (\<lambda>x. x \<noteq> node) (dict_get_list od1 q) = []) ps =
      filter (\<lambda>q. filter (\<lambda>x. x \<noteq> node) (dict_get_list od q) = []) ps"
    using Cons.prems(1) by (intro filter_cong) (auto simp: get)
  from Cons.IH [of od1 z1] Cons.prems(1,2) sz has obtain od' z' where
    r: "rfold (lts_parent key node) ps (od1, z1) = Inr (od', z')"
    and h: "\<forall>n. dict_has od' n = dict_has od1 n" and s: "sorted z'"
    and g: "\<forall>n. dict_get_list od' n = (if n \<in> set ps then filter (\<lambda>x. x \<noteq> node) (dict_get_list od1 n)
         else dict_get_list od1 n)"
    and m: "mset z' = mset z1 + mset (map (\<lambda>p. (key p, p))
      (filter (\<lambda>q. filter (\<lambda>x. x \<noteq> node) (dict_get_list od1 q) = []) ps))"
    by auto
  have "rfold (lts_parent key node) (p # ps) (od, z) = Inr (od', z')" using step r by simp
  moreover have "\<forall>n. dict_get_list od' n =
      (if n \<in> set (p # ps) then filter (\<lambda>x. x \<noteq> node) (dict_get_list od n) else dict_get_list od n)"
    using g Cons.prems(1) by (auto simp: get out_def)
  moreover have "mset z' = mset z + mset (map (\<lambda>p. (key p, p))
      (filter (\<lambda>q. filter (\<lambda>x. x \<noteq> node) (dict_get_list od q) = []) (p # ps)))"
    using m mz unfolding flt out_def by simp
  ultimately show ?case using h has s by blast
qed

text \<open>The invariant of the main loop when \<open>D\<close> has been emitted.\<close>

definition lts_inv ::
  "'n graph \<Rightarrow> ('n \<Rightarrow> 'k) \<Rightarrow> 'n set \<Rightarrow> 'n graph \<Rightarrow> ('k::linorder \<times> 'n::linorder) list \<Rightarrow> bool" where
  "lts_inv g key D od z \<longleftrightarrow> D \<subseteq> nodes_of g \<and> (\<forall>n \<in> D. deps_of g n \<subseteq> D) \<and>
     (\<forall>n \<in> nodes_of g. dict_has od n \<and> deps_of od n = deps_of g n - D) \<and>
     sorted z \<and> distinct z \<and> set z = (\<lambda>n. (key n, n)) ` available (nodes_of g) (deps_of g) D"

lemma parents_sem:
  assumes "distinct (map fst g)"
  shows "set (dict_get_list (reverse_graph_of g) n) = {p \<in> nodes_of g. n \<in> deps_of g p}"
proof -
  have e: "(p, es) \<in> set g \<longleftrightarrow> map_of g p = Some es" for p es using assms by simp
  have "p \<in> nodes_of g \<longleftrightarrow> map_of g p \<noteq> None" for p
    by (simp add: nodes_of_def map_of_eq_None_iff)
  moreover have "n \<in> deps_of g p \<longleftrightarrow> (\<exists>es. map_of g p = Some es \<and> n \<in> set es)" for p
    by (cases "map_of g p") (simp_all add: deps_of_def dict_get_list_def)
  ultimately show ?thesis unfolding reverse_graph_of_sem e by auto
qed

lemma heap_head:
  assumes "insert (k, node) (set rest) = (\<lambda>n. (key n, n)) ` A" and "(k, node) \<notin> set rest"
  shows "node \<in> A" and "k = key node" and "set rest = (\<lambda>n. (key n, n)) ` (A - {node})"
proof -
  from assms(1) have "(k, node) \<in> (\<lambda>n. (key n, n)) ` A" by blast
  then show n: "node \<in> A" "k = key node" by auto
  have "set rest = (\<lambda>n. (key n, n)) ` A - {(k, node)}" using assms by blast
  then show "set rest = (\<lambda>n. (key n, n)) ` (A - {node})" using n by auto
qed

lemma lts_step:
  assumes g: "distinct (map fst g)" and inv: "lts_inv g key D od z"
    and pop: "heappop z = Some ((k, node), rest)"
  shows "\<exists>od' z'. rbind (dict_item (reverse_graph_of g) node)
      (\<lambda>ps. rfold (lts_parent key node) ps (od, rest)) = Inr (od', z') \<and>
    lts_inv g key (insert node D) od' z' \<and> node \<in> available (nodes_of g) (deps_of g) D \<and>
    (\<forall>y \<in> available (nodes_of g) (deps_of g) D. (key node, node) \<le> (key y, y))"
proof -
  let ?A = "available (nodes_of g) (deps_of g)"
  let ?ps = "dict_get_list (reverse_graph_of g) node"
  let ?P = "\<lambda>n. (key n, n)"
  let ?new = "filter (\<lambda>p. filter (\<lambda>x. x \<noteq> node) (dict_get_list od p) = []) ?ps"
  have z: "z = (k, node) # rest" using pop by (cases z) auto
  with inv have hz: "insert (k, node) (set rest) = ?P ` ?A D" "(k, node) \<notin> set rest"
      "\<forall>x \<in> set rest. (k, node) \<le> x" and rest: "sorted rest" "distinct rest"
    unfolding lts_inv_def by auto
  note node = heap_head(1) [OF hz(1,2)] and k = heap_head(2) [OF hz(1,2)]
    and rest_set = heap_head(3) [OF hz(1,2)]
  have least: "(key node, node) \<le> ?P y" if "y \<in> ?A D" for y
  proof -
    from that hz(1) have "?P y \<in> insert (k, node) (set rest)" by blast
    with hz(3) k show ?thesis by blast
  qed
  have odn: "\<And>n. n \<in> nodes_of g \<Longrightarrow> dict_has od n \<and> set (dict_get_list od n) = deps_of g n - D"
    using inv by (simp add: lts_inv_def deps_of_def)
  have ps: "set ?ps = {p \<in> nodes_of g. node \<in> deps_of g p}" by (rule parents_sem [OF g])
  have nodeN: "node \<in> nodes_of g" "node \<notin> D" using node by (auto simp: available_def)
  obtain od' z' where
    run: "rfold (lts_parent key node) ?ps (od, rest) = Inr (od', z')" and s: "sorted z'"
    and h: "\<forall>n. dict_has od' n = dict_has od n"
    and gl: "\<forall>n. dict_get_list od' n = (if n \<in> set ?ps then filter (\<lambda>x. x \<noteq> node) (dict_get_list od n)
         else dict_get_list od n)"
    and m: "mset z' = mset rest + mset (map ?P ?new)"
    using lts_parents [OF reverse_graph_of_sem(3) _ rest(1), of g node od key node] ps odn by blast
  have new: "set ?new = {p \<in> nodes_of g. node \<in> deps_of g p \<and> deps_of g p \<subseteq> insert node D}"
    using ps odn by (auto simp: filter_empty_conv)
  have av: "?A (insert node D) = (?A D - {node}) \<union> set ?new"
    using inv node unfolding new lts_inv_def available_def by blast
  have mz: "mset z' = mset (rest @ map ?P ?new)" using m by (simp only: mset_append)
  note sz = mset_eq_setD [OF mz] and dz = mset_eq_imp_distinct_iff [OF mz]
  have "distinct ?new" using reverse_graph_of_sem(3) by (rule distinct_filter)
  then have "distinct (map ?P ?new)" by (simp add: distinct_map inj_on_def)
  moreover have "set rest \<inter> set (map ?P ?new) = {}"
    using nodeN(2) unfolding rest_set set_map new by (auto simp: available_def)
  ultimately have d: "distinct z'" using dz rest(2) by simp
  have st: "set z' = ?P ` ?A (insert node D)" unfolding av sz using rest_set by auto
  have "deps_of od' n = deps_of g n - insert node D" if "n \<in> nodes_of g" for n
    using that odn [OF that] gl ps by (auto simp: deps_of_def)
  then have "lts_inv g key (insert node D) od' z'"
    using inv node nodeN h s d st unfolding lts_inv_def by (auto simp: available_def)
  then show ?thesis
    using run node least reverse_graph_of_sem(2) [OF nodeN(1)] by (auto simp: dict_item_get_list)
qed

lemma finite_nodes_of [simp]: "finite (nodes_of g)"
  by (simp add: nodes_of_def)

lemma lts_loop_greedy:
  assumes "distinct (map fst g)" and "lts_inv g key D od z" and "card (nodes_of g - D) < fuel"
  shows "\<exists>xs. lts_loop fuel key (reverse_graph_of g) od z = Some (Inr xs) \<and>
    greedy_order (nodes_of g) (deps_of g) (\<lambda>n. (key n, n)) D xs"
  using assms(2,3)
proof (induction fuel arbitrary: D od z)
  case (Suc fuel)
  show ?case
  proof (cases "heappop z")
    case None
    then have "z = []" by (cases z) auto
    with Suc.prems(1) have "available (nodes_of g) (deps_of g) D = {}" by (simp add: lts_inv_def)
    with None show ?thesis by (intro exI [of _ "[]"]) simp
  next
    case (Some p)
    then obtain k node rest where pop: "heappop z = Some ((k, node), rest)" by (cases p) auto
    from lts_step [OF assms(1) Suc.prems(1) pop] obtain od' z' where
      run: "rbind (dict_item (reverse_graph_of g) node)
        (\<lambda>ps. rfold (lts_parent key node) ps (od, rest)) = Inr (od', z')"
      and inv: "lts_inv g key (insert node D) od' z'"
      and node: "node \<in> available (nodes_of g) (deps_of g) D"
      and least: "\<forall>y \<in> available (nodes_of g) (deps_of g) D. (key node, node) \<le> (key y, y)"
      by blast
    have "nodes_of g - insert node D \<subset> nodes_of g - D" using node by (auto simp: available_def)
    then have "card (nodes_of g - insert node D) < card (nodes_of g - D)"
      by (intro psubset_card_mono) auto
    with Suc.prems(2) have "card (nodes_of g - insert node D) < fuel" by linarith
    with Suc.IH [OF inv] obtain xs where
      "lts_loop fuel key (reverse_graph_of g) od' z' = Some (Inr xs)"
      "greedy_order (nodes_of g) (deps_of g) (\<lambda>n. (key n, n)) (insert node D) xs" by blast
    with pop run node least show ?thesis by (intro exI [of _ "node # xs"]) simp
  qed
qed simp

lemma lts_initial:
  assumes "distinct (map fst g)"
  shows "lts_inv g key {} g
    (heapify (map (\<lambda>(node, _). (key node, node)) (filter (\<lambda>(_, edges). edges = []) g)))"
proof -
  let ?roots = "filter (\<lambda>(_, edges). edges = []) g"
  have e: "(p, es) \<in> set g \<longleftrightarrow> map_of g p = Some es" for p es using assms by simp
  have "distinct (map fst ?roots)" using assms by (rule distinct_map_filter)
  moreover have "map (\<lambda>(node, _). (key node, node)) ?roots = map (\<lambda>n. (key n, n)) (map fst ?roots)"
    by (simp add: case_prod_beta)
  ultimately have "distinct (map (\<lambda>(node, _). (key node, node)) ?roots)"
    by (simp add: distinct_map inj_on_def)
  moreover have "n \<in> fst ` set ?roots \<longleftrightarrow> n \<in> available (nodes_of g) (deps_of g) {}" for n
  proof -
    have "n \<in> fst ` set ?roots \<longleftrightarrow> (n, []) \<in> set g" by force
    moreover have "n \<in> nodes_of g \<longleftrightarrow> map_of g n \<noteq> None"
      by (simp add: nodes_of_def map_of_eq_None_iff)
    ultimately show ?thesis
      by (cases "map_of g n") (simp_all add: e available_def deps_of_def dict_get_list_def)
  qed
  then have "(\<lambda>n. (key n, n)) ` fst ` set ?roots =
      (\<lambda>n. (key n, n)) ` available (nodes_of g) (deps_of g) {}"
    by blast
  then have "(\<lambda>(node, _). (key node, node)) ` set ?roots =
      (\<lambda>n. (key n, n)) ` available (nodes_of g) (deps_of g) {}"
    by (simp add: image_image case_prod_beta)
  moreover have "dict_has g n" if "n \<in> nodes_of g" for n
    using that by (simp add: nodes_of_def dict_has_iff)
  ultimately show ?thesis
    by (simp add: lts_inv_def heapify_def)
qed

interpretation lts: dependency_graph "nodes_of g" "deps_of g" "\<lambda>n. (key n, n)"
  for g :: "'n::linorder graph" and key :: "'n \<Rightarrow> 'k::linorder"
  by unfold_locales (auto simp: inj_on_def)

text \<open>The result of the sort exists and is the greedy order.\<close>

lemma lexicographical_sort_greedy:
  assumes "distinct (map fst g)"
  shows "\<exists>xs. lexicographical_topological_sort g key = Some (Inr xs) \<and>
    greedy_order (nodes_of g) (deps_of g) (\<lambda>n. (key n, n)) {} xs"
proof -
  have "card (nodes_of g - {}) < Suc (length g)"
    by (simp add: nodes_of_def le_imp_less_Suc card_image_le [THEN order_trans] card_length)
  from lts_loop_greedy [OF assms lts_initial [OF assms] this] show ?thesis
    by (simp add: lexicographical_topological_sort_def)
qed

section \<open>Properties\<close>

lemma lexicographical_sort_complete:
  assumes "distinct (map fst g)" and "acyclic {(m, n). n \<in> nodes_of g \<and> m \<in> deps_of g n}"
    and "\<forall>n \<in> nodes_of g. deps_of g n \<subseteq> nodes_of g"
  shows "\<exists>xs. lexicographical_topological_sort g key = Some (Inr xs) \<and> mset xs = mset (map fst g)"
proof -
  from lexicographical_sort_greedy [OF assms(1)] obtain xs
    where xs: "lexicographical_topological_sort g key = Some (Inr xs)"
      "greedy_order (nodes_of g) (deps_of g) (\<lambda>n. (key n, n)) {} xs" by blast
  have "set xs = set (map fst g)"
    using lts.greedy_complete [OF xs(2) assms(2,3)] by (simp add: nodes_of_def)
  moreover have "distinct xs" using lts.greedy_distinct [OF xs(2)] by simp
  ultimately have "mset xs = mset (map fst g)"
    using assms(1) by (simp only: set_eq_iff_mset_eq_distinct [symmetric])
  with xs(1) show ?thesis by blast
qed

text \<open>
  C38.  The lexicographical topological sort always returns; its result has no duplicates
  and contains only nodes of the graph; every node comes after all nodes it references, and
  among the nodes that could come next it has the least key.  It stops only when no node
  is left whose references have all been returned, so on an acyclic graph that contains all
  referenced nodes the result is a permutation of the nodes.
\<close>

theorem lexicographical_sort_correct:
  assumes "distinct (map fst g)"
  shows "\<exists>xs. lexicographical_topological_sort g key = Some (Inr xs) \<and> distinct xs \<and>
    set xs \<subseteq> nodes_of g \<and>
    (\<forall>ys n zs. xs = ys @ n # zs \<longrightarrow> deps_of g n \<subseteq> set ys \<and>
       (\<forall>m \<in> available (nodes_of g) (deps_of g) (set ys). (key n, n) \<le> (key m, m))) \<and>
    available (nodes_of g) (deps_of g) (set xs) = {} \<and>
    (acyclic {(m, n). n \<in> nodes_of g \<and> m \<in> deps_of g n} \<and>
       (\<forall>n \<in> nodes_of g. deps_of g n \<subseteq> nodes_of g) \<longrightarrow> mset xs = mset (map fst g))"
proof -
  let ?g = "greedy_order (nodes_of g) (deps_of g) (\<lambda>n. (key n, n))"
  from lexicographical_sort_greedy [OF assms] obtain xs
    where xs: "lexicographical_topological_sort g key = Some (Inr xs)" "?g {} xs" by blast
  have "deps_of g n \<subseteq> set ys \<and>
      (\<forall>m \<in> available (nodes_of g) (deps_of g) (set ys). (key n, n) \<le> (key m, m))"
    if "xs = ys @ n # zs" for ys n zs
    using lts.greedy_topological [OF xs(2) that] lts.greedy_least [OF xs(2) that] by simp
  moreover have "mset xs = mset (map fst g)"
    if "acyclic {(m, n). n \<in> nodes_of g \<and> m \<in> deps_of g n}" "\<forall>n \<in> nodes_of g. deps_of g n \<subseteq> nodes_of g"
    using lexicographical_sort_complete [OF assms that, of key] xs(1) by simp
  moreover have "available (nodes_of g) (deps_of g) (set xs) = {}"
    using lts.greedy_exhausted [OF xs(2)] by simp
  ultimately show ?thesis using xs(1) lts.greedy_distinct [OF xs(2)] by blast
qed

text \<open>
  C37.  The result depends only on the graph and the keys: two dicts with the same nodes and
  the same sets of references, in whatever order they are iterated, sort to the same list.
  Servers that resolve the same state therefore agree on the order.
\<close>

theorem lexicographical_sort_order_independent:
  assumes "distinct (map fst g)" and "distinct (map fst h)"
    and "nodes_of g = nodes_of h" and "deps_of g = deps_of h"
  shows "lexicographical_topological_sort g key = lexicographical_topological_sort h key"
proof -
  from lexicographical_sort_greedy [OF assms(1), of key] obtain xs
    where xs: "lexicographical_topological_sort g key = Some (Inr xs)"
      "greedy_order (nodes_of g) (deps_of g) (\<lambda>n. (key n, n)) {} xs" by blast
  from lexicographical_sort_greedy [OF assms(2), of key] obtain ys
    where ys: "lexicographical_topological_sort h key = Some (Inr ys)"
      "greedy_order (nodes_of h) (deps_of h) (\<lambda>n. (key n, n)) {} ys" by blast
  have "xs = ys" using lts.greedy_unique [OF xs(2)] ys(2) by (simp add: assms(3,4))
  with xs ys show ?thesis by simp
qed

section \<open>The theorems at a concrete graph\<close>

definition sample_graph :: "nat graph" where
  "sample_graph = [(3, [1, 2]), (1, []), (2, [1])]"

definition sample_graph2 :: "nat graph" where
  "sample_graph2 = [(1, []), (2, [1]), (3, [2, 1])]"

lemma sample_graph_sem:
  "distinct (map fst sample_graph)" "distinct (map fst sample_graph2)"
  "nodes_of sample_graph = {1, 2, 3}" "nodes_of sample_graph2 = {1, 2, 3}"
  "deps_of sample_graph = (\<lambda>n. if n = 3 then {1, 2} else if n = 2 then {1} else {})"
  "deps_of sample_graph2 = (\<lambda>n. if n = 3 then {1, 2} else if n = 2 then {1} else {})"
  by (auto simp: sample_graph_def sample_graph2_def nodes_of_def deps_of_def dict_get_list_def fun_eq_iff)

theorem lexicographical_sort_correct_witness:
  "\<exists>xs. lexicographical_topological_sort sample_graph (\<lambda>n. 0 :: nat) = Some (Inr xs) \<and>
    distinct xs \<and> available (nodes_of sample_graph) (deps_of sample_graph) (set xs) = {}"
  using lexicographical_sort_correct [OF sample_graph_sem(1)] by blast

theorem lexicographical_sort_order_independent_witness:
  "lexicographical_topological_sort sample_graph (\<lambda>n. 0 :: nat) =
   lexicographical_topological_sort sample_graph2 (\<lambda>n. 0 :: nat)"
  by (rule lexicographical_sort_order_independent) (simp_all add: sample_graph_sem)

end
