(* ===== verification/Iterutils.thy ===== *)
theory Iterutils
  imports Topological_Sort
begin

text \<open>
  \<^verbatim>\<open>synapse/util/iterutils.py\<close>: batching of sequences and the two topological
  walks, one node or one layer at a time.  The walks take fuel as the sort in
  \<open>Topological_Sort\<close> does.
\<close>

section \<open>Batches\<close>

text \<open>
  \<^verbatim>\<open>iter(lambda: tuple(islice(it, size)), ())\<close>.  A size of 0 gives the empty
  tuple at once, which ends the iteration.
\<close>

function batch_iter :: "'a list \<Rightarrow> nat \<Rightarrow> 'a list list" where
  "batch_iter xs sz = (if take sz xs = [] then [] else take sz xs # batch_iter (drop sz xs) sz)"
  by pat_completeness auto
termination
  by (relation "measure (\<lambda>(xs, n). length xs)") (auto simp: take_eq_Nil)

declare batch_iter.simps [simp del]

text \<open>\<^verbatim>\<open>range\<close> raises on a step of 0.\<close>

definition chunk_seq :: "'a list \<Rightarrow> nat \<Rightarrow> 'a list list result" where
  "chunk_seq iseq maxlen =
     (if maxlen = 0 then Inl PyValueError
      else Inr (map (\<lambda>i. take maxlen (drop (i * maxlen) iseq)) [0 ..< (length iseq + maxlen - 1) div maxlen]))"

fun partition_loop :: "('a \<Rightarrow> bool) \<Rightarrow> 'a list \<Rightarrow> 'a list \<times> 'a list \<Rightarrow> 'a list \<times> 'a list" where
  "partition_loop predicate [] acc = acc"
| "partition_loop predicate (item # rest) (true_results, false_results) =
     partition_loop predicate rest
       (if predicate item then (true_results @ [item], false_results)
        else (true_results, false_results @ [item]))"

definition py_partition :: "'a list \<Rightarrow> ('a \<Rightarrow> bool) \<Rightarrow> 'a list \<times> 'a list" where
  "py_partition iterable predicate = partition_loop predicate iterable ([], [])"

section \<open>Topological walks\<close>

definition count_edge :: "'n \<Rightarrow> 'n \<Rightarrow> ('n \<times> int) list \<times> 'n graph \<Rightarrow> ('n \<times> int) list \<times> 'n graph" where
  "count_edge node edge st =
     (case st of (degree_map, rg) \<Rightarrow>
        (if dict_has degree_map edge
         then AList.update node (the (map_of degree_map node) + 1) degree_map else degree_map,
         dict_add_to rg edge node))"

definition count_node :: "'n \<times> 'n list \<Rightarrow> ('n \<times> int) list \<times> 'n graph \<Rightarrow> ('n \<times> int) list \<times> 'n graph" where
  "count_node ne st =
     (case ne of (node, edges) \<Rightarrow>
        if \<not> dict_has (fst st) node then st
        else (case fold (count_edge node) (remdups edges) st of
                (degree_map, rg) \<Rightarrow> (degree_map, dict_setdefault rg node [])))"

text \<open>The part both walks share: the degrees and the reversed graph.\<close>

definition degrees_and_reverse :: "'n list \<Rightarrow> 'n graph \<Rightarrow> ('n \<times> int) list \<times> 'n graph" where
  "degrees_and_reverse nodes graph =
     fold count_node graph (dict_update [] (map (\<lambda>node. (node, 0)) nodes), [])"

definition zero_degree_nodes :: "('n \<times> int) list \<Rightarrow> 'n list" where
  "zero_degree_nodes degree_map = map fst (filter (\<lambda>nd. snd nd = 0) degree_map)"

text \<open>
  The loop over the nodes that reference an emitted node, with the operation that collects
  the ones that become free.
\<close>

definition release_one ::
  "('q \<Rightarrow> 'n \<Rightarrow> 'q) \<Rightarrow> 'n \<Rightarrow> ('n \<times> int) list \<times> 'q \<Rightarrow> ('n \<times> int) list \<times> 'q" where
  "release_one push edge st =
     (case st of (degree_map, q) \<Rightarrow>
        (case map_of degree_map edge of
           None \<Rightarrow> st
         | Some d \<Rightarrow> (AList.update edge (d - 1) degree_map, if d - 1 = 0 then push q edge else q)))"

definition release_parents ::
  "('q \<Rightarrow> 'n \<Rightarrow> 'q) \<Rightarrow> 'n graph \<Rightarrow> 'n \<Rightarrow> ('n \<times> int) list \<times> 'q \<Rightarrow> ('n \<times> int) list \<times> 'q" where
  "release_parents push rg node st = fold (release_one push) (dict_get_list rg node) st"

fun st_loop :: "nat \<Rightarrow> 'n graph \<Rightarrow> ('n \<times> int) list \<Rightarrow> 'n::linorder list \<Rightarrow> 'n list option" where
  "st_loop 0 rg degree_map zero_degree = None"
| "st_loop (Suc fuel) rg degree_map zero_degree =
     (case heappop zero_degree of
        None \<Rightarrow> Some []
      | Some (node, rest) \<Rightarrow>
          (case release_parents heappush rg node (degree_map, rest) of
             (dm, zero) \<Rightarrow> map_option ((#) node) (st_loop fuel rg dm zero)))"

definition sorted_topologically :: "'n::linorder list \<Rightarrow> 'n graph \<Rightarrow> 'n list option" where
  "sorted_topologically nodes graph =
     (case degrees_and_reverse nodes graph of (degree_map, rg) \<Rightarrow>
        st_loop (Suc (length nodes)) rg degree_map (heapify (zero_degree_nodes degree_map)))"

fun stb_loop :: "nat \<Rightarrow> 'n graph \<Rightarrow> ('n \<times> int) list \<Rightarrow> 'n list \<Rightarrow> 'n list list option" where
  "stb_loop 0 rg degree_map zero_degree = None"
| "stb_loop (Suc fuel) rg degree_map zero_degree =
     (if zero_degree = [] then Some []
      else case fold (release_parents (\<lambda>q x. q @ [x]) rg) zero_degree (degree_map, []) of
             (dm, new_zero_degree) \<Rightarrow> map_option ((#) zero_degree) (stb_loop fuel rg dm new_zero_degree))"

definition sorted_topologically_batched :: "'n list \<Rightarrow> 'n graph \<Rightarrow> 'n list list option" where
  "sorted_topologically_batched nodes graph =
     (case degrees_and_reverse nodes graph of (degree_map, rg) \<Rightarrow>
        stb_loop (Suc (length nodes)) rg degree_map (zero_degree_nodes degree_map))"

section \<open>Batches cover the sequence\<close>

lemma batch_iter_Nil: "take n xs = [] \<Longrightarrow> batch_iter xs n = []"
  by (subst batch_iter.simps) (simp only: if_True simp_thms)

lemma batch_iter_Cons: "take n xs \<noteq> [] \<Longrightarrow> batch_iter xs n = take n xs # batch_iter (drop n xs) n"
  by (simp only: batch_iter.simps [of xs n] if_False)

lemma concat_batch_iter: "0 < n \<Longrightarrow> concat (batch_iter xs n) = xs"
proof (induction xs n rule: batch_iter.induct)
  case (1 xs n)
  then show ?case
    by (cases "take n xs = []") (auto simp: batch_iter_Nil batch_iter_Cons)
qed

lemma batch_iter_sizes: "b \<in> set (batch_iter xs n) \<Longrightarrow> b \<noteq> [] \<and> length b \<le> n"
proof (induction xs n rule: batch_iter.induct)
  case (1 xs n)
  show ?case
  proof (cases "take n xs = []")
    case True
    with "1.prems" show ?thesis by (simp add: batch_iter_Nil)
  next
    case False
    with "1.prems" "1.IH" [OF False] show ?thesis by (auto simp: batch_iter_Cons)
  qed
qed

lemma batch_iter_full: "Suc i < length (batch_iter xs n) \<Longrightarrow> length (batch_iter xs n ! i) = n"
proof (induction xs n arbitrary: i rule: batch_iter.induct)
  case (1 xs n)
  have ne: "take n xs \<noteq> []"
  proof
    assume "take n xs = []"
    with "1.prems" show False by (simp only: batch_iter_Nil) simp
  qed
  note b = batch_iter_Cons [OF ne]
  show ?case
  proof (cases i)
    case 0
    have "batch_iter (drop n xs) n \<noteq> []" using "1.prems" b 0 by auto
    then have "take n (drop n xs) \<noteq> []" using batch_iter_Nil by blast
    then show ?thesis using b 0 by simp
  next
    case (Suc j)
    with "1.IH" [OF ne, of j] "1.prems" b show ?thesis by simp
  qed
qed

lemma partition_loop_filter:
  "partition_loop p xs (a, b) = (a @ filter p xs, b @ filter (\<lambda>x. \<not> p x) xs)"
  by (induction xs arbitrary: a b) auto

section \<open>Degrees and reversed graph\<close>

text \<open>The references of a node to other nodes of the walk.\<close>

definition inner_deps :: "'n list \<Rightarrow> 'n graph \<Rightarrow> 'n \<Rightarrow> 'n set" where
  "inner_deps nodes graph n = deps_of graph n \<inter> set nodes"

lemma fold_count_edge:
  assumes "dict_has dm node"
  shows "fold (count_edge node) es (dm, rg) =
    (AList.update node (the (map_of dm node) + int (length (filter (dict_has dm) es))) dm,
     fold (\<lambda>e rg. dict_add_to rg e node) es rg)"
  using assms
proof (induction es arbitrary: dm rg)
  case Nil
  then obtain d where d: "map_of dm node = Some d" by (auto simp: dict_has_def)
  have "AList.update k v al = al" if "map_of al k = Some v" for k v and al :: "('a \<times> int) list"
    using that by (induction al) (auto split: if_splits)
  with d show ?case by simp
next
  case (Cons e es)
  let ?dm = "AList.update node (the (map_of dm node) + 1) dm"
  have has: "dict_has ?dm = dict_has dm"
    using Cons.prems by (auto simp: dict_has_def update_conv' fun_eq_iff)
  have upd: "AList.update k v (AList.update k w al) = AList.update k v al" for k v w and al :: "('a \<times> int) list"
    by (induction al) auto
  show ?case
    using Cons.IH [of dm] Cons.IH [of ?dm] Cons.prems
    by (simp add: count_edge_def has upd update_conv' add.assoc)
qed

lemma count_node_sem:
  assumes "count_node (node, es) (dm, rg) = (dm', rg')"
  shows "map_of dm' n = (if n = node then map_option (\<lambda>d. d + int (card (set es \<inter> {e. dict_has dm e}))) (map_of dm n)
      else map_of dm n)"
    and "set (dict_get_list rg' n) = set (dict_get_list rg n) \<union> (if dict_has dm node \<and> n \<in> set es then {node} else {})"
    and "distinct (dict_get_list rg n) \<Longrightarrow> distinct (dict_get_list rg' n)"
proof -
  have len: "length (filter (dict_has dm) (remdups es)) = card (set es \<inter> {e. dict_has dm e})"
    by (simp add: distinct_card [symmetric] Int_def)
  show "map_of dm' n = (if n = node then map_option (\<lambda>d. d + int (card (set es \<inter> {e. dict_has dm e}))) (map_of dm n)
      else map_of dm n)"
    using assms by (auto simp: count_node_def fold_count_edge len update_conv' dict_has_def split: if_splits)
  show "set (dict_get_list rg' n) = set (dict_get_list rg n) \<union> (if dict_has dm node \<and> n \<in> set es then {node} else {})"
    using assms by (auto simp: count_node_def fold_count_edge add_edges split: if_splits)
  show "distinct (dict_get_list rg n) \<Longrightarrow> distinct (dict_get_list rg' n)"
    using assms by (auto simp: count_node_def fold_count_edge add_edges_distinct split: if_splits)
qed

lemma dict_get_list_Cons:
  "dict_get_list ((k, v) # d) n = (if n = k then v else dict_get_list d n)"
  by (simp add: dict_get_list_def)

lemma fold_count_node:
  assumes "distinct (map fst g)" and "fold count_node g (dm, rg) = (dm', rg')"
  shows "map_of dm' n = map_option (\<lambda>d. d + int (card (deps_of g n \<inter> {e. dict_has dm e}))) (map_of dm n) \<and>
    set (dict_get_list rg' n) = set (dict_get_list rg n) \<union> {p. dict_has dm p \<and> n \<in> deps_of g p} \<and>
    (distinct (dict_get_list rg n) \<longrightarrow> distinct (dict_get_list rg' n))"
  using assms
proof (induction g arbitrary: dm rg)
  case Nil
  then show ?case by (simp add: deps_of_def dict_get_list_def option.map_ident)
next
  case (Cons x g)
  obtain node es where x: "x = (node, es)" by (cases x)
  obtain dm1 rg1 where one: "count_node (node, es) (dm, rg) = (dm1, rg1)" by fastforce
  note sem = count_node_sem [OF one]
  have has: "dict_has dm1 e = dict_has dm e" for e by (simp add: dict_has_def sem(1))
  have "map_of g node = None" using Cons.prems(1) x by (simp add: map_of_eq_None_iff)
  then have dn: "deps_of g node = {}" by (simp add: deps_of_def dict_get_list_def)
  have "distinct (map fst g)" "fold count_node g (dm1, rg1) = (dm', rg')"
    using Cons.prems one x by simp_all
  note IH = Cons.IH [OF this]
  show ?case
    using IH dn sem(2,3) [of n]
    by (auto simp: x sem(1) has deps_of_def dict_get_list_Cons option.map_comp comp_def split: if_splits)
qed

lemma degrees_and_reverse_sem:
  assumes "distinct (map fst g)" and "degrees_and_reverse nodes g = (dm, rg)"
  shows "map_of dm n = (if n \<in> set nodes then Some (int (card (inner_deps nodes g n))) else None)"
    and "set (dict_get_list rg n) = {p \<in> set nodes. n \<in> deps_of g p}"
    and "distinct (dict_get_list rg n)"
proof -
  let ?dm0 = "dict_update [] (map (\<lambda>node. (node, 0 :: int)) nodes)"
  have m0: "map_of ?dm0 n = (if n \<in> set nodes then Some 0 else None)" for n
    by (induction nodes) (auto simp: map_of_dict_update map_add_def split: option.splits)
  have has: "{e. dict_has ?dm0 e} = set nodes" by (auto simp: dict_has_def m0)
  have e: "dict_get_list ([] :: 'a graph) n = []" by (simp add: dict_get_list_def)
  note f = fold_count_node [OF assms(1) assms(2) [unfolded degrees_and_reverse_def], of n]
  show "map_of dm n = (if n \<in> set nodes then Some (int (card (inner_deps nodes g n))) else None)"
    using f by (simp add: has m0 inner_deps_def)
  show "set (dict_get_list rg n) = {p \<in> set nodes. n \<in> deps_of g p}"
    using f has by (auto simp: e)
  show "distinct (dict_get_list rg n)" using f by (simp add: e)
qed

section \<open>Releasing the parents of a node\<close>

lemma fold_release_one:
  assumes "distinct ps" and "fold (release_one push) ps (dm, q) = (dm', q')"
  shows "q' = foldl push q (filter (\<lambda>p. map_of dm p = Some 1) ps) \<and>
    (\<forall>n. map_of dm' n = (if n \<in> set ps then map_option (\<lambda>d. d - 1) (map_of dm n) else map_of dm n))"
  using assms
proof (induction ps arbitrary: dm q)
  case (Cons p ps)
  show ?case
  proof (cases "map_of dm p")
    case None
    with Cons show ?thesis by (auto simp: release_one_def)
  next
    case (Some d)
    let ?dm = "AList.update p (d - 1) dm" and ?q = "if d - 1 = 0 then push q p else q"
    have m: "map_of ?dm n = (if n = p then Some (d - 1) else map_of dm n)" for n
      by (simp add: update_conv')
    have f: "filter (\<lambda>n. map_of ?dm n = Some 1) ps = filter (\<lambda>n. map_of dm n = Some 1) ps"
      using Cons.prems(1) by (intro filter_cong) (auto simp: m)
    have step: "release_one push p (dm, q) = (?dm, ?q)" using Some by (simp add: release_one_def)
    have "distinct ps" "fold (release_one push) ps (?dm, ?q) = (dm', q')"
      using Cons.prems by (simp, simp only: fold_simps step)
    from Cons.IH [OF this] Some Cons.prems(1) show ?thesis by (simp add: f) (auto simp: m)
  qed
qed simp

text \<open>The degrees when the nodes of \<open>D\<close> have been emitted.\<close>

definition degrees_after :: "'n set \<Rightarrow> ('n \<Rightarrow> 'n set) \<Rightarrow> 'n set \<Rightarrow> ('n \<times> int) list \<Rightarrow> bool" where
  "degrees_after N deps D dm \<longleftrightarrow>
     (\<forall>n. map_of dm n = (if n \<in> N then Some (int (card (deps n - D))) else None))"

lemma card_remove_node:
  assumes "finite A" and "x \<in> A" and "x \<notin> D"
  shows "card (A - insert x D) = card (A - D) - 1" and "card (A - D) = 1 \<longleftrightarrow> A \<subseteq> insert x D"
    and "card (A - D) \<noteq> 0"
proof -
  have s: "A - insert x D = (A - D) - {x}" by blast
  from assms show "card (A - insert x D) = card (A - D) - 1" by (simp add: s)
  from assms show "card (A - D) \<noteq> 0" by auto
  show "card (A - D) = 1 \<longleftrightarrow> A \<subseteq> insert x D"
  proof
    assume "card (A - D) = 1"
    then obtain y where "A - D = {y}" by (auto simp: card_1_singleton_iff)
    moreover have "x \<in> A - D" using assms by blast
    ultimately have "A - D = {x}" by simp
    then show "A \<subseteq> insert x D" by blast
  next
    assume "A \<subseteq> insert x D"
    with assms have "A - D = {x}" by blast
    then show "card (A - D) = 1" by simp
  qed
qed

lemma release_parents_sem:
  assumes dm: "degrees_after N deps D dm" and fin: "\<And>n. finite (deps n)" and node: "node \<notin> D"
    and rg: "set (dict_get_list rg node) \<inter> N = {p \<in> N. node \<in> deps p}" "distinct (dict_get_list rg node)"
    and run: "release_parents push rg node (dm, q) = (dm', q')"
  shows "degrees_after N deps (insert node D) dm' \<and>
    (\<exists>new. q' = foldl push q new \<and> distinct new \<and>
       set new = {p \<in> N. node \<in> deps p \<and> deps p \<subseteq> insert node D})"
proof -
  let ?ps = "dict_get_list rg node"
  let ?new = "filter (\<lambda>p. map_of dm p = Some 1) ?ps"
  from fold_release_one [OF rg(2) run [unfolded release_parents_def]]
  have q: "q' = foldl push q ?new"
    and m: "map_of dm' n = (if n \<in> set ?ps then map_option (\<lambda>d. d - 1) (map_of dm n) else map_of dm n)" for n
    by auto
  have mN: "map_of dm n = (if n \<in> N then Some (int (card (deps n - D))) else None)" for n
    using dm by (simp add: degrees_after_def)
  have ps: "p \<in> set ?ps \<and> p \<in> N \<longleftrightarrow> p \<in> N \<and> node \<in> deps p" for p using rg(1) by blast
  have "map_of dm' n = (if n \<in> N then Some (int (card (deps n - insert node D))) else None)" for n
  proof (cases "n \<in> N \<and> node \<in> deps n")
    case True
    with ps card_remove_node [OF fin _ node, of n] show ?thesis by (auto simp: m mN of_nat_diff)
  next
    case False
    then have "deps n - insert node D = deps n - D" if "n \<in> N" using that by blast
    with False ps show ?thesis by (auto simp: m mN)
  qed
  moreover have "set ?new = {p \<in> N. node \<in> deps p \<and> deps p \<subseteq> insert node D}"
    using ps card_remove_node(2) [OF fin _ node] by (auto simp: mN split: if_splits)
  moreover have "distinct ?new" using rg(2) by simp
  ultimately show ?thesis using q unfolding degrees_after_def by blast
qed

section \<open>The walks\<close>

lemma finite_inner_deps [simp]: "finite (inner_deps nodes g n)"
  by (simp add: inner_deps_def)

lemma available_insert:
  assumes "node \<in> available N deps D" and "\<forall>n \<in> D. deps n \<subseteq> D"
  shows "available N deps (insert node D) =
    (available N deps D - {node}) \<union> {p \<in> N. node \<in> deps p \<and> deps p \<subseteq> insert node D}"
  using assms unfolding available_def by blast

lemma distinct_count_node:
  assumes "count_node ne (dm, rg) = (dm', rg')" and "distinct (map fst dm)"
  shows "distinct (map fst dm')"
  using assms
  by (cases ne) (auto simp: count_node_def fold_count_edge distinct_update split: if_splits)

lemma distinct_fold_count_node:
  "fold count_node g (dm, rg) = (dm', rg') \<Longrightarrow> distinct (map fst dm) \<Longrightarrow> distinct (map fst dm')"
proof (induction g arbitrary: dm rg)
  case (Cons x g)
  obtain dm1 rg1 where one: "count_node x (dm, rg) = (dm1, rg1)" by fastforce
  with Cons.prems(1) have "fold count_node g (dm1, rg1) = (dm', rg')" by simp
  from Cons.IH [OF this distinct_count_node [OF one Cons.prems(2)]] show ?case .
qed simp

lemma distinct_const_dict: "distinct (map fst (dict_update [] (map (\<lambda>n. (n, c)) ns)))"
proof -
  have "distinct (map fst d) \<Longrightarrow> distinct (map fst (dict_update d (map (\<lambda>n. (n, c)) ns)))" for d
    by (induction ns arbitrary: d) (auto simp: dict_update_def distinct_update)
  then show ?thesis by simp
qed

text \<open>The state of a walk at the start.\<close>

lemma walk_initial:
  assumes "distinct (map fst g)" and "degrees_and_reverse nodes g = (dm, rg)"
  shows "degrees_after (set nodes) (inner_deps nodes g) {} dm"
    and "set (zero_degree_nodes dm) = available (set nodes) (inner_deps nodes g) {}"
    and "distinct (zero_degree_nodes dm)"
    and "set (dict_get_list rg n) \<inter> set nodes = {p \<in> set nodes. n \<in> deps_of g p}"
    and "distinct (dict_get_list rg n)"
proof -
  note sem = degrees_and_reverse_sem [OF assms]
  show "degrees_after (set nodes) (inner_deps nodes g) {} dm"
    by (simp add: degrees_after_def sem(1))
  have d: "distinct (map fst dm)"
    using distinct_fold_count_node [OF assms(2) [unfolded degrees_and_reverse_def] distinct_const_dict] .
  have "n \<in> set (zero_degree_nodes dm) \<longleftrightarrow> (n, 0) \<in> set dm" for n
    by (force simp: zero_degree_nodes_def)
  then have "n \<in> set (zero_degree_nodes dm) \<longleftrightarrow> map_of dm n = Some 0" for n using d by simp
  then show "set (zero_degree_nodes dm) = available (set nodes) (inner_deps nodes g) {}"
    by (auto simp: sem(1) available_def split: if_splits)
  show "distinct (zero_degree_nodes dm)"
    using d by (simp add: zero_degree_nodes_def distinct_map_filter)
  show "set (dict_get_list rg n) \<inter> set nodes = {p \<in> set nodes. n \<in> deps_of g p}"
    by (auto simp: sem(2))
  show "distinct (dict_get_list rg n)" by (rule sem(3))
qed

text \<open>A reversed graph as \<open>degrees_and_reverse\<close> computes it.\<close>

definition reverses :: "'n list \<Rightarrow> 'n graph \<Rightarrow> 'n graph \<Rightarrow> bool" where
  "reverses nodes g rg \<longleftrightarrow>
     (\<forall>n. set (dict_get_list rg n) \<inter> set nodes = {p \<in> set nodes. n \<in> deps_of g p} \<and>
          distinct (dict_get_list rg n))"

lemma reverses_inner:
  assumes "reverses nodes g rg" and "n \<in> set nodes"
  shows "set (dict_get_list rg n) \<inter> set nodes = {p \<in> set nodes. n \<in> inner_deps nodes g p}"
    and "distinct (dict_get_list rg n)"
  using assms by (auto simp: reverses_def inner_deps_def)

lemma st_loop_greedy:
  assumes rg: "reverses nodes g rg"
  shows "degrees_after (set nodes) (inner_deps nodes g) D dm \<Longrightarrow> D \<subseteq> set nodes \<Longrightarrow>
    \<forall>n \<in> D. inner_deps nodes g n \<subseteq> D \<Longrightarrow> sorted z \<Longrightarrow> distinct z \<Longrightarrow>
    set z = available (set nodes) (inner_deps nodes g) D \<Longrightarrow> card (set nodes - D) < fuel \<Longrightarrow>
    \<exists>xs. st_loop fuel rg dm z = Some xs \<and> greedy_order (set nodes) (inner_deps nodes g) (\<lambda>n. n) D xs"
proof (induction fuel arbitrary: D dm z)
  case (Suc fuel)
  let ?A = "available (set nodes) (inner_deps nodes g)"
  show ?case
  proof (cases z)
    case Nil
    with Suc.prems(6) show ?thesis by (intro exI [of _ "[]"]) simp
  next
    case (Cons node rest)
    obtain dm' z' where rel: "release_parents heappush rg node (dm, rest) = (dm', z')" by fastforce
    have node: "node \<in> ?A D" using Cons Suc.prems(6) by auto
    then have nN: "node \<in> set nodes" "node \<notin> D" by (auto simp: available_def)
    from release_parents_sem [OF Suc.prems(1) finite_inner_deps nN(2) reverses_inner [OF rg nN(1)] rel]
    obtain new where dm': "degrees_after (set nodes) (inner_deps nodes g) (insert node D) dm'"
      and z': "z' = foldl heappush rest new" and new: "distinct new"
        "set new = {p \<in> set nodes. node \<in> inner_deps nodes g p \<and> inner_deps nodes g p \<subseteq> insert node D}"
      by blast
    have rest: "sorted rest" "distinct rest" "set rest = ?A D - {node}"
      using Cons Suc.prems(4-6) by auto
    have mz: "mset z' = mset (rest @ new)" using z' heapq.pushes_elems [OF rest(1)] by simp
    have "set rest \<inter> set new = {}" using rest(3) new(2) nN(2) by (auto simp: available_def)
    then have z'_ok: "sorted z'" "distinct z'" "set z' = ?A (insert node D)"
      using z' heapq.pushes_invar [OF rest(1)] mset_eq_imp_distinct_iff [OF mz] mset_eq_setD [OF mz]
        rest new available_insert [OF node Suc.prems(3)] by auto
    have "set nodes - insert node D \<subset> set nodes - D" using nN by blast
    then have "card (set nodes - insert node D) < card (set nodes - D)" by (intro psubset_card_mono) auto
    with Suc.prems(7) have "card (set nodes - insert node D) < fuel" by linarith
    moreover have "insert node D \<subseteq> set nodes" using Suc.prems(2) nN by blast
    moreover have "\<forall>n \<in> insert node D. inner_deps nodes g n \<subseteq> insert node D"
      using Suc.prems(3) node by (auto simp: available_def)
    ultimately obtain xs where
      "st_loop fuel rg dm' z' = Some xs"
      "greedy_order (set nodes) (inner_deps nodes g) (\<lambda>n. n) (insert node D) xs"
      using Suc.IH [OF dm' _ _ z'_ok] by blast
    moreover have "\<forall>y \<in> ?A D. node \<le> y" using Cons Suc.prems(4,6) by auto
    ultimately show ?thesis using Cons rel node by (intro exI [of _ "node # xs"]) simp
  qed
qed simp

interpretation walk: dependency_graph "set nodes" "inner_deps nodes g" "\<lambda>n :: 'n. n"
  for nodes :: "'n::linorder list" and g :: "'n graph"
  by unfold_locales auto

lemma sorted_topologically_greedy:
  assumes "distinct (map fst g)"
  shows "\<exists>xs. sorted_topologically nodes g = Some xs \<and>
    greedy_order (set nodes) (inner_deps nodes g) (\<lambda>n. n) {} xs"
proof -
  obtain dm rg where dr: "degrees_and_reverse nodes g = (dm, rg)" by fastforce
  note init = walk_initial [OF assms dr]
  have "reverses nodes g rg" using init(4,5) by (simp add: reverses_def)
  moreover have "card (set nodes - {}) < Suc (length nodes)" by (simp add: card_length le_imp_less_Suc)
  ultimately have "\<exists>xs. st_loop (Suc (length nodes)) rg dm (heapify (zero_degree_nodes dm)) = Some xs \<and>
      greedy_order (set nodes) (inner_deps nodes g) (\<lambda>n. n) {} xs"
    using init(1-3) by (intro st_loop_greedy) (auto simp: heapify_def)
  then show ?thesis by (simp add: sorted_topologically_def dr)
qed

text \<open>
  The contract of the batched walk: each batch is exactly the set of nodes that are free
  once the earlier batches have been returned, and no batch is empty.
\<close>

fun layered :: "'n set \<Rightarrow> ('n \<Rightarrow> 'n set) \<Rightarrow> 'n set \<Rightarrow> 'n list list \<Rightarrow> bool" where
  "layered nodes deps D [] \<longleftrightarrow> available nodes deps D = {}"
| "layered nodes deps D (b # bs) \<longleftrightarrow>
     b \<noteq> [] \<and> distinct b \<and> set b = available nodes deps D \<and> layered nodes deps (D \<union> set b) bs"

lemma release_layer:
  assumes rg: "reverses nodes g rg" and "set b \<subseteq> set nodes" and "distinct b" and "set b \<inter> D = {}"
    and "degrees_after (set nodes) (inner_deps nodes g) D dm" and "distinct q"
    and "\<forall>p \<in> set q. inner_deps nodes g p \<subseteq> D"
    and "fold (release_parents (\<lambda>q x. q @ [x]) rg) b (dm, q) = (dm', q')"
  shows "degrees_after (set nodes) (inner_deps nodes g) (D \<union> set b) dm' \<and> distinct q' \<and>
    set q' = set q \<union> {p \<in> set nodes. inner_deps nodes g p \<inter> set b \<noteq> {} \<and> inner_deps nodes g p \<subseteq> D \<union> set b}"
  using assms(2-)
proof (induction b arbitrary: D dm q)
  case (Cons node b)
  let ?E = "inner_deps nodes g"
  obtain dm1 q1 where one: "release_parents (\<lambda>q x. q @ [x]) rg node (dm, q) = (dm1, q1)" by fastforce
  have nN: "node \<in> set nodes" "node \<notin> D" using Cons.prems(1,3) by auto
  have app: "foldl (\<lambda>q x. q @ [x]) a xs = a @ xs" for a and xs :: "'a list"
    by (induction xs arbitrary: a) auto
  from release_parents_sem [OF Cons.prems(4) finite_inner_deps nN(2) reverses_inner [OF rg nN(1)] one]
  obtain new where dm1: "degrees_after (set nodes) ?E (insert node D) dm1"
    and q1: "q1 = q @ new" and new: "distinct new"
      "set new = {p \<in> set nodes. node \<in> ?E p \<and> ?E p \<subseteq> insert node D}"
    by (auto simp: app)
  have "distinct q1" using q1 new Cons.prems(5,6) nN(2) by auto
  moreover have "\<forall>p \<in> set q1. ?E p \<subseteq> insert node D" using q1 new Cons.prems(6) by auto
  moreover have "fold (release_parents (\<lambda>q x. q @ [x]) rg) b (dm1, q1) = (dm', q')"
    using Cons.prems(7) one by simp
  ultimately have IH: "degrees_after (set nodes) ?E (insert node D \<union> set b) dm' \<and> distinct q' \<and>
    set q' = set q1 \<union> {p \<in> set nodes. ?E p \<inter> set b \<noteq> {} \<and> ?E p \<subseteq> insert node D \<union> set b}"
    using Cons.prems(1-3) dm1 by (intro Cons.IH) auto
  have "D \<union> set (node # b) = insert node D \<union> set b" by auto
  moreover have "set q1 \<union> {p \<in> set nodes. ?E p \<inter> set b \<noteq> {} \<and> ?E p \<subseteq> insert node D \<union> set b} =
      set q \<union> {p \<in> set nodes. ?E p \<inter> set (node # b) \<noteq> {} \<and> ?E p \<subseteq> insert node D \<union> set b}"
    unfolding q1 set_append new by auto
  ultimately show ?case using IH by simp
qed simp

lemma available_layer:
  assumes "\<forall>n \<in> D. deps n \<subseteq> D"
  shows "available N deps (D \<union> available N deps D) =
    {p \<in> N. deps p \<inter> available N deps D \<noteq> {} \<and> deps p \<subseteq> D \<union> available N deps D}"
  using assms unfolding available_def by blast

lemma stb_loop_layered:
  assumes rg: "reverses nodes g rg"
  shows "degrees_after (set nodes) (inner_deps nodes g) D dm \<Longrightarrow>
    \<forall>n \<in> D. inner_deps nodes g n \<subseteq> D \<Longrightarrow> distinct z \<Longrightarrow>
    set z = available (set nodes) (inner_deps nodes g) D \<Longrightarrow> card (set nodes - D) < fuel \<Longrightarrow>
    \<exists>bs. stb_loop fuel rg dm z = Some bs \<and> layered (set nodes) (inner_deps nodes g) D bs"
proof (induction fuel arbitrary: D dm z)
  case (Suc fuel)
  let ?E = "inner_deps nodes g" and ?A = "available (set nodes) (inner_deps nodes g)"
  show ?case
  proof (cases "z = []")
    case True
    with Suc.prems(4) show ?thesis by (intro exI [of _ "[]"]) simp
  next
    case False
    obtain dm' z' where run: "fold (release_parents (\<lambda>q x. q @ [x]) rg) z (dm, []) = (dm', z')" by fastforce
    have zN: "set z \<subseteq> set nodes" "set z \<inter> D = {}" using Suc.prems(4) by (auto simp: available_def)
    from release_layer [OF rg zN(1) Suc.prems(3) zN(2) Suc.prems(1) _ _ run]
    have dm': "degrees_after (set nodes) ?E (D \<union> set z) dm'" and d: "distinct z'"
      and z': "set z' = ?A (D \<union> set z)"
      by (simp_all add: Suc.prems(4) available_layer [OF Suc.prems(2)])
    have "\<forall>n \<in> D \<union> set z. ?E n \<subseteq> D \<union> set z"
      using Suc.prems(2,4) by (auto simp: available_def)
    moreover have "card (set nodes - (D \<union> set z)) < fuel"
    proof -
      obtain x where "x \<in> set z" using False by (cases z) auto
      then have "set nodes - (D \<union> set z) \<subset> set nodes - D" using zN by blast
      then have "card (set nodes - (D \<union> set z)) < card (set nodes - D)" by (intro psubset_card_mono) auto
      with Suc.prems(5) show ?thesis by linarith
    qed
    ultimately obtain bs where "stb_loop fuel rg dm' z' = Some bs"
      "layered (set nodes) ?E (D \<union> set z) bs"
      using Suc.IH [OF dm' _ d z'] by blast
    with False run Suc.prems(3,4) show ?thesis by (intro exI [of _ "z # bs"]) simp
  qed
qed simp

lemma sorted_topologically_batched_layered:
  assumes "distinct (map fst g)"
  shows "\<exists>bs. sorted_topologically_batched nodes g = Some bs \<and>
    layered (set nodes) (inner_deps nodes g) {} bs"
proof -
  obtain dm rg where dr: "degrees_and_reverse nodes g = (dm, rg)" by fastforce
  note init = walk_initial [OF assms dr]
  have "reverses nodes g rg" using init(4,5) by (simp add: reverses_def)
  moreover have "card (set nodes - {}) < Suc (length nodes)" by (simp add: card_length le_imp_less_Suc)
  ultimately have "\<exists>bs. stb_loop (Suc (length nodes)) rg dm (zero_degree_nodes dm) = Some bs \<and>
      layered (set nodes) (inner_deps nodes g) {} bs"
    using init(1-3) by (intro stb_loop_layered) auto
  then show ?thesis by (simp add: sorted_topologically_batched_def dr)
qed

lemma layered_exhausted: "layered N deps D bs \<Longrightarrow> available N deps (D \<union> set (concat bs)) = {}"
proof (induction bs arbitrary: D)
  case (Cons b bs)
  from Cons.prems have "layered N deps (D \<union> set b) bs" unfolding layered.simps by blast
  from Cons.IH [OF this] show ?case by (simp only: concat.simps set_append Un_assoc)
qed simp

lemma available_closed: "x \<in> available N deps D \<Longrightarrow> D \<subseteq> C \<Longrightarrow> available N deps C = {} \<Longrightarrow> x \<in> C"
  unfolding available_def by blast

lemma layered_subset:
  "layered N deps D bs \<Longrightarrow> D \<subseteq> C \<Longrightarrow> available N deps C = {} \<Longrightarrow> set (concat bs) \<subseteq> C"
proof (induction bs arbitrary: D)
  case (Cons b bs)
  from Cons.prems(1) have "set b = available N deps D" and ly: "layered N deps (D \<union> set b) bs"
    unfolding layered.simps by blast+
  with available_closed [OF _ Cons.prems(2,3)] have b: "set b \<subseteq> C" by blast
  with Cons.prems(2) have "D \<union> set b \<subseteq> C" by simp
  from Cons.IH [OF ly this Cons.prems(3)] b show ?case by simp
qed simp

lemma greedy_subset:
  "greedy_order N deps prio D xs \<Longrightarrow> D \<subseteq> C \<Longrightarrow> available N deps C = {} \<Longrightarrow> set xs \<subseteq> C"
proof (induction xs arbitrary: D)
  case (Cons x xs)
  from Cons.prems(1) have "x \<in> available N deps D" by simp
  from available_closed [OF this Cons.prems(2,3)] have x: "x \<in> C" .
  from Cons.prems x have "greedy_order N deps prio (insert x D) xs" "insert x D \<subseteq> C" by simp_all
  from Cons.IH [OF this Cons.prems(3)] x show ?case by simp
qed simp

lemma layered_topological:
  "layered N deps D bs \<Longrightarrow> bs = xs @ b # ys \<Longrightarrow>
     b \<noteq> [] \<and> distinct b \<and> set b = available N deps (D \<union> set (concat xs))"
proof (induction bs arbitrary: D xs)
  case (Cons c bs)
  from Cons.prems(1) have c: "c \<noteq> []" "distinct c" "set c = available N deps D"
    and ly: "layered N deps (D \<union> set c) bs" unfolding layered.simps by blast+
  show ?case
  proof (cases xs)
    case Nil
    with Cons.prems(2) c show ?thesis by simp
  next
    case (Cons x xs')
    with Cons.prems(2) have "bs = xs' @ b # ys" "x = c" by simp_all
    with Cons.IH [OF ly, of xs'] Cons show ?thesis by (simp only: concat.simps set_append Un_assoc) simp
  qed
qed simp

section \<open>Properties\<close>

text \<open>
  C39.  \<open>sorted_topologically\<close> always returns; its result has no duplicates, only the
  given nodes, and every node after the given nodes it references; on an acyclic graph all
  given nodes are returned.
\<close>

theorem sorted_topologically_correct:
  assumes "distinct (map fst g)"
  shows "\<exists>xs. sorted_topologically nodes g = Some xs \<and> distinct xs \<and> set xs \<subseteq> set nodes \<and>
    (\<forall>ys n zs. xs = ys @ n # zs \<longrightarrow> deps_of g n \<inter> set nodes \<subseteq> set ys) \<and>
    (acyclic {(m, n). n \<in> set nodes \<and> m \<in> deps_of g n \<inter> set nodes} \<longrightarrow> set xs = set nodes)"
proof -
  from sorted_topologically_greedy [OF assms] obtain xs where xs: "sorted_topologically nodes g = Some xs"
    and gr: "greedy_order (set nodes) (inner_deps nodes g) (\<lambda>n. n) {} xs" by blast
  have "deps_of g n \<inter> set nodes \<subseteq> set ys" if "xs = ys @ n # zs" for ys n zs
    using walk.greedy_topological [OF gr that] by (simp add: inner_deps_def)
  moreover have "set xs = set nodes"
    if "acyclic {(m, n). n \<in> set nodes \<and> m \<in> deps_of g n \<inter> set nodes}"
    using walk.greedy_complete [OF gr] that by (simp add: inner_deps_def)
  ultimately show ?thesis using xs walk.greedy_distinct [OF gr] by blast
qed

text \<open>
  C40.  \<open>sorted_topologically_batched\<close> always returns; each batch is non-empty and is
  exactly the set of nodes all of whose references lie in earlier batches; together the
  batches hold the same nodes as \<open>sorted_topologically\<close> returns.
\<close>

theorem sorted_topologically_batched_correct:
  assumes "distinct (map fst g)"
  shows "\<exists>bs xs. sorted_topologically_batched nodes g = Some bs \<and> sorted_topologically nodes g = Some xs \<and>
    set (concat bs) = set xs \<and>
    (\<forall>as b cs. bs = as @ b # cs \<longrightarrow> b \<noteq> [] \<and> distinct b \<and>
       set b = {n \<in> set nodes. n \<notin> set (concat as) \<and> deps_of g n \<inter> set nodes \<subseteq> set (concat as)})"
proof -
  let ?E = "inner_deps nodes g"
  from sorted_topologically_greedy [OF assms] obtain xs where xs: "sorted_topologically nodes g = Some xs"
    and gr: "greedy_order (set nodes) ?E (\<lambda>n. n) {} xs" by blast
  from sorted_topologically_batched_layered [OF assms] obtain bs where
    bs: "sorted_topologically_batched nodes g = Some bs" and ly: "layered (set nodes) ?E {} bs" by blast
  have "set (concat bs) = set xs"
    using layered_subset [OF ly _ walk.greedy_exhausted [OF gr]]
      greedy_subset [OF gr _ layered_exhausted [OF ly]] by simp
  moreover have "b \<noteq> [] \<and> distinct b \<and>
      set b = {n \<in> set nodes. n \<notin> set (concat as) \<and> deps_of g n \<inter> set nodes \<subseteq> set (concat as)}"
    if "bs = as @ b # cs" for as b cs
    using layered_topological [OF ly that] by (simp add: available_def inner_deps_def)
  ultimately show ?thesis using xs bs by blast
qed

text \<open>
  Batching loses and reorders nothing: the batches concatenate to the input, none is
  empty or longer than the size, and all but the last have exactly that size.
\<close>

lemma batch_iter_correct:
  assumes "0 < n"
  shows "concat (batch_iter xs n) = xs \<and> (\<forall>b \<in> set (batch_iter xs n). b \<noteq> [] \<and> length b \<le> n) \<and>
    (\<forall>i. Suc i < length (batch_iter xs n) \<longrightarrow> length (batch_iter xs n ! i) = n)"
  using concat_batch_iter [OF assms] batch_iter_sizes batch_iter_full by blast

section \<open>The theorems at concrete inputs\<close>

theorem sorted_topologically_correct_witness:
  "\<exists>xs. sorted_topologically [1, 2, 3] sample_graph = Some xs \<and> set xs \<subseteq> {1, 2, 3}"
  using sorted_topologically_correct [OF sample_graph_sem(1), of "[1, 2, 3]"] by auto

theorem sorted_topologically_batched_correct_witness:
  "\<exists>bs xs. sorted_topologically_batched [1, 2, 3] sample_graph = Some bs \<and>
     sorted_topologically [1, 2, 3] sample_graph = Some xs \<and> set (concat bs) = set xs"
  using sorted_topologically_batched_correct [OF sample_graph_sem(1), of "[1, 2, 3]"] by blast

end
