(* ===== verification/State_V2.thy ===== *)
theory State_V2
  imports Event_Auth Topological_Sort "HOL-Library.Monad_Syntax"
begin

text \<open>
  \<^verbatim>\<open>synapse/state/v2.py\<close>: the second state resolution algorithm.

  \<^verbatim>\<open>StateResolutionStore\<close> is a protocol over the database, so its two methods
  are parameters.  \<^verbatim>\<open>event_map\<close> is a cache that \<open>get_event\<close> extends; it is
  threaded through every function.  The loops that follow references between events until
  none is left run for as long as there are references: they are
  \<open>partial_function (option)\<close>s, where \<open>None\<close> is a run that does not end.  Awaiting
  the reactor has no effect on the data.
\<close>

type_synonym event_map = "(string \<times> event) list"
type_synonym id_state = "(state_key \<times> string) list"

record state_res_store =
  srs_get_events :: "string list \<Rightarrow> event_map"
  srs_auth_chain_difference :: "string \<Rightarrow> string list list \<Rightarrow> string list"

section \<open>Looking up events\<close>

definition get_event_or_none ::
  "state_res_store \<Rightarrow> string \<Rightarrow> string \<Rightarrow> event_map \<Rightarrow> (event option \<times> event_map) result" where
  "get_event_or_none store room_id event_id em =
     (let em' = (if dict_has em event_id then em
                 else dict_update em (srs_get_events store [event_id]))
      in case map_of em' event_id of
           None \<Rightarrow> Inr (None, em')
         | Some e \<Rightarrow>
             if ev_room_id e \<noteq> room_id
             then Inl (PyException ''In state res for room %s, event %s is in %s'')
             else Inr (Some e, em'))"

text \<open>\<^verbatim>\<open>allow_none\<close> is false.\<close>

definition get_event ::
  "state_res_store \<Rightarrow> string \<Rightarrow> string \<Rightarrow> event_map \<Rightarrow> (event \<times> event_map) result" where
  "get_event store room_id event_id em =
     rbind (get_event_or_none store room_id event_id em) (\<lambda>(e, em').
     case e of None \<Rightarrow> Inl (PyException ''Unknown event %s'') | Some ev \<Rightarrow> Inr (ev, em'))"

text \<open>
  The loop \<^verbatim>\<open>for aid in ...: if aev and (aev.type, aev.state_key) == key: ... break\<close>,
  which four functions of the file contain.
\<close>

fun find_auth_event ::
  "state_res_store \<Rightarrow> string \<Rightarrow> state_key \<Rightarrow> string list \<Rightarrow> event_map
     \<Rightarrow> ((string \<times> event) option \<times> event_map) result" where
  "find_auth_event store room_id key [] em = Inr (None, em)"
| "find_auth_event store room_id key (aid # aids) em =
     rbind (get_event_or_none store room_id aid em) (\<lambda>(aev, em').
     case aev of
       None \<Rightarrow> find_auth_event store room_id key aids em'
     | Some e \<Rightarrow>
         rbind (state_key_pair e) (\<lambda>k.
         if k = key then Inr (Some (aid, e), em')
         else find_auth_event store room_id key aids em'))"

definition get_power_level_for_sender ::
  "state_res_store \<Rightarrow> string \<Rightarrow> string \<Rightarrow> event_map \<Rightarrow> (int \<times> event_map) result" where
  "get_power_level_for_sender store room_id event_id em =
     rbind (get_event store room_id event_id em) (\<lambda>(e, em1).
     rbind (find_auth_event store room_id (EventTypes_PowerLevels, []) (ev_auth_event_ids e) em1) (\<lambda>(pl, em2).
     case pl of
       None \<Rightarrow>
         rbind (find_auth_event store room_id (EventTypes_Create, []) (ev_auth_event_ids e) em2) (\<lambda>(create, em3).
         Inr (case create of
                Some (_, aev) \<Rightarrow> if jget (ev_content aev) ''creator'' JNull = JStr (ev_sender e) then 100 else 0
              | None \<Rightarrow> 0, em3))
     | Some (_, pl_ev) \<Rightarrow>
         rbind (py_get (jget (ev_content pl_ev) ''users'' (JObj [])) (ev_sender e) JNull) (\<lambda>l0.
         let level = (if l0 = JNull then jget (ev_content pl_ev) ''users_default'' (JInt 0) else l0)
         in if level = JNull then Inr (0, em2) else rbind (py_int level) (\<lambda>i. Inr (i, em2)))))"

section \<open>The auth chain difference\<close>

text \<open>
  The search from one unpersisted event: the stack \<^verbatim>\<open>to_search\<close> has its top first.
  There is no check for events that were visited before.
\<close>

definition push_auth_event :: "event_map \<Rightarrow> string \<Rightarrow> string list \<times> event list \<Rightarrow> string list \<times> event list" where
  "push_auth_event unpersisted auth_id st =
     (case st of (chain, to_search) \<Rightarrow>
        (set_add auth_id chain,
         case map_of unpersisted auth_id of None \<Rightarrow> to_search | Some ae \<Rightarrow> ae # to_search))"

partial_function (option) search_auth_chain ::
  "event_map \<Rightarrow> string list \<Rightarrow> event list \<Rightarrow> string list option" where
  "search_auth_chain unpersisted chain to_search =
     (case to_search of
        [] \<Rightarrow> Some chain
      | e # rest \<Rightarrow>
          (case fold (push_auth_event unpersisted) (ev_auth_event_ids e) (chain, rest) of
             (chain', to_search') \<Rightarrow> search_auth_chain unpersisted chain' to_search'))"

declare search_auth_chain.simps [code]

fun events_to_auth_chain :: "event_map \<Rightarrow> event list \<Rightarrow> (string \<times> string list) list \<Rightarrow>
    (string \<times> string list) list option" where
  "events_to_auth_chain unpersisted [] acc = Some acc"
| "events_to_auth_chain unpersisted (e # es) acc =
     Option.bind (search_auth_chain unpersisted [ev_event_id e] [e]) (\<lambda>chain.
     events_to_auth_chain unpersisted es (AList.update (ev_event_id e) chain acc))"

text \<open>One state set: the persisted IDs to pass to the store, and the unpersisted ones reached.\<close>

definition split_state_event ::
  "event_map \<Rightarrow> (string \<times> string list) list \<Rightarrow> string \<Rightarrow> string list \<times> string list \<Rightarrow> string list \<times> string list" where
  "split_state_event unpersisted auth_chains event_id st =
     (case st of (set_ids, unpersisted_ids) \<Rightarrow>
        (case map_of auth_chains event_id of
           Some chain \<Rightarrow>
             (fold set_add (filter (\<lambda>e. \<not> dict_has unpersisted e) chain) set_ids,
              fold set_add (filter (dict_has unpersisted) chain) unpersisted_ids)
         | None \<Rightarrow> (set_add event_id set_ids, unpersisted_ids)))"

definition split_state_set ::
  "event_map \<Rightarrow> (string \<times> string list) list \<Rightarrow> id_state \<Rightarrow> string list \<times> string list" where
  "split_state_set unpersisted auth_chains state_set =
     fold (split_state_event unpersisted auth_chains) (map snd state_set) ([], [])"

text \<open>\<^verbatim>\<open>union - intersection\<close> of a non-empty list of sets; \<^verbatim>\<open>sets[0]\<close> raises on an empty one.\<close>

definition union_minus_intersection :: "string list list \<Rightarrow> string list result" where
  "union_minus_intersection sets =
     (case sets of
        [] \<Rightarrow> Inl PyIndexError
      | s # rest \<Rightarrow> Inr (filter (\<lambda>x. \<not> list_all (\<lambda>t. x \<in> set t) sets) (remdups (concat sets))))"

definition get_auth_chain_difference ::
  "state_res_store \<Rightarrow> string \<Rightarrow> id_state list \<Rightarrow> event_map \<Rightarrow> string list run" where
  "get_auth_chain_difference store room_id state_sets unpersisted =
     (if unpersisted \<noteq> [] then
        Option.bind (events_to_auth_chain unpersisted (map snd unpersisted) []) (\<lambda>auth_chains.
        let parts = map (split_state_set unpersisted auth_chains) state_sets
        in Some (rbind (union_minus_intersection (map snd parts)) (\<lambda>unpersisted_part.
             Inr (fold set_add unpersisted_part
                    (srs_auth_chain_difference store room_id (map fst parts))))))
      else
        Some (Inr (srs_auth_chain_difference store room_id (map (\<lambda>s. remdups (map snd s)) state_sets))))"

section \<open>Conflicted state and power events\<close>

definition separate_key ::
  "id_state list \<Rightarrow> state_key \<Rightarrow> id_state \<times> (state_key \<times> string list) list
     \<Rightarrow> id_state \<times> (state_key \<times> string list) list" where
  "separate_key state_sets key st =
     (case st of (unconflicted, conflicted) \<Rightarrow>
        let event_ids = remdups (map (\<lambda>s. map_of s key) state_sets)
        in case event_ids of
             [Some i] \<Rightarrow> (AList.update key i unconflicted, conflicted)
           | _ \<Rightarrow> (unconflicted, AList.update key (List.map_filter (\<lambda>x. x) event_ids) conflicted))"

definition separate :: "id_state list \<Rightarrow> id_state \<times> (state_key \<times> string list) list" where
  "separate state_sets =
     fold (separate_key state_sets) (remdups (concat (map (map fst) state_sets))) ([], [])"

definition is_power_event :: "event \<Rightarrow> bool result" where
  "is_power_event e =
     rbind (state_key_pair e) (\<lambda>k.
     if k \<in> set [(EventTypes_PowerLevels, []), (EventTypes_JoinRules, []), (EventTypes_Create, [])]
     then Inr True
     else if ev_type e = EventTypes_Member then
       rbind (membership_of e) (\<lambda>m.
       Inr (m \<in> set [JStr Membership_LEAVE, JStr Membership_BAN] \<and> ev_sender e \<noteq> snd k))
     else Inr False)"

section \<open>Reverse topological power ordering\<close>

definition visit_auth_id ::
  "string list \<Rightarrow> string \<Rightarrow> string \<Rightarrow> string graph \<times> string list \<Rightarrow> string graph \<times> string list" where
  "visit_auth_id full_conflicted_set eid aid st =
     (case st of (graph, stack) \<Rightarrow>
        if aid \<in> set full_conflicted_set
        then (dict_add_to graph eid aid, if dict_has graph aid then stack else aid # stack)
        else st)"

partial_function (option) add_event_and_auth_chain_to_graph ::
  "state_res_store \<Rightarrow> string \<Rightarrow> string list \<Rightarrow> string list \<Rightarrow> string graph \<Rightarrow> event_map
     \<Rightarrow> (string graph \<times> event_map) run" where
  "add_event_and_auth_chain_to_graph store room_id full_conflicted_set stack graph em =
     (case stack of
        [] \<Rightarrow> Some (Inr (graph, em))
      | eid # rest \<Rightarrow>
          (case get_event store room_id eid em of
             Inl err \<Rightarrow> Some (Inl err)
           | Inr (e, em') \<Rightarrow>
               (case fold (visit_auth_id full_conflicted_set eid) (ev_auth_event_ids e)
                       (dict_setdefault graph eid [], rest) of
                  (graph', stack') \<Rightarrow>
                    add_event_and_auth_chain_to_graph store room_id full_conflicted_set stack' graph' em')))"

declare add_event_and_auth_chain_to_graph.simps [code]

text \<open>The loop over the generator of power events.\<close>

fun power_graph ::
  "state_res_store \<Rightarrow> string \<Rightarrow> string list \<Rightarrow> string list \<Rightarrow> string graph \<Rightarrow> event_map
     \<Rightarrow> (string graph \<times> event_map) run" where
  "power_graph store room_id full_conflicted_set [] graph em = Some (Inr (graph, em))"
| "power_graph store room_id full_conflicted_set (eid # eids) graph em =
     xbind (Some (rbind (dict_item em eid) is_power_event)) (\<lambda>is_power.
     if is_power then
       xbind (add_event_and_auth_chain_to_graph store room_id full_conflicted_set [eid] graph em)
         (\<lambda>(graph', em'). power_graph store room_id full_conflicted_set eids graph' em')
     else power_graph store room_id full_conflicted_set eids graph em)"

type_synonym power_order = "int \<times> int \<times> string"

fun power_orders ::
  "state_res_store \<Rightarrow> string \<Rightarrow> string list \<Rightarrow> event_map \<Rightarrow> ((string \<times> power_order) list \<times> event_map) result" where
  "power_orders store room_id [] em = Inr ([], em)"
| "power_orders store room_id (eid # eids) em =
     rbind (get_power_level_for_sender store room_id eid em) (\<lambda>(pl, em1).
     rbind (dict_item em1 eid) (\<lambda>e.
     rbind (power_orders store room_id eids em1) (\<lambda>(orders, em2).
     Inr ((eid, (- pl, ev_origin_server_ts e, eid)) # orders, em2))))"

definition order_key :: "(string \<times> power_order) list \<Rightarrow> string \<Rightarrow> power_order" where
  "order_key orders n = (case map_of orders n of Some k \<Rightarrow> k | None \<Rightarrow> (0, 0, n))"

definition reverse_topological_power_sort ::
  "state_res_store \<Rightarrow> string \<Rightarrow> string list \<Rightarrow> event_map \<Rightarrow> (string list \<times> event_map) run" where
  "reverse_topological_power_sort store room_id full_conflicted_set em =
     xbind (power_graph store room_id full_conflicted_set full_conflicted_set [] em) (\<lambda>(graph, em1).
     xbind (Some (power_orders store room_id (map fst graph) em1)) (\<lambda>(orders, em2).
     xbind (lexicographical_topological_sort graph (order_key orders)) (\<lambda>xs.
     Some (Inr (xs, em2)))))"

section \<open>Iterative auth checks\<close>

text \<open>The auth events an event cites, without the missing and the rejected ones.\<close>

fun cited_auth_events ::
  "state_res_store \<Rightarrow> string \<Rightarrow> string list \<Rightarrow> (state_key \<times> event) list \<Rightarrow> event_map
     \<Rightarrow> ((state_key \<times> event) list \<times> event_map) result" where
  "cited_auth_events store room_id [] auth_events em = Inr (auth_events, em)"
| "cited_auth_events store room_id (aid # aids) auth_events em =
     rbind (get_event_or_none store room_id aid em) (\<lambda>(ev, em').
     case ev of
       None \<Rightarrow> cited_auth_events store room_id aids auth_events em'
     | Some e \<Rightarrow>
         if ev_rejected_reason e = None
         then rbind (state_key_pair e) (\<lambda>k. cited_auth_events store room_id aids (AList.update k e auth_events) em')
         else cited_auth_events store room_id aids auth_events em')"

text \<open>The auth events of the resolved state replace them.\<close>

fun resolved_auth_events ::
  "state_res_store \<Rightarrow> string \<Rightarrow> id_state \<Rightarrow> state_key list \<Rightarrow> (state_key \<times> event) list \<Rightarrow> event_map
     \<Rightarrow> ((state_key \<times> event) list \<times> event_map) result" where
  "resolved_auth_events store room_id resolved [] auth_events em = Inr (auth_events, em)"
| "resolved_auth_events store room_id resolved (key # keys) auth_events em =
     (case map_of resolved key of
        None \<Rightarrow> resolved_auth_events store room_id resolved keys auth_events em
      | Some ev_id \<Rightarrow>
          rbind (get_event store room_id ev_id em) (\<lambda>(e, em').
          if ev_rejected_reason e = None
          then resolved_auth_events store room_id resolved keys (AList.update key e auth_events) em'
          else resolved_auth_events store room_id resolved keys auth_events em'))"

text \<open>
  One iteration.  \<^verbatim>\<open>except AuthError: pass\<close> keeps the state; any other exception
  leaves the function.  The check may set the recheck flag on the event object, which the
  map holds.
\<close>

definition auth_check_event ::
  "sig_verifier \<Rightarrow> state_res_store \<Rightarrow> string \<Rightarrow> room_version \<Rightarrow> string \<Rightarrow> id_state \<times> event_map
     \<Rightarrow> (id_state \<times> event_map) result" where
  "auth_check_event vs store room_id rv event_id st =
     (case st of (resolved, em) \<Rightarrow>
        rbind (dict_item em event_id) (\<lambda>e.
        rbind (cited_auth_events store room_id (ev_auth_event_ids e) [] em) (\<lambda>(auth1, em1).
        rbind (auth_types_for_event rv e) (\<lambda>keys.
        rbind (resolved_auth_events store room_id resolved keys auth1 em1) (\<lambda>(auth2, em2).
        if ev_rejected_reason e \<noteq> None then Inr (resolved, em2)
        else
          (case check_state_dependent_auth_rules vs e (map snd auth2) of
             Inr e' \<Rightarrow> rbind (state_key_pair e) (\<lambda>k.
               Inr (AList.update k event_id resolved, AList.update event_id e' em2))
           | Inl err \<Rightarrow> if is_auth_error err then Inr (resolved, em2) else Inl err))))))"

definition iterative_auth_checks ::
  "sig_verifier \<Rightarrow> state_res_store \<Rightarrow> string \<Rightarrow> room_version \<Rightarrow> string list \<Rightarrow> id_state \<Rightarrow> event_map
     \<Rightarrow> (id_state \<times> event_map) result" where
  "iterative_auth_checks vs store room_id rv event_ids base_state em =
     rfold (auth_check_event vs store room_id rv) event_ids (base_state, em)"

section \<open>Mainline ordering\<close>

text \<open>The chain of power-levels events; an empty or missing ID ends the loop.\<close>

partial_function (option) mainline_loop ::
  "state_res_store \<Rightarrow> string \<Rightarrow> string option \<Rightarrow> string list \<Rightarrow> event_map
     \<Rightarrow> (string list \<times> event_map) run" where
  "mainline_loop store room_id pl mainline em =
     (if pl = None \<or> pl = Some [] then Some (Inr (mainline, em))
      else
        case rbind (get_event store room_id (the pl) em) (\<lambda>(pl_ev, em1).
               find_auth_event store room_id (EventTypes_PowerLevels, []) (ev_auth_event_ids pl_ev) em1) of
          Inl err \<Rightarrow> Some (Inl err)
        | Inr (found, em2) \<Rightarrow>
            mainline_loop store room_id (map_option fst found) (mainline @ [the pl]) em2)"

declare mainline_loop.simps [code]

text \<open>\<^verbatim>\<open>{ev_id: i + 1 for i, ev_id in enumerate(reversed(mainline))}\<close>.\<close>

definition mainline_positions :: "string list \<Rightarrow> (string \<times> nat) list" where
  "mainline_positions mainline = dict_update [] (zip (rev mainline) [1 ..< Suc (length mainline)])"

partial_function (option) get_mainline_depth_for_event ::
  "state_res_store \<Rightarrow> string \<Rightarrow> (string \<times> nat) list \<Rightarrow> event option \<Rightarrow> event_map
     \<Rightarrow> (nat \<times> event_map) run" where
  "get_mainline_depth_for_event store room_id mainline_map tmp_event em =
     (case tmp_event of
        None \<Rightarrow> Some (Inr (0, em))
      | Some e \<Rightarrow>
          (case map_of mainline_map (ev_event_id e) of
             Some depth \<Rightarrow> Some (Inr (depth, em))
           | None \<Rightarrow>
               (case find_auth_event store room_id (EventTypes_PowerLevels, []) (ev_auth_event_ids e) em of
                  Inl err \<Rightarrow> Some (Inl err)
                | Inr (found, em') \<Rightarrow>
                    get_mainline_depth_for_event store room_id mainline_map (map_option snd found) em')))"

declare get_mainline_depth_for_event.simps [code]

type_synonym mainline_order = "nat \<times> int \<times> string"

fun mainline_orders ::
  "state_res_store \<Rightarrow> (string \<times> nat) list \<Rightarrow> string list \<Rightarrow> event_map
     \<Rightarrow> ((string \<times> mainline_order) list \<times> event_map) run" where
  "mainline_orders store mainline_map [] em = Some (Inr ([], em))"
| "mainline_orders store mainline_map (ev_id # ev_ids) em =
     xbind (Some (dict_item em ev_id)) (\<lambda>e.
     xbind (get_mainline_depth_for_event store (ev_room_id e) mainline_map (Some e) em) (\<lambda>(depth, em1).
     xbind (mainline_orders store mainline_map ev_ids em1) (\<lambda>(orders, em2).
     Some (Inr ((ev_id, (depth, ev_origin_server_ts e, ev_id)) # orders, em2)))))"

definition mainline_sort ::
  "state_res_store \<Rightarrow> string \<Rightarrow> string list \<Rightarrow> string option \<Rightarrow> event_map
     \<Rightarrow> (string list \<times> event_map) run" where
  "mainline_sort store room_id event_ids resolved_power_event_id em =
     (if event_ids = [] then Some (Inr ([], em))
      else
        xbind (mainline_loop store room_id resolved_power_event_id [] em) (\<lambda>(mainline, em1).
        xbind (mainline_orders store (mainline_positions mainline) event_ids em1) (\<lambda>(orders, em2).
        Some (Inr (sort_key (\<lambda>i. the (map_of orders i)) event_ids, em2)))))"

section \<open>Resolution\<close>

definition check_rooms :: "string \<Rightarrow> event_map \<Rightarrow> unit result" where
  "check_rooms room_id em =
     for_each (\<lambda>e. guard_raise (ev_room_id e \<noteq> room_id)
       (PyException ''Attempting to state-resolve for room %s with event %s which is in %s'')) (map snd em)"

text \<open>The full conflicted set and the event map that holds its events.\<close>

definition full_conflicted ::
  "state_res_store \<Rightarrow> string \<Rightarrow> (state_key \<times> string list) list \<Rightarrow> string list \<Rightarrow> event_map
     \<Rightarrow> (string list \<times> event_map) result" where
  "full_conflicted store room_id conflicted auth_diff em =
     (let fcs = remdups (concat (map snd conflicted) @ auth_diff);
          em' = dict_update em (srs_get_events store (filter (\<lambda>i. \<not> dict_has em i) fcs))
      in rbind (check_rooms room_id em') (\<lambda>_. Inr (filter (dict_has em') fcs, em')))"

text \<open>The two passes over a full conflicted set.\<close>

definition resolve_conflicts ::
  "sig_verifier \<Rightarrow> state_res_store \<Rightarrow> string \<Rightarrow> room_version \<Rightarrow> id_state \<Rightarrow> string list \<Rightarrow> event_map
     \<Rightarrow> id_state run" where
  "resolve_conflicts vs store room_id rv unconflicted fcs em =
     xbind (reverse_topological_power_sort store room_id fcs em) (\<lambda>(pevs, em1).
     xbind (Some (iterative_auth_checks vs store room_id rv pevs unconflicted em1)) (\<lambda>(resolved, em2).
     xbind (mainline_sort store room_id (filter (\<lambda>i. i \<notin> set pevs) fcs)
              (map_of resolved (EventTypes_PowerLevels, [])) em2) (\<lambda>(leftover, em3).
     xbind (Some (iterative_auth_checks vs store room_id rv leftover resolved em3)) (\<lambda>(resolved', _).
     Some (Inr (dict_update resolved' unconflicted))))))"

definition resolve_events_with_store ::
  "sig_verifier \<Rightarrow> string \<Rightarrow> room_version \<Rightarrow> id_state list \<Rightarrow> event_map \<Rightarrow> state_res_store
     \<Rightarrow> id_state run" where
  "resolve_events_with_store vs room_id rv state_sets em store =
     (case separate state_sets of (unconflicted, conflicted) \<Rightarrow>
        if conflicted = [] then Some (Inr unconflicted)
        else
          xbind (get_auth_chain_difference store room_id state_sets em) (\<lambda>auth_diff.
          xbind (Some (full_conflicted store room_id conflicted auth_diff em)) (\<lambda>(fcs, em').
          resolve_conflicts vs store room_id rv unconflicted fcs em')))"

end
