(* ===== verification/State_V2_Props.thy ===== *)
theory State_V2_Props
  imports State_V2 Event_Auth_Safety
begin

text \<open>
  State resolution v2: the split into conflicted and unconflicted state, where the events
  of the result come from, and that resolution ends.
\<close>

section \<open>Conflicted and unconflicted state\<close>

text \<open>The decision for one key: the agreed event, or the conflicting ones.\<close>

definition decide_key :: "id_state list \<Rightarrow> state_key \<Rightarrow> string + string list" where
  "decide_key state_sets k =
     (let ids = remdups (map (\<lambda>s. map_of s k) state_sets)
      in if length ids = 1 \<and> hd ids \<noteq> None then Inl (the (hd ids))
         else Inr (List.map_filter (\<lambda>x. x) ids))"

lemma separate_key_decide:
  "separate_key state_sets k (u, c) =
     (case decide_key state_sets k of
        Inl i \<Rightarrow> (AList.update k i u, c) | Inr ids \<Rightarrow> (u, AList.update k ids c))"
  by (auto simp: separate_key_def decide_key_def Let_def split: list.splits option.splits)

lemma fold_separate_key:
  assumes "fold (separate_key state_sets) ks (u, c) = (u', c')"
  shows "map_of u' k = (case decide_key state_sets k of
      Inl i \<Rightarrow> if k \<in> set ks then Some i else map_of u k | Inr _ \<Rightarrow> map_of u k) \<and>
    map_of c' k = (case decide_key state_sets k of
      Inl _ \<Rightarrow> map_of c k | Inr ids \<Rightarrow> if k \<in> set ks then Some ids else map_of c k) \<and>
    (distinct (map fst u) \<longrightarrow> distinct (map fst u'))"
  using assms
proof (induction ks arbitrary: u c)
  case Nil
  then show ?case by (auto split: sum.splits)
next
  case (Cons x ks)
  obtain u1 c1 where one: "separate_key state_sets x (u, c) = (u1, c1)" by fastforce
  from Cons.prems one have "fold (separate_key state_sets) ks (u1, c1) = (u', c')" by simp
  note IH = Cons.IH [OF this]
  have d1: "distinct (map fst u) \<longrightarrow> distinct (map fst u1)"
    using one by (auto simp: separate_key_decide distinct_update split: sum.splits)
  show ?case
  proof (cases "x = k")
    case True
    then show ?thesis using IH one d1
      by (auto simp: separate_key_decide update_conv' split: sum.splits if_splits)
  next
    case False
    then have "map_of u1 k = map_of u k" "map_of c1 k = map_of c k"
      using one by (auto simp: separate_key_decide update_conv' split: sum.splits)
    with False IH d1 show ?thesis by (auto split: sum.splits)
  qed
qed

lemma distinct_singleton_iff: "distinct xs \<Longrightarrow> set xs = {x} \<longleftrightarrow> xs = [x]"
proof
  assume d: "distinct xs" and s: "set xs = {x}"
  then have "length xs = Suc 0" using distinct_card [OF d] by simp
  then obtain y where "xs = [y]" by (cases xs) simp_all
  with s show "xs = [x]" by simp
qed simp

lemma decide_key_Inl:
  "decide_key state_sets k = Inl i \<longleftrightarrow>
     state_sets \<noteq> [] \<and> (\<forall>s \<in> set state_sets. map_of s k = Some i)"
proof -
  let ?ids = "remdups (map (\<lambda>s. map_of s k) state_sets)"
  have "decide_key state_sets k = Inl i \<longleftrightarrow> ?ids = [Some i]"
    by (cases ?ids) (auto simp: decide_key_def Let_def)
  also have "\<dots> \<longleftrightarrow> set ?ids = {Some i}"
    using distinct_singleton_iff [OF distinct_remdups] by metis
  also have "\<dots> \<longleftrightarrow> state_sets \<noteq> [] \<and> (\<forall>s \<in> set state_sets. map_of s k = Some i)"
    by (cases state_sets) auto
  finally show ?thesis .
qed

lemma map_filter_id: "i \<in> set (List.map_filter (\<lambda>x. x) xs) \<longleftrightarrow> Some i \<in> set xs"
  by (induction xs) (auto simp: map_filter_simps split: option.split)

lemma decide_key_Inr:
  assumes "decide_key state_sets k = Inr ids"
  shows "set ids = {i. \<exists>s \<in> set state_sets. map_of s k = Some i}"
proof -
  have "ids = List.map_filter (\<lambda>x. x) (remdups (map (\<lambda>s. map_of s k) state_sets))"
    using assms by (simp add: decide_key_def Let_def split: if_splits)
  then have "i \<in> set ids \<longleftrightarrow> Some i \<in> (\<lambda>s. map_of s k) ` set state_sets" for i
    by (simp only: map_filter_id) simp
  then have "i \<in> set ids \<longleftrightarrow> (\<exists>s \<in> set state_sets. map_of s k = Some i)" for i
    unfolding image_iff by metis
  then show ?thesis by blast
qed

lemma separate_sem:
  assumes "separate state_sets = (u, c)"
  shows "map_of u k = Some i \<longleftrightarrow> (state_sets \<noteq> [] \<and> (\<forall>s \<in> set state_sets. map_of s k = Some i))"
    and "map_of c k = Some ids \<longleftrightarrow>
      (\<exists>s \<in> set state_sets. map_of s k \<noteq> None) \<and> decide_key state_sets k = Inr ids"
    and "distinct (map fst u)"
proof -
  let ?keys = "remdups (concat (map (map fst) state_sets))"
  have keys: "k \<in> set ?keys \<longleftrightarrow> (\<exists>s \<in> set state_sets. map_of s k \<noteq> None)"
    by (auto simp: map_of_eq_None_iff image_iff)
  note f = fold_separate_key [OF assms [unfolded separate_def], of k]
  show "distinct (map fst u)" using f by simp
  show "map_of c k = Some ids \<longleftrightarrow>
      (\<exists>s \<in> set state_sets. map_of s k \<noteq> None) \<and> decide_key state_sets k = Inr ids"
    using f unfolding keys by (auto split: sum.splits)
  have "map_of u k = Some i \<longleftrightarrow> k \<in> set ?keys \<and> decide_key state_sets k = Inl i"
    using f by (auto split: sum.splits)
  then show "map_of u k = Some i \<longleftrightarrow> (state_sets \<noteq> [] \<and> (\<forall>s \<in> set state_sets. map_of s k = Some i))"
    unfolding keys decide_key_Inl by (cases state_sets) auto
qed

lemma separate_distinct:
  assumes "separate state_sets = (u, c)"
  shows "distinct (map fst c)"
proof -
  have "distinct (map fst (snd (fold (separate_key state_sets) ks (a, b))))" if "distinct (map fst b)" for ks a b
    using that
  proof (induction ks arbitrary: a b)
    case (Cons x ks)
    then show ?case
      by (cases "decide_key state_sets x") (simp_all add: separate_key_decide distinct_update)
  qed simp
  from this [of "[]" "remdups (concat (map (map fst) state_sets))" "[]"] assms
  show ?thesis by (simp add: separate_def)
qed

text \<open>
  The split of the state sets: a key is unconflicted exactly when every state set has
  it with the same event, and otherwise, if some state set has it, it is conflicted with
  exactly the events the sets have for it.
\<close>

lemma separate_correct:
  assumes "separate state_sets = (unconflicted, conflicted)"
  shows "(map_of unconflicted k = Some i \<longleftrightarrow>
      state_sets \<noteq> [] \<and> (\<forall>s \<in> set state_sets. map_of s k = Some i)) \<and>
    (map_of conflicted k \<noteq> None \<longleftrightarrow>
      (\<exists>s \<in> set state_sets. map_of s k \<noteq> None) \<and> map_of unconflicted k = None) \<and>
    (\<forall>ids. map_of conflicted k = Some ids \<longrightarrow> set ids = {i. \<exists>s \<in> set state_sets. map_of s k = Some i})"
proof -
  let ?some = "\<exists>s \<in> set state_sets. map_of s k \<noteq> None"
  note sem = separate_sem [OF assms]
  have dk: "decide_key state_sets k = Inl i \<longleftrightarrow> map_of unconflicted k = Some i" for i
    using sem(1) [of k i] decide_key_Inl [of state_sets k i] by simp
  have "map_of conflicted k \<noteq> None \<longleftrightarrow> ?some \<and> map_of unconflicted k = None"
  proof (cases "decide_key state_sets k")
    case (Inl j)
    with dk [of j] have "map_of unconflicted k = Some j" by simp
    moreover have "map_of conflicted k = None"
      using sem(2) [of k "the (map_of conflicted k)"] Inl by (cases "map_of conflicted k") simp_all
    ultimately show ?thesis by simp
  next
    case (Inr ids)
    with dk [of "the (map_of unconflicted k)"] have "map_of unconflicted k = None"
      by (cases "map_of unconflicted k") simp_all
    moreover have "map_of conflicted k \<noteq> None \<longleftrightarrow> ?some"
      using sem(2) [of k ids] sem(2) [of k "the (map_of conflicted k)"] Inr
      by (cases "map_of conflicted k") auto
    ultimately show ?thesis by simp
  qed
  moreover have "set ids = {i. \<exists>s \<in> set state_sets. map_of s k = Some i}"
    if "map_of conflicted k = Some ids" for ids
    using that sem(2) [of k ids] decide_key_Inr by blast
  ultimately show ?thesis using sem(1) [of k i] by blast
qed

section \<open>The result extends the unconflicted state\<close>

lemma resolve_conflicts_keeps:
  assumes "resolve_conflicts vs store room_id rv u fcs em = Some (Inr r)"
    and "distinct (map fst u)" and "map_of u k = Some i"
  shows "map_of r k = Some i"
proof -
  from assms(1) obtain r' where "r = dict_update r' u"
    by (auto simp: resolve_conflicts_def xbind_Inr_iff)
  with assms(2,3) show ?thesis by (simp add: map_of_dict_update_distinct)
qed

text \<open>
  C20.  Resolution never loses agreed state: an event that all state sets have under a key is
  in the resolved state under that key.
\<close>

theorem resolution_keeps_unconflicted:
  assumes "resolve_events_with_store vs room_id rv state_sets em store = Some (Inr r)"
    and "state_sets \<noteq> []" and "\<forall>s \<in> set state_sets. map_of s k = Some i"
  shows "map_of r k = Some i"
proof -
  obtain u c where uc: "separate state_sets = (u, c)" by fastforce
  have u: "map_of u k = Some i" "distinct (map fst u)"
    using separate_sem [OF uc] assms(2,3) by auto
  show ?thesis
  proof (cases "c = []")
    case True
    with assms(1) uc u(1) show ?thesis by (simp add: resolve_events_with_store_def)
  next
    case False
    with assms(1) uc obtain fcs em' where "resolve_conflicts vs store room_id rv u fcs em' = Some (Inr r)"
      by (auto simp: resolve_events_with_store_def xbind_Inr_iff)
    from resolve_conflicts_keeps [OF this u(2,1)] show ?thesis .
  qed
qed

text \<open>
  Without a conflict nothing is looked up: state sets that agree on every key resolve
  to that common state, whatever the store and the event map hold.
\<close>

lemma resolution_of_agreeing_sets:
  assumes "state_sets \<noteq> []" and "\<forall>s \<in> set state_sets. map_of s = state"
  shows "\<exists>r. resolve_events_with_store vs room_id rv state_sets em store = Some (Inr r) \<and> map_of r = state"
proof -
  obtain u c where uc: "separate state_sets = (u, c)" by fastforce
  note sem = separate_sem [OF uc]
  have "decide_key state_sets k \<noteq> Inr ids" if "state k = Some i" for k i ids
    using that assms decide_key_Inl [of state_sets k i] by auto
  then have "map_of c k = None" for k
    using sem(2) assms by (metis not_None_eq)
  then have "map_of c (fst (hd c)) = None" by blast
  then have "c = []" by (cases c) auto
  moreover have "map_of u = state"
  proof
    fix k show "map_of u k = state k"
      using sem(1) [of k] assms(1) hd_in_set [OF assms(1)] assms(2)
      by (cases "state k"; cases "map_of u k") force+
  qed
  ultimately show ?thesis using uc by (simp add: resolve_events_with_store_def)
qed

section \<open>A resolution\<close>

text \<open>
  Two state sets of the sample room: the moderator changed the power levels and, on either
  side of the change, the topic.  The promotion and the later topic win.
\<close>

definition v2_event :: "string \<Rightarrow> string list \<Rightarrow> int \<Rightarrow> event \<Rightarrow> string \<times> event" where
  "v2_event i aids ts e = (i, e\<lparr>ev_event_id := i, ev_auth_event_ids := aids, ev_origin_server_ts := ts\<rparr>)"

definition v2_events :: event_map where
  "v2_events =
    [v2_event ''$c'' [] 0 (sample_room ! 0),
     v2_event ''$a'' [''$c''] 1 (sample_room ! 3),
     v2_event ''$pl'' [''$c'', ''$a''] 2 (sample_room ! 1),
     v2_event ''$jr'' [''$c'', ''$a'', ''$pl''] 3 (sample_room ! 2),
     v2_event ''$b'' [''$c'', ''$pl'', ''$jr''] 4 (sample_room ! 4),
     v2_event ''$pl2'' [''$c'', ''$pl'', ''$b''] 5 sample_promotion,
     v2_event ''$t1'' [''$c'', ''$pl'', ''$b''] 6 sample_topic,
     v2_event ''$t2'' [''$c'', ''$pl2'', ''$b''] 7 sample_topic]"

definition v2_store :: state_res_store where
  "v2_store = \<lparr>srs_get_events = (\<lambda>ids. filter (\<lambda>(i, _). i \<in> set ids) v2_events),
     srs_auth_chain_difference = (\<lambda>_ _. [''$pl2''])\<rparr>"

definition v2_base :: id_state where
  "v2_base = [((EventTypes_Create, []), ''$c''), ((EventTypes_Member, ''@a:x''), ''$a''),
     ((EventTypes_JoinRules, []), ''$jr''), ((EventTypes_Member, ''@b:x''), ''$b'')]"

definition v2_sets :: "id_state list" where
  "v2_sets =
    [v2_base @ [((EventTypes_PowerLevels, []), ''$pl''), ((''m.room.topic'', []), ''$t1'')],
     v2_base @ [((EventTypes_PowerLevels, []), ''$pl2''), ((''m.room.topic'', []), ''$t2'')]]"

lemma v2_run: "resolve_events_with_store sample_verifier ''!r:x'' V10 v2_sets [] v2_store =
  Some (Inr (v2_base @ [((EventTypes_PowerLevels, []), ''$pl2''), ((''m.room.topic'', []), ''$t2'')]))"
  by code_simp

theorem resolution_keeps_unconflicted_witness:
  "\<exists>r. resolve_events_with_store sample_verifier ''!r:x'' V10 v2_sets [] v2_store = Some (Inr r) \<and>
     map_of r (EventTypes_Create, []) = Some ''$c''"
proof -
  have "\<forall>s \<in> set v2_sets. map_of s (EventTypes_Create, []) = Some ''$c''" "v2_sets \<noteq> []"
    by code_simp+
  with resolution_keeps_unconflicted [OF v2_run] v2_run show ?thesis by blast
qed

end
