(* ===== verification/State_V2_Power_Sort.thy ===== *)
theory State_V2_Power_Sort
  imports State_V2_Props
begin

text \<open>
  The reverse topological power sort of state resolution v2: the graph it builds is the part
  of the full conflicted set that the power events reach through auth references, it is
  built in finitely many steps, and the order is the greedy order of that graph.
\<close>

section \<open>Building the graph\<close>

lemma nodes_of_dict_has: "n \<in> nodes_of g \<longleftrightarrow> dict_has g n"
  by (simp add: nodes_of_def dict_has_iff)

lemma distinct_keys_dict [simp]:
  "distinct (map fst g) \<Longrightarrow> distinct (map fst (dict_add_to g k v))"
  "distinct (map fst g) \<Longrightarrow> distinct (map fst (dict_setdefault g k vs))"
  by (simp_all add: dict_add_to_def dict_setdefault_def distinct_update)

lemma deps_of_setdefault [simp]: "deps_of (dict_setdefault g k []) n = deps_of g n"
  by (simp add: deps_of_def)

lemma visit_auth_ids:
  assumes "fold (visit_auth_id fcs eid) aids (g, stack) = (g', stack')" and "dict_has g eid"
  shows "(\<forall>n. dict_has g' n = dict_has g n) \<and>
    (\<forall>n. deps_of g' n = deps_of g n \<union> (if n = eid then set aids \<inter> set fcs else {})) \<and>
    (distinct (map fst g) \<longrightarrow> distinct (map fst g')) \<and>
    (\<exists>new. stack' = new @ stack \<and> set new = {a \<in> set aids \<inter> set fcs. \<not> dict_has g a})"
  using assms
proof (induction aids arbitrary: g stack)
  case (Cons a aids)
  obtain g1 st1 where one: "visit_auth_id fcs eid a (g, stack) = (g1, st1)" by fastforce
  with Cons.prems have rest: "fold (visit_auth_id fcs eid) aids (g1, st1) = (g', stack')" by simp
  have h: "dict_has g1 n = dict_has g n" for n
    using one Cons.prems(2) by (auto simp: visit_auth_id_def split: if_splits)
  have dp: "deps_of g1 n = deps_of g n \<union> (if n = eid then {a} \<inter> set fcs else {})" for n
    using one by (auto simp: visit_auth_id_def deps_of_def dict_get_list_add_to split: if_splits)
  have st: "st1 = (if a \<in> set fcs \<and> \<not> dict_has g a then [a] else []) @ stack"
    using one by (auto simp: visit_auth_id_def split: if_splits)
  have di: "distinct (map fst g) \<Longrightarrow> distinct (map fst g1)"
    using one by (auto simp: visit_auth_id_def split: if_splits)
  from Cons.IH [OF rest] h Cons.prems(2) obtain new where
    IH: "\<forall>n. dict_has g' n = dict_has g1 n"
      "\<forall>n. deps_of g' n = deps_of g1 n \<union> (if n = eid then set aids \<inter> set fcs else {})"
      "distinct (map fst g1) \<longrightarrow> distinct (map fst g')"
      "stack' = new @ st1" "set new = {a \<in> set aids \<inter> set fcs. \<not> dict_has g1 a}" by auto
  have "stack' = (new @ (if a \<in> set fcs \<and> \<not> dict_has g a then [a] else [])) @ stack \<and>
      set (new @ (if a \<in> set fcs \<and> \<not> dict_has g a then [a] else [])) =
        {x \<in> set (a # aids) \<inter> set fcs. \<not> dict_has g x}"
    using IH(4,5) st h by auto
  moreover have "\<forall>n. deps_of g' n = deps_of g n \<union> (if n = eid then set (a # aids) \<inter> set fcs else {})"
    using IH(2) dp by auto
  ultimately show ?case using IH(1,3) h di by blast
qed auto

text \<open>The auth references of an event within the full conflicted set.\<close>

definition auth_edges :: "event_map \<Rightarrow> string list \<Rightarrow> string \<Rightarrow> string set" where
  "auth_edges em fcs n = (case map_of em n of None \<Rightarrow> {} | Some e \<Rightarrow> set (ev_auth_event_ids e) \<inter> set fcs)"

text \<open>What holds of the graph and the stack while the search runs.\<close>

definition search_inv :: "event_map \<Rightarrow> string list \<Rightarrow> string graph \<Rightarrow> string list \<Rightarrow> bool" where
  "search_inv em fcs g stack \<longleftrightarrow> distinct (map fst g) \<and> set stack \<subseteq> set fcs \<and> nodes_of g \<subseteq> set fcs \<and>
     (\<forall>n \<in> nodes_of g. deps_of g n = auth_edges em fcs n) \<and>
     (\<forall>n \<in> nodes_of g. auth_edges em fcs n \<subseteq> nodes_of g \<union> set stack) \<and>
     (\<forall>xs n ys. stack = xs @ n # ys \<longrightarrow> n \<in> nodes_of g \<longrightarrow> auth_edges em fcs n \<subseteq> nodes_of g \<union> set xs)"

lemma split_behind:
  "new @ rest = xs @ n # ys \<Longrightarrow> n \<notin> set new \<Longrightarrow> \<exists>zs. xs = new @ zs \<and> rest = zs @ n # ys"
proof (induction new arbitrary: xs)
  case (Cons x new)
  then show ?case by (cases xs) auto
qed simp

lemma search_step:
  assumes inv: "search_inv em fcs g (eid # rest)" and e: "map_of em eid = Some e"
    and step: "fold (visit_auth_id fcs eid) (ev_auth_event_ids e) (dict_setdefault g eid [], rest) = (g', stack')"
  shows "search_inv em fcs g' stack'" and "nodes_of g' = insert eid (nodes_of g)"
    and "\<exists>new. stack' = new @ rest \<and> set new = auth_edges em fcs eid - nodes_of g'"
proof -
  let ?E = "auth_edges em fcs"
  have E: "?E eid = set (ev_auth_event_ids e) \<inter> set fcs" using e by (simp add: auth_edges_def)
  have "dict_has (dict_setdefault g eid []) eid" by simp
  note v = visit_auth_ids [OF step this]
  have has: "dict_has g' n \<longleftrightarrow> n = eid \<or> dict_has g n" for n
    using conjunct1 [OF v] by simp
  have deps: "deps_of g' n = deps_of g n \<union> (if n = eid then ?E eid else {})" for n
    using conjunct1 [OF conjunct2 [OF v]] by (simp add: E)
  have dist: "distinct (map fst (dict_setdefault g eid [])) \<longrightarrow> distinct (map fst g')"
    using v by blast
  from v E obtain new where new: "stack' = new @ rest"
    "set new = {a \<in> ?E eid. \<not> dict_has (dict_setdefault g eid []) a}" by metis
  show nodes: "nodes_of g' = insert eid (nodes_of g)"
    by (simp add: set_eq_iff nodes_of_dict_has has)
  have new': "set new = ?E eid - nodes_of g'"
    by (simp add: set_eq_iff nodes_of_dict_has has new(2))
  then show "\<exists>new. stack' = new @ rest \<and> set new = ?E eid - nodes_of g'" using new(1) by blast
  have i: "distinct (map fst g)" "set (eid # rest) \<subseteq> set fcs" "nodes_of g \<subseteq> set fcs"
    "\<forall>n \<in> nodes_of g. deps_of g n = ?E n" "\<forall>n \<in> nodes_of g. ?E n \<subseteq> nodes_of g \<union> set (eid # rest)"
    using inv unfolding search_inv_def by blast+
  have "deps_of g eid \<subseteq> ?E eid"
    using i(4) by (cases "dict_has g eid") (auto simp: nodes_of_dict_has deps_of_def dict_get_list_def dict_has_def)
  then have c1: "\<forall>n \<in> nodes_of g'. deps_of g' n = ?E n"
    using i(4) unfolding nodes deps by auto
  have c2: "\<forall>n \<in> nodes_of g'. ?E n \<subseteq> nodes_of g' \<union> set stack'"
    using i(5) new' unfolding new(1) nodes by auto
  have c3: "distinct (map fst g')" "set stack' \<subseteq> set fcs" "nodes_of g' \<subseteq> set fcs"
    using i(1-3) dist new' E unfolding new(1) nodes by auto
  have "?E n \<subseteq> nodes_of g' \<union> set xs" if "stack' = xs @ n # ys" "n \<in> nodes_of g'" for xs n ys
  proof -
    from that new' have "n \<notin> set new" by blast
    with that(1) new(1) obtain zs where zs: "xs = new @ zs" "rest = zs @ n # ys"
      using split_behind [of new rest xs n ys] by auto
    show ?thesis
    proof (cases "n = eid")
      case True
      with new' zs(1) show ?thesis by auto
    next
      case False
      with that(2) nodes have "n \<in> nodes_of g" by simp
      moreover have "eid # rest = (eid # zs) @ n # ys" using zs(2) by simp
      ultimately have "?E n \<subseteq> nodes_of g \<union> set (eid # zs)"
        using inv unfolding search_inv_def by blast
      with nodes zs(1) show ?thesis by auto
    qed
  qed
  with c1 c2 c3 show "search_inv em fcs g' stack'" unfolding search_inv_def by blast
qed

text \<open>References and reachability between events of the full conflicted set.\<close>

definition auth_rel :: "event_map \<Rightarrow> string list \<Rightarrow> (string \<times> string) set" where
  "auth_rel em fcs = {(n, a). a \<in> auth_edges em fcs n}"

lemma get_event_cached:
  assumes "dict_has em i"
  shows "get_event store r i em = Inl (PyException ''In state res for room %s, event %s is in %s'') \<or>
    (\<exists>e. map_of em i = Some e \<and> get_event store r i em = Inr (e, em))"
  using assms by (auto simp: get_event_def get_event_or_none_def dict_has_def)

text \<open>What the search guarantees when it has ended without an exception.\<close>

definition searched ::
  "event_map \<Rightarrow> string list \<Rightarrow> string graph \<Rightarrow> string set \<Rightarrow> (string graph \<times> event_map) result \<Rightarrow> bool" where
  "searched em fcs g roots res \<longleftrightarrow>
     (\<forall>g' em'. res = Inr (g', em') \<longrightarrow> em' = em \<and> search_inv em fcs g' [] \<and>
        nodes_of g \<union> roots \<subseteq> nodes_of g' \<and> nodes_of g' \<subseteq> nodes_of g \<union> (auth_rel em fcs)\<^sup>* `` roots)"

lemma searched_step:
  assumes "searched em fcs g' (set stack') res" and "nodes_of g' = insert eid (nodes_of g)"
    and "stack' = new @ rest" and "set new = auth_edges em fcs eid - nodes_of g'"
  shows "searched em fcs g (set (eid # rest)) res"
proof -
  have "set stack' \<subseteq> (auth_rel em fcs)\<^sup>* `` set (eid # rest)"
    using assms(3,4) by (auto simp: auth_rel_def)
  then have "(auth_rel em fcs)\<^sup>* `` set stack' \<subseteq> (auth_rel em fcs)\<^sup>* `` set (eid # rest)"
    by (auto intro: rtrancl_trans)
  moreover have "eid \<in> (auth_rel em fcs)\<^sup>* `` set (eid # rest)" by auto
  ultimately have up: "insert eid (nodes_of g) \<union> (auth_rel em fcs)\<^sup>* `` set stack' \<subseteq>
      nodes_of g \<union> (auth_rel em fcs)\<^sup>* `` set (eid # rest)" by blast
  have low: "nodes_of g \<union> set (eid # rest) \<subseteq> nodes_of g' \<union> set stack'" using assms(2,3) by auto
  show ?thesis
    unfolding searched_def
  proof (intro allI impI)
    fix g'' em'' assume "res = Inr (g'', em'')"
    with assms(1) have g'': "em'' = em" "search_inv em fcs g'' []" "nodes_of g' \<union> set stack' \<subseteq> nodes_of g''"
      "nodes_of g'' \<subseteq> nodes_of g' \<union> (auth_rel em fcs)\<^sup>* `` set stack'"
      unfolding searched_def by blast+
    show "em'' = em \<and> search_inv em fcs g'' [] \<and> nodes_of g \<union> set (eid # rest) \<subseteq> nodes_of g'' \<and>
      nodes_of g'' \<subseteq> nodes_of g \<union> (auth_rel em fcs)\<^sup>* `` set (eid # rest)"
      using g''(1,2) order_trans [OF low g''(3)] order_trans [OF g''(4) [unfolded assms(2)] up] by blast
  qed
qed

lemma add_event_ends:
  assumes "search_inv em fcs g stack" and dom: "\<forall>i \<in> set fcs. dict_has em i"
  shows "\<exists>res. add_event_and_auth_chain_to_graph store r fcs stack g em = Some res \<and>
    searched em fcs g (set stack) res"
  using assms(1)
proof (induction "(card (set fcs - nodes_of g), length stack)" arbitrary: g stack
    rule: wf_induct_rule [OF wf_lex_prod [OF wf_less_than wf_less_than]])
  case 1
  show ?case
  proof (cases stack)
    case Nil
    with 1(2) show ?thesis
      by (subst add_event_and_auth_chain_to_graph.simps) (simp add: searched_def)
  next
    case (Cons eid rest)
    have eid: "eid \<in> set fcs" using 1(2) Cons by (simp add: search_inv_def)
    with dom have "dict_has em eid" by blast
    from get_event_cached [OF this, of store r] show ?thesis
    proof
      assume "get_event store r eid em = Inl (PyException ''In state res for room %s, event %s is in %s'')"
      then show ?thesis
        using Cons by (subst add_event_and_auth_chain_to_graph.simps) (simp add: searched_def)
    next
      assume "\<exists>e. map_of em eid = Some e \<and> get_event store r eid em = Inr (e, em)"
      then obtain e where e: "map_of em eid = Some e" "get_event store r eid em = Inr (e, em)" by blast
      obtain g' stack' where
        step: "fold (visit_auth_id fcs eid) (ev_auth_event_ids e) (dict_setdefault g eid [], rest) = (g', stack')"
        by fastforce
      note s = search_step [OF 1(2) [unfolded Cons] e(1) step]
      from s(3) obtain new where new: "stack' = new @ rest" "set new = auth_edges em fcs eid - nodes_of g'" by blast
      have less: "((card (set fcs - nodes_of g'), length stack'), (card (set fcs - nodes_of g), length stack))
          \<in> less_than <*lex*> less_than"
      proof (cases "eid \<in> nodes_of g")
        case True
        have "auth_edges em fcs eid \<subseteq> nodes_of g \<union> set []"
          using 1(2) True unfolding search_inv_def Cons by blast
        then have "set new = {}" unfolding new(2) s(2) by (simp add: subset_insertI2)
        then have "new = []" by simp
        then have "length stack' < length stack" using new(1) Cons by simp
        moreover have "nodes_of g' = nodes_of g" by (simp only: s(2) insert_absorb [OF True])
        ultimately show ?thesis by simp
      next
        case False
        with eid have "eid \<in> set fcs - nodes_of g" by simp
        moreover have "set fcs - nodes_of g' = set fcs - nodes_of g - {eid}"
          unfolding s(2) by (rule Diff_insert)
        ultimately have "card (set fcs - nodes_of g') < card (set fcs - nodes_of g)"
          by (simp only: card_Diff1_less finite_Diff finite_set)
        then show ?thesis by simp
      qed
      from 1(1) [OF less s(1)] obtain res where
        res: "add_event_and_auth_chain_to_graph store r fcs stack' g' em = Some res"
        and ok: "searched em fcs g' (set stack') res" by blast
      have "add_event_and_auth_chain_to_graph store r fcs stack g em = Some res"
        using Cons e(2) step res by (subst add_event_and_auth_chain_to_graph.simps) simp
      moreover have "searched em fcs g (set stack) res"
        using searched_step [OF ok s(2) new] Cons by simp
      ultimately show ?thesis by blast
    qed
  qed
qed

text \<open>The events the generator of \<open>resolve_events_with_store\<close> selects.\<close>

definition power_event_in :: "event_map \<Rightarrow> string \<Rightarrow> bool" where
  "power_event_in em i \<longleftrightarrow> (\<exists>e. map_of em i = Some e \<and> is_power_event e = Inr True)"

lemma search_inv_root:
  "search_inv em fcs g [] \<Longrightarrow> eid \<in> set fcs \<Longrightarrow> search_inv em fcs g [eid]"
  unfolding search_inv_def by (auto simp: Cons_eq_append_conv)

lemma power_graph_ends:
  assumes "search_inv em fcs g []" and dom: "\<forall>i \<in> set fcs. dict_has em i" and "set eids \<subseteq> set fcs"
  shows "\<exists>res. power_graph store r fcs eids g em = Some res \<and>
    searched em fcs g {i \<in> set eids. power_event_in em i} res"
  using assms(1,3)
proof (induction eids arbitrary: g)
  case Nil
  then show ?case by (simp add: searched_def)
next
  case (Cons eid eids)
  from Cons.prems(2) dom obtain e where e: "map_of em eid = Some e"
    by (auto simp: dict_has_def)
  consider err where "is_power_event e = Inl err" | "is_power_event e = Inr False" | "is_power_event e = Inr True"
    by (cases "is_power_event e") auto
  then show ?case
  proof cases
    case 1
    then show ?thesis using e by (simp add: dict_item_def searched_def)
  next
    case 2
    then have "{i \<in> set (eid # eids). power_event_in em i} = {i \<in> set eids. power_event_in em i}"
      using e by (auto simp: power_event_in_def)
    with 2 e Cons show ?thesis by (simp add: dict_item_def)
  next
    case 3
    from Cons.prems(2) have "eid \<in> set fcs" by simp
    from add_event_ends [OF search_inv_root [OF Cons.prems(1) this] dom, of store r]
    obtain res where res: "add_event_and_auth_chain_to_graph store r fcs [eid] g em = Some res"
      "searched em fcs g {eid} res" by auto
    show ?thesis
    proof (cases res)
      case (Inl err)
      with 3 e res(1) show ?thesis by (simp add: dict_item_def searched_def)
    next
      case (Inr p)
      obtain g1 em1 where p: "p = (g1, em1)" by (cases p)
      with res(2) Inr have g1: "em1 = em" "search_inv em fcs g1 []" "nodes_of g \<union> {eid} \<subseteq> nodes_of g1"
        "nodes_of g1 \<subseteq> nodes_of g \<union> (auth_rel em fcs)\<^sup>* `` {eid}" by (auto simp: searched_def)
      from Cons.IH [OF g1(2)] Cons.prems(2) obtain res' where
        res': "power_graph store r fcs eids g1 em = Some res'"
        and ok: "searched em fcs g1 {i \<in> set eids. power_event_in em i} res'" by auto
      have roots: "{i \<in> set (eid # eids). power_event_in em i} = insert eid {i \<in> set eids. power_event_in em i}"
        using e 3 by (auto simp: power_event_in_def)
      have "searched em fcs g {i \<in> set (eid # eids). power_event_in em i} res'"
        unfolding roots searched_def
      proof (intro allI impI)
        fix g' em' assume "res' = Inr (g', em')"
        with ok have "em' = em" "search_inv em fcs g' []"
          "nodes_of g1 \<union> {i \<in> set eids. power_event_in em i} \<subseteq> nodes_of g'"
          "nodes_of g' \<subseteq> nodes_of g1 \<union> (auth_rel em fcs)\<^sup>* `` {i \<in> set eids. power_event_in em i}"
          unfolding searched_def by blast+
        with g1(3,4) show "em' = em \<and> search_inv em fcs g' [] \<and>
          nodes_of g \<union> insert eid {i \<in> set eids. power_event_in em i} \<subseteq> nodes_of g' \<and>
          nodes_of g' \<subseteq> nodes_of g \<union> (auth_rel em fcs)\<^sup>* `` insert eid {i \<in> set eids. power_event_in em i}"
          by blast
      qed
      with 3 e res(1) res' Inr p g1(1) show ?thesis by (simp add: dict_item_def)
    qed
  qed
qed

lemma search_inv_empty: "search_inv em fcs [] []"
  by (simp add: search_inv_def nodes_of_def)

text \<open>A graph that is closed under references and within the reach of its roots is that reach.\<close>

lemma searched_reach:
  assumes "searched em fcs [] roots (Inr (g', em'))"
  shows "nodes_of g' = (auth_rel em fcs)\<^sup>* `` roots"
    and "\<And>n. n \<in> nodes_of g' \<Longrightarrow> deps_of g' n = auth_edges em fcs n"
    and "distinct (map fst g')" and "nodes_of g' \<subseteq> set fcs" and "em' = em"
proof -
  have inv: "search_inv em fcs g' []" and r: "roots \<subseteq> nodes_of g'" and "em' = em"
    and sub: "nodes_of g' \<subseteq> (auth_rel em fcs)\<^sup>* `` roots"
    using assms by (auto simp: searched_def nodes_of_def)
  then show "em' = em" "\<And>n. n \<in> nodes_of g' \<Longrightarrow> deps_of g' n = auth_edges em fcs n"
    "distinct (map fst g')" "nodes_of g' \<subseteq> set fcs"
    unfolding search_inv_def by blast+
  have closed: "auth_edges em fcs n \<subseteq> nodes_of g'" if "n \<in> nodes_of g'" for n
    using inv that unfolding search_inv_def by auto
  have "m \<in> nodes_of g'" if "(n, m) \<in> (auth_rel em fcs)\<^sup>*" "n \<in> nodes_of g'" for n m
    using that by (induction rule: rtrancl_induct) (use closed in \<open>auto simp: auth_rel_def\<close>)
  with r sub show "nodes_of g' = (auth_rel em fcs)\<^sup>* `` roots" by blast
qed

section \<open>The order\<close>

lemma greedy_order_cong:
  "(\<And>n. n \<in> A \<Longrightarrow> deps n = deps' n) \<Longrightarrow> greedy_order A deps prio D xs = greedy_order A deps' prio D xs"
proof (induction xs arbitrary: D)
  case Nil
  then show ?case by (auto simp: available_def)
next
  case (Cons x xs)
  then have "available A deps D = available A deps' D" by (auto simp: available_def)
  with Cons show ?case by simp
qed

text \<open>The events that the sort is about: the power events and what they reference, transitively.\<close>

definition power_reach :: "event_map \<Rightarrow> string list \<Rightarrow> string set" where
  "power_reach em fcs = (auth_rel em fcs)\<^sup>* `` {i \<in> set fcs. power_event_in em i}"

lemma power_reach_closed: "n \<in> power_reach em fcs \<Longrightarrow> auth_edges em fcs n \<subseteq> power_reach em fcs"
  by (auto simp: power_reach_def auth_rel_def intro: rtrancl_into_rtrancl)

lemma power_reach_subset: "power_reach em fcs \<subseteq> set fcs"
proof
  fix n assume "n \<in> power_reach em fcs"
  then obtain i where "(i, n) \<in> (auth_rel em fcs)\<^sup>*" "i \<in> set fcs" by (auto simp: power_reach_def)
  then show "n \<in> set fcs"
    by (induction rule: rtrancl_induct) (auto simp: auth_rel_def auth_edges_def split: option.splits)
qed

lemma power_sort_greedy:
  assumes dom: "\<forall>i \<in> set fcs. dict_has em i"
  obtains err where "reverse_topological_power_sort store r fcs em = Some (Inl err)"
  | xs em' ns orders where "reverse_topological_power_sort store r fcs em = Some (Inr (xs, em'))"
      "distinct ns" "set ns = power_reach em fcs" "power_orders store r ns em = Inr (orders, em')"
      "greedy_order (power_reach em fcs) (auth_edges em fcs) (\<lambda>n. (order_key orders n, n)) {} xs"
proof -
  from power_graph_ends [OF search_inv_empty dom order_refl, of store r] obtain res where
    res: "power_graph store r fcs fcs [] em = Some res" "searched em fcs [] {i \<in> set fcs. power_event_in em i} res"
    by blast
  show ?thesis
  proof (cases res)
    case (Inl err)
    with res(1) that(1) show ?thesis by (simp add: reverse_topological_power_sort_def)
  next
    case (Inr p)
    obtain g em1 where p: "p = (g, em1)" by (cases p)
    note g = searched_reach [OF res(2) [unfolded Inr p]]
    show ?thesis
    proof (cases "power_orders store r (map fst g) em")
      case (Inl err)
      with res(1) Inr p g(5) that(1) show ?thesis by (simp add: reverse_topological_power_sort_def)
    next
      case (Inr q)
      obtain orders em2 where q: "q = (orders, em2)" by (cases q)
      from lexicographical_sort_greedy [OF g(3), of "order_key orders"] obtain xs where
        xs: "lexicographical_topological_sort g (order_key orders) = Some (Inr xs)"
        "greedy_order (nodes_of g) (deps_of g) (\<lambda>n. (order_key orders n, n)) {} xs" by blast
      have "reverse_topological_power_sort store r fcs em = Some (Inr (xs, em2))"
        using res(1) \<open>res = Inr p\<close> p g(5) Inr q xs(1) by (simp add: reverse_topological_power_sort_def)
      moreover have "set (map fst g) = power_reach em fcs"
        using g(1) by (simp add: nodes_of_def power_reach_def)
      moreover have "greedy_order (power_reach em fcs) (auth_edges em fcs) (\<lambda>n. (order_key orders n, n)) {} xs"
        using xs(2) greedy_order_cong [of "nodes_of g" "deps_of g" "auth_edges em fcs"
            "\<lambda>n. (order_key orders n, n)" "{}" xs] g(1,2)
        by (simp add: power_reach_def)
      ultimately show ?thesis using that(2) g(3) Inr q by blast
    qed
  qed
qed

interpretation power: dependency_graph "power_reach em fcs" "auth_edges em fcs" "\<lambda>n. (order_key orders n, n)"
  for em fcs orders
  by unfold_locales (auto simp: inj_on_def intro: finite_subset [OF power_reach_subset])

section \<open>The order of the power events\<close>

text \<open>
  A store that answers with a dict of some of the events it was asked for.  The event behind
  an ID is then the same throughout: the one in the cache or else the one in the store.
\<close>

definition answers_asked :: "state_res_store \<Rightarrow> bool" where
  "answers_asked store \<longleftrightarrow> (\<forall>ids. distinct (map fst (srs_get_events store ids)) \<and>
     fst ` set (srs_get_events store ids) \<subseteq> set ids)"

definition lookup_event :: "state_res_store \<Rightarrow> event_map \<Rightarrow> string \<Rightarrow> event option" where
  "lookup_event store em i =
     (case map_of em i of Some e \<Rightarrow> Some e | None \<Rightarrow> map_of (srs_get_events store [i]) i)"

text \<open>
  The power level of the sender of an event: what the first power levels event among the
  auth events gives them; without one, 100 for the sender whom the first create event among
  the auth events names as the creator, and 0 otherwise.
\<close>

definition first_auth_event :: "(string \<Rightarrow> event option) \<Rightarrow> string \<Rightarrow> event \<Rightarrow> event option" where
  "first_auth_event look etype e =
     find (\<lambda>a. ev_type a = etype \<and> ev_state_key a = Some []) (List.map_filter look (ev_auth_event_ids e))"

definition sender_level :: "(string \<Rightarrow> event option) \<Rightarrow> event \<Rightarrow> int \<Rightarrow> bool" where
  "sender_level look e l \<longleftrightarrow>
     (case first_auth_event look EventTypes_PowerLevels e of
        Some pl \<Rightarrow> get_user_power_level (ev_sender e) (Map.empty((EventTypes_PowerLevels, []) \<mapsto> pl)) = Inr l
      | None \<Rightarrow>
          l = (case first_auth_event look EventTypes_Create e of
                 None \<Rightarrow> 0
               | Some create \<Rightarrow>
                   if map_of (ev_content create) ''creator'' = Some (JStr (ev_sender e)) then 100 else 0))"

lemma get_event_or_none_lookup:
  assumes "get_event_or_none store r i em = Inr (x, em')" and "answers_asked store"
  shows "x = lookup_event store em i" and "lookup_event store em' = lookup_event store em"
proof -
  let ?f = "srs_get_events store [i]"
  have f: "distinct (map fst ?f)" "fst ` set ?f \<subseteq> set [i]"
    using assms(2) unfolding answers_asked_def by blast+
  have em': "em' = (if dict_has em i then em else dict_update em ?f)" and x: "x = map_of em' i"
    using assms(1) by (auto simp: get_event_or_none_def Let_def split: option.splits if_splits)
  have "map_of ?f j = None" if "j \<noteq> i" for j using f(2) that by (auto simp: map_of_eq_None_iff)
  then have "map_of em' j = (if j = i then lookup_event store em i else map_of em j)" for j
    by (auto simp: em' dict_has_def lookup_event_def map_of_dict_update_distinct [OF f(1)] map_add_def
        split: option.splits)
  then show "x = lookup_event store em i" "lookup_event store em' = lookup_event store em"
    by (auto simp: x lookup_event_def fun_eq_iff split: option.splits)
qed

lemma find_auth_event_lookup:
  assumes "find_auth_event store r (etype, []) aids em = Inr (x, em')" and "answers_asked store"
  shows "map_option snd x = find (\<lambda>a. ev_type a = etype \<and> ev_state_key a = Some [])
      (List.map_filter (lookup_event store em) aids) \<and> lookup_event store em' = lookup_event store em"
  using assms(1)
proof (induction aids arbitrary: em)
  case (Cons aid aids)
  then obtain aev em1 where g: "get_event_or_none store r aid em = Inr (aev, em1)"
    by (auto simp: rbind_Inr_iff)
  note l = get_event_or_none_lookup [OF g assms(2)]
  show ?case
  proof (cases aev)
    case None
    with Cons.prems g Cons.IH [of em1] l show ?thesis by (simp add: List.map_filter_simps)
  next
    case (Some e)
    with Cons.prems g obtain k where k: "ev_state_key e = Some k"
      by (auto simp: state_key_pair_def rbind_Inr_iff state_key_of_Inr)
    show ?thesis
    proof (cases "(ev_type e, k) = (etype, [])")
      case True
      with Cons.prems g Some k l show ?thesis by (auto simp: List.map_filter_simps state_key_pair_def)
    next
      case False
      with Cons.prems g Some k have "find_auth_event store r (etype, []) aids em1 = Inr (x, em')"
        by (auto simp: state_key_pair_def)
      from Cons.IH [OF this] False Some k l show ?thesis by (auto simp: List.map_filter_simps)
    qed
  qed
qed (simp add: List.map_filter_simps)

lemma get_power_level_for_sender_spec:
  assumes "get_power_level_for_sender store r i em = Inr (l, em')" and "answers_asked store"
  shows "\<exists>e. lookup_event store em i = Some e \<and> sender_level (lookup_event store em) e l \<and>
    lookup_event store em' = lookup_event store em"
proof -
  obtain e em1 pl em2 where e: "get_event store r i em = Inr (e, em1)"
    and pl: "find_auth_event store r (EventTypes_PowerLevels, []) (ev_auth_event_ids e) em1 = Inr (pl, em2)"
    using assms(1) by (auto simp: get_power_level_for_sender_def rbind_Inr_iff)
  have g: "get_event_or_none store r i em = Inr (Some e, em1)"
    using e by (auto simp: get_event_def rbind_Inr_iff split: option.splits)
  note l1 = get_event_or_none_lookup [OF g assms(2)]
  note l2 = find_auth_event_lookup [OF pl assms(2), unfolded l1(2)]
  show ?thesis
  proof (cases pl)
    case None
    then obtain c where c: "find_auth_event store r (EventTypes_Create, []) (ev_auth_event_ids e) em2 = Inr (c, em')"
      and l: "l = (case c of Some (_, aev) \<Rightarrow>
        if jget (ev_content aev) ''creator'' JNull = JStr (ev_sender e) then 100 else 0 | None \<Rightarrow> 0)"
      using assms(1) e pl by (auto simp: get_power_level_for_sender_def rbind_Inr_iff)
    note l3 = find_auth_event_lookup [OF c assms(2), unfolded conjunct2 [OF l2]]
    have "sender_level (lookup_event store em) e l"
      using None l l2 l3
      by (cases c) (auto simp: sender_level_def first_auth_event_def jget_def split: option.splits)
    then show ?thesis using l1(1) [symmetric] l3 by blast
  next
    case (Some p)
    then have "em' = em2" and "get_user_power_level (ev_sender e)
        (Map.empty((EventTypes_PowerLevels, []) \<mapsto> snd p)) = Inr l"
      using assms(1) e pl
      by (auto simp: get_power_level_for_sender_def get_user_power_level_def get_power_level_event_def
          rbind_Inr_iff Let_def split: if_splits prod.splits)
    moreover have "first_auth_event (lookup_event store em) EventTypes_PowerLevels e = Some (snd p)"
      using l2 Some by (simp add: first_auth_event_def)
    ultimately show ?thesis using l1(1) [symmetric] l2 by (simp add: sender_level_def)
  qed
qed

lemma power_orders_spec:
  assumes "power_orders store r ns em1 = Inr (orders, em')" and "answers_asked store"
    and "lookup_event store em1 = lookup_event store em" and "n \<in> set ns" and "map_of em n = Some e"
  shows "\<exists>l. sender_level (lookup_event store em) e l \<and>
    order_key orders n = (- l, ev_origin_server_ts e, n)"
  using assms(1,3,4)
proof (induction ns arbitrary: em1 orders)
  case (Cons eid ns)
  from Cons.prems(1) obtain l em2 ev rest where
    l: "get_power_level_for_sender store r eid em1 = Inr (l, em2)" and ev: "dict_item em2 eid = Inr ev"
    and rest: "power_orders store r ns em2 = Inr (rest, em')"
    and orders: "orders = (eid, (- l, ev_origin_server_ts ev, eid)) # rest"
    by (auto simp: rbind_Inr_iff)
  from get_power_level_for_sender_spec [OF l assms(2)] Cons.prems(2) obtain e' where
    e': "lookup_event store em eid = Some e'" "sender_level (lookup_event store em) e' l"
    "lookup_event store em2 = lookup_event store em" by auto
  have "ev = e'" using ev e'(1,3) [symmetric]
    by (auto simp: dict_item_def lookup_event_def split: option.splits dest: fun_cong [of _ _ eid])
  show ?case
  proof (cases "n = eid")
    case True
    then have "e' = e" using e'(1) assms(5) by (simp add: lookup_event_def)
    with True e'(2) \<open>ev = e'\<close> show ?thesis by (auto simp: orders order_key_def)
  next
    case False
    then show ?thesis using Cons.IH [OF rest e'(3)] Cons.prems(3) by (auto simp: orders order_key_def)
  qed
qed simp

text \<open>The first event comes before the second: by level, then timestamp, then ID.\<close>

definition power_before :: "state_res_store \<Rightarrow> event_map \<Rightarrow> string \<Rightarrow> string \<Rightarrow> bool" where
  "power_before store em n m \<longleftrightarrow> (\<exists>e l e' l'.
     map_of em n = Some e \<and> sender_level (lookup_event store em) e l \<and>
     map_of em m = Some e' \<and> sender_level (lookup_event store em) e' l' \<and>
     (l' < l \<or> l = l' \<and> (ev_origin_server_ts e < ev_origin_server_ts e' \<or>
        ev_origin_server_ts e = ev_origin_server_ts e' \<and> n \<le> m)))"

lemma order_key_power_before:
  assumes "power_orders store r ns em = Inr (orders, em')" and "answers_asked store"
    and "n \<in> set ns" and "m \<in> set ns" and "dict_has em n" and "dict_has em m"
    and "(order_key orders n, n) \<le> (order_key orders m, m)"
  shows "power_before store em n m"
proof -
  obtain e e' where e: "map_of em n = Some e" "map_of em m = Some e'"
    using assms(5,6) by (auto simp: dict_has_def)
  from power_orders_spec [OF assms(1,2) refl assms(3) e(1)] power_orders_spec [OF assms(1,2) refl assms(4) e(2)]
  obtain l l' where "sender_level (lookup_event store em) e l" "sender_level (lookup_event store em) e' l'"
    "order_key orders n = (- l, ev_origin_server_ts e, n)" "order_key orders m = (- l', ev_origin_server_ts e', m)"
    by blast
  moreover from this assms(7) have "l' < l \<or> l = l' \<and> (ev_origin_server_ts e < ev_origin_server_ts e' \<or>
      ev_origin_server_ts e = ev_origin_server_ts e' \<and> n \<le> m)"
    by auto
  ultimately show ?thesis using e unfolding power_before_def by blast
qed

text \<open>
  C19.  The reverse topological power sort always ends.  If no exception leaves it, the events
  it returns are, without duplicates, power events of the full conflicted set or referenced
  by them, and every event comes after the events it references.  Where references have no
  cycle, none of those events is missing.  If the store answers with the events it is asked
  for, then among the events that could come next each has the sender with the highest power
  level by its auth events, then the lowest timestamp, then the least ID.
\<close>

theorem power_sort_correct:
  assumes "\<forall>i \<in> set fcs. dict_has em i"
  shows "\<exists>res. reverse_topological_power_sort store r fcs em = Some res \<and>
    (\<forall>xs em'. res = Inr (xs, em') \<longrightarrow>
      distinct xs \<and> set xs \<subseteq> power_reach em fcs \<and>
      (acyclic (auth_rel em fcs) \<longrightarrow> set xs = power_reach em fcs) \<and>
      (\<forall>ys n zs. xs = ys @ n # zs \<longrightarrow> auth_edges em fcs n \<subseteq> set ys \<and>
         (answers_asked store \<longrightarrow> (\<forall>m \<in> power_reach em fcs - set ys.
            auth_edges em fcs m \<subseteq> set ys \<longrightarrow> power_before store em n m))))"
proof (cases rule: power_sort_greedy [OF assms, of store r])
  case (1 err)
  then show ?thesis by simp
next
  case (2 xs em' ns orders)
  note g = 2(5)
  have ac: "set xs = power_reach em fcs" if "acyclic (auth_rel em fcs)"
  proof (rule power.greedy_complete [OF g])
    have "{(m, n). n \<in> power_reach em fcs \<and> m \<in> auth_edges em fcs n} \<subseteq> (auth_rel em fcs)\<inverse>"
      by (auto simp: auth_rel_def)
    then show "acyclic {(m, n). n \<in> power_reach em fcs \<and> m \<in> auth_edges em fcs n}"
      by (rule acyclic_subset [OF acyclic_converse [THEN iffD2, OF that]])
  qed (simp add: power_reach_closed)
  have topo: "auth_edges em fcs n \<subseteq> set ys" if "xs = ys @ n # zs" for ys n zs
    using power.greedy_topological [OF g that] by simp
  have least: "(order_key orders n, n) \<le> (order_key orders m, m)"
    if "xs = ys @ n # zs" "m \<in> power_reach em fcs - set ys" "auth_edges em fcs m \<subseteq> set ys" for ys n zs m
    using power.greedy_least [OF g that(1)] that(2,3) by (simp add: available_def)
  have d: "distinct xs \<and> set xs \<inter> {} = {} \<and> set xs \<subseteq> power_reach em fcs"
    by (rule power.greedy_distinct [OF g])
  have sub: "set xs \<subseteq> power_reach em fcs" using d by blast
  have before: "power_before store em n m" if "answers_asked store"
    "xs = ys @ n # zs" "m \<in> power_reach em fcs - set ys" "auth_edges em fcs m \<subseteq> set ys" for ys n zs m
  proof (rule order_key_power_before [OF 2(4) that(1) _ _ _ _ least [OF that(2-4)]])
    have n: "n \<in> power_reach em fcs" using sub that(2) by auto
    then show "n \<in> set ns" "dict_has em n" "m \<in> set ns" "dict_has em m"
      using that(3) 2(3) power_reach_subset assms by blast+
  qed
  have "distinct xs \<and> set xs \<subseteq> power_reach em fcs \<and>
      (acyclic (auth_rel em fcs) \<longrightarrow> set xs = power_reach em fcs) \<and>
      (\<forall>ys n zs. xs = ys @ n # zs \<longrightarrow> auth_edges em fcs n \<subseteq> set ys \<and>
         (answers_asked store \<longrightarrow> (\<forall>m \<in> power_reach em fcs - set ys.
            auth_edges em fcs m \<subseteq> set ys \<longrightarrow> power_before store em n m)))"
    by (intro conjI impI allI ballI conjunct1 [OF d] sub ac) (assumption, erule topo, erule (3) before)
  with 2(1) show ?thesis by simp
qed

lemma v2_store_answers: "answers_asked v2_store"
proof -
  have "distinct (map fst v2_events)" by code_simp
  then show ?thesis by (auto simp: answers_asked_def v2_store_def distinct_map_filter)
qed

theorem power_sort_correct_witness:
  "answers_asked v2_store \<and>
   (\<exists>res. reverse_topological_power_sort v2_store ''!r:x'' [''$pl'', ''$pl2'', ''$t1''] v2_events = Some res \<and>
    (\<forall>n zs em'. res = Inr (n # zs, em') \<longrightarrow>
       (\<forall>m \<in> power_reach v2_events [''$pl'', ''$pl2'', ''$t1''].
          auth_edges v2_events [''$pl'', ''$pl2'', ''$t1''] m = {} \<longrightarrow> power_before v2_store v2_events n m)))"
proof (rule conjI [OF v2_store_answers])
  have dom: "\<forall>i \<in> set [''$pl'', ''$pl2'', ''$t1'']. dict_has v2_events i" by code_simp
  show "\<exists>res. reverse_topological_power_sort v2_store ''!r:x'' [''$pl'', ''$pl2'', ''$t1''] v2_events = Some res \<and>
    (\<forall>n zs em'. res = Inr (n # zs, em') \<longrightarrow>
       (\<forall>m \<in> power_reach v2_events [''$pl'', ''$pl2'', ''$t1''].
          auth_edges v2_events [''$pl'', ''$pl2'', ''$t1''] m = {} \<longrightarrow> power_before v2_store v2_events n m))"
  proof (rule exE [OF power_sort_correct [OF dom, of v2_store "''!r:x''"]], elim conjE,
      intro exI conjI allI impI ballI, assumption)
    fix res n zs em' m
    assume h: "\<forall>xs em'. res = Inr (xs, em') \<longrightarrow> distinct xs \<and> set xs \<subseteq> power_reach v2_events [''$pl'', ''$pl2'', ''$t1''] \<and>
      (acyclic (auth_rel v2_events [''$pl'', ''$pl2'', ''$t1'']) \<longrightarrow>
        set xs = power_reach v2_events [''$pl'', ''$pl2'', ''$t1'']) \<and>
      (\<forall>ys n zs. xs = ys @ n # zs \<longrightarrow> auth_edges v2_events [''$pl'', ''$pl2'', ''$t1''] n \<subseteq> set ys \<and>
        (answers_asked v2_store \<longrightarrow> (\<forall>m \<in> power_reach v2_events [''$pl'', ''$pl2'', ''$t1''] - set ys.
          auth_edges v2_events [''$pl'', ''$pl2'', ''$t1''] m \<subseteq> set ys \<longrightarrow> power_before v2_store v2_events n m)))"
      and res: "res = Inr (n # zs, em')" and m: "m \<in> power_reach v2_events [''$pl'', ''$pl2'', ''$t1'']"
      "auth_edges v2_events [''$pl'', ''$pl2'', ''$t1''] m = {}"
    note first = h [rule_format, OF res, THEN conjunct2, THEN conjunct2, THEN conjunct2, rule_format, of "[]" n zs,
        THEN conjunct2, rule_format, OF _ v2_store_answers, of m]
    show "power_before v2_store v2_events n m" using m by (intro first) simp_all
  qed
qed

end
