(* ===== verification/State_V2_Provenance.thy ===== *)
theory State_V2_Provenance
  imports State_V2_Power_Sort
begin

text \<open>
  Where the events of a resolved state come from: an entry that the state sets do not agree
  on is a known event of the full conflicted set that is not rejected and that passed the
  auth rules against auth events that are not rejected either.
\<close>

section \<open>The event map as a cache\<close>

text \<open>
  The functions of the algorithm change the event map only by adding what the store
  returns, so they keep every property that such a fetch keeps.
\<close>

locale event_cache =
  fixes store :: state_res_store and P :: "event_map \<Rightarrow> bool"
  assumes fetch: "P em \<Longrightarrow> P (dict_update em (srs_get_events store ids))"
begin

lemma get_event_or_none_keeps: "get_event_or_none store r i em = Inr (x, em') \<Longrightarrow> P em \<Longrightarrow> P em'"
  by (auto simp: get_event_or_none_def Let_def fetch split: option.splits if_splits)

lemma get_event_keeps: "get_event store r i em = Inr (x, em') \<Longrightarrow> P em \<Longrightarrow> P em'"
  by (auto simp: get_event_def rbind_Inr_iff split: option.splits dest: get_event_or_none_keeps)

lemma find_auth_event_keeps: "find_auth_event store r key aids em = Inr (x, em') \<Longrightarrow> P em \<Longrightarrow> P em'"
proof (induction aids arbitrary: em)
  case (Cons aid aids)
  from Cons.prems(1) obtain a em1 where one: "get_event_or_none store r aid em = Inr (a, em1)"
    by (auto simp: rbind_Inr_iff)
  from get_event_or_none_keeps [OF this Cons.prems(2)] have "P em1" .
  with Cons.prems(1) one show ?case
    by (cases a) (auto simp: rbind_Inr_iff split: if_splits intro: Cons.IH)
qed simp

lemma get_power_level_keeps:
  "get_power_level_for_sender store r i em = Inr (x, em') \<Longrightarrow> P em \<Longrightarrow> P em'"
  by (auto simp: get_power_level_for_sender_def Let_def rbind_Inr_iff
      split: option.splits if_splits dest!: get_event_keeps find_auth_event_keeps)

lemma power_orders_keeps: "power_orders store r eids em = Inr (x, em') \<Longrightarrow> P em \<Longrightarrow> P em'"
proof (induction eids arbitrary: em x)
  case (Cons eid eids)
  then show ?case by (fastforce simp: rbind_Inr_iff dest: get_power_level_keeps)
qed simp

lemma add_event_keeps:
  assumes "add_event_and_auth_chain_to_graph store r fcs stack g em = Some (Inr (g', em'))" and "P em"
  shows "P em'"
proof -
  have "add_event_and_auth_chain_to_graph st r fcs stack g em = Some y \<Longrightarrow> st = store \<Longrightarrow>
      y = Inr (g', em') \<Longrightarrow> P em \<Longrightarrow> P em'" for st y
  proof (induction st r fcs stack g em y rule: add_event_and_auth_chain_to_graph.raw_induct [rotated, consumes 1, case_names step])
    case (step f st r fcs stack g em y)
    then show ?case
      by (auto split: list.splits sum.splits prod.splits dest: get_event_keeps)
  qed
  with assms show ?thesis by blast
qed

lemma power_graph_keeps: "power_graph store r fcs eids g em = Some (Inr (g', em')) \<Longrightarrow> P em \<Longrightarrow> P em'"
proof (induction eids arbitrary: g em)
  case (Cons eid eids)
  then show ?case by (auto simp: xbind_Inr_iff split: if_splits dest: add_event_keeps)
qed simp

lemma power_sort_keeps:
  "reverse_topological_power_sort store r fcs em = Some (Inr (xs, em')) \<Longrightarrow> P em \<Longrightarrow> P em'"
  by (auto simp: reverse_topological_power_sort_def xbind_Inr_iff
      dest!: power_graph_keeps dest: power_orders_keeps)

lemma cited_keeps: "cited_auth_events store r aids auth em = Inr (x, em') \<Longrightarrow> P em \<Longrightarrow> P em'"
proof (induction aids arbitrary: auth em)
  case (Cons aid aids)
  from Cons.prems(1) obtain a em1 where one: "get_event_or_none store r aid em = Inr (a, em1)"
    by (auto simp: rbind_Inr_iff)
  from get_event_or_none_keeps [OF this Cons.prems(2)] have "P em1" .
  with Cons.prems(1) one show ?case
    by (cases a) (auto simp: rbind_Inr_iff split: if_splits intro: Cons.IH)
qed simp

lemma resolved_auth_keeps:
  "resolved_auth_events store r resolved keys auth em = Inr (x, em') \<Longrightarrow> P em \<Longrightarrow> P em'"
proof (induction keys arbitrary: auth em)
  case (Cons key keys)
  then show ?case
    by (cases "map_of resolved key")
      (auto simp: rbind_Inr_iff split: if_splits dest: get_event_keeps intro: Cons.IH)
qed simp

lemma mainline_loop_keeps:
  assumes "mainline_loop store r pl ml em = Some (Inr (xs, em'))" and "P em"
  shows "P em'"
proof -
  have "mainline_loop st r pl ml em = Some y \<Longrightarrow> st = store \<Longrightarrow>
      y = Inr (xs, em') \<Longrightarrow> P em \<Longrightarrow> P em'" for st y
  proof (induction st r pl ml em y rule: mainline_loop.raw_induct [rotated, consumes 1, case_names step])
    case (step f st r pl ml em y)
    then show ?case
      by (auto simp: rbind_Inr_iff split: if_splits sum.splits prod.splits
          dest!: get_event_keeps find_auth_event_keeps)
  qed
  with assms show ?thesis by blast
qed

lemma mainline_depth_keeps:
  assumes "get_mainline_depth_for_event store r mm e em = Some (Inr (d, em'))" and "P em"
  shows "P em'"
proof -
  have "get_mainline_depth_for_event st r mm e em = Some y \<Longrightarrow> st = store \<Longrightarrow>
      y = Inr (d, em') \<Longrightarrow> P em \<Longrightarrow> P em'" for st y
  proof (induction st r mm e em y rule: get_mainline_depth_for_event.raw_induct [rotated, consumes 1, case_names step])
    case (step f st r mm e em y)
    then show ?case
      by (auto split: option.splits sum.splits prod.splits dest: find_auth_event_keeps)
  qed
  with assms show ?thesis by blast
qed

lemma mainline_orders_keeps: "mainline_orders store mm ids em = Some (Inr (x, em')) \<Longrightarrow> P em \<Longrightarrow> P em'"
proof (induction ids arbitrary: em x)
  case (Cons i ids)
  then show ?case by (fastforce simp: xbind_Inr_iff dest: mainline_depth_keeps)
qed simp

lemma mainline_sort_keeps: "mainline_sort store r ids pl em = Some (Inr (xs, em')) \<Longrightarrow> P em \<Longrightarrow> P em'"
  by (auto simp: mainline_sort_def xbind_Inr_iff split: if_splits
      dest!: mainline_loop_keeps dest: mainline_orders_keeps)

end

section \<open>Known events\<close>

text \<open>The events given by the caller and the ones the store can return.\<close>

definition known_events :: "state_res_store \<Rightarrow> event_map \<Rightarrow> (string \<times> event) set" where
  "known_events store em = set em \<union> (\<Union>ids. set (srs_get_events store ids))"

text \<open>Checking an event may set its recheck flag; nothing else of it changes.\<close>

definition same_event :: "event \<Rightarrow> event \<Rightarrow> bool" where
  "same_event e e0 \<longleftrightarrow> (\<exists>b. e = e0\<lparr>ev_recheck_redaction := b\<rparr>)"

definition drawn :: "(string \<times> event) set \<Rightarrow> event_map \<Rightarrow> bool" where
  "drawn S em \<longleftrightarrow> (\<forall>i e. map_of em i = Some e \<longrightarrow> (\<exists>e0. (i, e0) \<in> S \<and> same_event e e0))"

lemma same_event_refl [simp]: "same_event e e"
proof -
  have "e = e\<lparr>ev_recheck_redaction := ev_recheck_redaction e\<rparr>" by simp
  then show ?thesis unfolding same_event_def by blast
qed

lemma same_event_trans: "same_event e e1 \<Longrightarrow> same_event e1 e0 \<Longrightarrow> same_event e e0"
  by (auto simp: same_event_def)

definition yields :: "'a set \<Rightarrow> 'a result \<Rightarrow> bool" where
  "yields A r \<longleftrightarrow> (\<forall>x. r = Inr x \<longrightarrow> x \<in> A)"

lemma yields_rbind: "(\<And>a. yields A (f a)) \<Longrightarrow> yields A (rbind r f)"
  by (auto simp: yields_def rbind_Inr_iff)

lemma yields_Inl: "yields A (Inl err)" and yields_Inr: "x \<in> A \<Longrightarrow> yields A (Inr x)"
  by (simp_all add: yields_def)

lemma yields_if: "yields A r \<Longrightarrow> yields A r' \<Longrightarrow> yields A (if b then r else r')"
  by simp

lemma yields_rules:
  "yields {e, e\<lparr>ev_recheck_redaction := True\<rparr>} (check_rules_with_dict vs e auth)"
  unfolding check_rules_with_dict_def
  by (intro yields_rbind yields_if yields_Inl yields_Inr insertI1 | simp split: option.split prod.split;
      intro allI impI conjI yields_if yields_Inl yields_Inr insertI1)+

lemma checked_event:
  assumes "check_state_dependent_auth_rules vs e auth = Inr e'"
  shows "e' = e \<or> e' = e\<lparr>ev_recheck_redaction := True\<rparr>"
  using assms yields_rules [of e vs]
  by (auto simp: check_state_dependent_auth_rules_def rbind_Inr_iff yields_def split: if_splits)

lemma checked_same_event: "check_state_dependent_auth_rules vs e auth = Inr e' \<Longrightarrow> same_event e' e"
  using checked_event [of vs e auth e'] same_event_refl unfolding same_event_def by blast

lemma drawn_fetch: "set d \<subseteq> S \<Longrightarrow> drawn S em \<Longrightarrow> drawn S (dict_update em d)"
  unfolding drawn_def using same_event_refl by (blast dest: dict_update_cases)

lemma drawn_initial: "drawn (known_events store em) em"
  unfolding drawn_def known_events_def using same_event_refl by (blast dest: map_of_SomeD)

lemma drawn_checked:
  assumes "drawn S em" and "\<exists>e0. (i, e0) \<in> S \<and> same_event e' e0"
  shows "drawn S (AList.update i e' em)"
  using assms by (auto simp: drawn_def update_conv')

interpretation cache: event_cache store "drawn (known_events store em)" for store em
  by unfold_locales (rule drawn_fetch, auto simp: known_events_def)

section \<open>Admitted events\<close>

text \<open>An auth event that may be used: known, in the room and not rejected.\<close>

definition eligible :: "(string \<times> event) set \<Rightarrow> string \<Rightarrow> event \<Rightarrow> bool" where
  "eligible S room_id a \<longleftrightarrow> ev_rejected_reason a = None \<and> ev_room_id a = room_id \<and>
     (\<exists>j a0. (j, a0) \<in> S \<and> same_event a a0)"

text \<open>
  The ID \<open>i\<close> may stand under the key \<open>k\<close>: it is the ID of a known event with that
  key that is not rejected and passes the auth rules against eligible auth events.
\<close>

definition admitted :: "sig_verifier \<Rightarrow> (string \<times> event) set \<Rightarrow> string \<Rightarrow> state_key \<Rightarrow> string \<Rightarrow> bool" where
  "admitted vs S room_id k i \<longleftrightarrow>
     (\<exists>e0 e e' auth. (i, e0) \<in> S \<and> same_event e e0 \<and> ev_rejected_reason e = None \<and>
        state_key_pair e = Inr k \<and> check_state_dependent_auth_rules vs e auth = Inr e' \<and>
        (\<forall>a \<in> set auth. eligible S room_id a))"

lemma set_update_subset: "snd ` set (AList.update k v d) \<subseteq> insert v (snd ` set d)"
  by (induction d) auto

lemma get_event_or_none_eligible:
  assumes "get_event_or_none store r i em = Inr (Some e, em')" and "drawn (known_events store em0) em"
    and "ev_rejected_reason e = None"
  shows "eligible (known_events store em0) r e"
proof -
  have "map_of em' i = Some e" "ev_room_id e = r"
    using assms(1) by (auto simp: get_event_or_none_def Let_def split: option.splits if_splits)
  then show ?thesis
    using cache.get_event_or_none_keeps [OF assms(1,2)] assms(3)
    unfolding drawn_def eligible_def by blast
qed

lemma get_event_Inr: "get_event store r i em = Inr (e, em') \<longleftrightarrow> get_event_or_none store r i em = Inr (Some e, em')"
  by (auto simp: get_event_def rbind_Inr_iff split: option.splits)

lemma cited_eligible:
  assumes "cited_auth_events store r aids auth em = Inr (auth', em')"
    and "drawn (known_events store em0) em" and "\<forall>a \<in> snd ` set auth. eligible (known_events store em0) r a"
  shows "\<forall>a \<in> snd ` set auth'. eligible (known_events store em0) r a"
  using assms
proof (induction aids arbitrary: auth em)
  case (Cons aid aids)
  from Cons.prems(1) obtain x em1 where x: "get_event_or_none store r aid em = Inr (x, em1)"
    by (auto simp: rbind_Inr_iff)
  note d = cache.get_event_or_none_keeps [OF x Cons.prems(2)]
  show ?case
  proof (cases "\<exists>e. x = Some e \<and> ev_rejected_reason e = None")
    case True
    then obtain e where e: "x = Some e" "ev_rejected_reason e = None" by blast
    with Cons.prems(1) x obtain k where
      rest: "cited_auth_events store r aids (AList.update k e auth) em1 = Inr (auth', em')"
      by (auto simp: rbind_Inr_iff)
    have "eligible (known_events store em0) r e"
      using get_event_or_none_eligible [OF _ Cons.prems(2)] x e by blast
    then have "\<forall>a \<in> snd ` set (AList.update k e auth). eligible (known_events store em0) r a"
      using Cons.prems(3) set_update_subset [of k e auth] by blast
    from Cons.IH [OF rest d this] show ?thesis .
  next
    case False
    then have "cited_auth_events store r aids auth em1 = Inr (auth', em')"
      using Cons.prems(1) x by (auto split: option.splits if_splits)
    from Cons.IH [OF this d Cons.prems(3)] show ?thesis .
  qed
qed simp

lemma resolved_eligible:
  assumes "resolved_auth_events store r resolved keys auth em = Inr (auth', em')"
    and "drawn (known_events store em0) em" and "\<forall>a \<in> snd ` set auth. eligible (known_events store em0) r a"
  shows "\<forall>a \<in> snd ` set auth'. eligible (known_events store em0) r a"
  using assms
proof (induction keys arbitrary: auth em)
  case (Cons key keys)
  show ?case
  proof (cases "map_of resolved key")
    case None
    with Cons show ?thesis by simp
  next
    case (Some i)
    with Cons.prems(1) obtain e em1 where e: "get_event_or_none store r i em = Inr (Some e, em1)"
      by (auto simp: rbind_Inr_iff get_event_Inr)
    note d = cache.get_event_or_none_keeps [OF e Cons.prems(2)]
    let ?auth = "if ev_rejected_reason e = None then AList.update key e auth else auth"
    have rest: "resolved_auth_events store r resolved keys ?auth em1 = Inr (auth', em')"
      using Cons.prems(1) Some e [folded get_event_Inr] by (cases "ev_rejected_reason e") simp_all
    have "\<forall>a \<in> snd ` set ?auth. eligible (known_events store em0) r a"
    proof (cases "ev_rejected_reason e = None")
      case True
      with Cons.prems(3) set_update_subset [of key e auth] get_event_or_none_eligible [OF e Cons.prems(2)]
      show ?thesis unfolding if_P [OF True] by blast
    next
      case False
      with Cons.prems(3) show ?thesis by (simp only: if_False)
    qed
    from Cons.IH [OF rest d this] show ?thesis .
  qed
qed simp

text \<open>The invariant of the iterative auth checks.\<close>

definition admitted_state ::
  "sig_verifier \<Rightarrow> (string \<times> event) set \<Rightarrow> string \<Rightarrow> id_state \<Rightarrow> string set \<Rightarrow> id_state \<times> event_map \<Rightarrow> bool" where
  "admitted_state vs S room_id base A st \<longleftrightarrow> drawn S (snd st) \<and>
     (\<forall>k i. map_of (fst st) k = Some i \<longrightarrow> map_of base k = Some i \<or> i \<in> A \<and> admitted vs S room_id k i)"

lemma auth_check_event_admitted:
  assumes step: "auth_check_event vs store r rv i st = Inr st'"
    and inv: "admitted_state vs (known_events store em0) r base A st" and "i \<in> A"
  shows "admitted_state vs (known_events store em0) r base A st'"
proof -
  let ?S = "known_events store em0"
  obtain resolved em where st: "st = (resolved, em)" by fastforce
  from step st obtain e auth1 em1 keys auth2 em2 where
    e: "map_of em i = Some e"
    and c: "cited_auth_events store r (ev_auth_event_ids e) [] em = Inr (auth1, em1)"
    and a: "resolved_auth_events store r resolved keys auth1 em1 = Inr (auth2, em2)"
    and res: "(if ev_rejected_reason e \<noteq> None then Inr (resolved, em2)
        else (case check_state_dependent_auth_rules vs e (map snd auth2) of
             Inr e' \<Rightarrow> rbind (state_key_pair e) (\<lambda>k.
               Inr (AList.update k i resolved, AList.update i e' em2))
           | Inl err \<Rightarrow> if is_auth_error err then Inr (resolved, em2) else Inl err)) = Inr st'"
    by (auto simp: auth_check_event_def rbind_Inr_iff dict_item_Inr)
  have d: "drawn ?S em" using inv st by (simp add: admitted_state_def)
  have d2: "drawn ?S em2"
    using cache.resolved_auth_keeps [OF a cache.cited_keeps [OF c d]] .
  have el: "\<forall>a \<in> set (map snd auth2). eligible ?S r a"
    using resolved_eligible [OF a cache.cited_keeps [OF c d] cited_eligible [OF c d]] by auto
  from d e obtain e0 where e0: "(i, e0) \<in> ?S" "same_event e e0" unfolding drawn_def by blast
  show ?thesis
  proof (cases "st' = (resolved, em2)")
    case True
    with inv st d2 show ?thesis by (simp add: admitted_state_def)
  next
    case False
    then obtain e' k where ok: "ev_rejected_reason e = None" "state_key_pair e = Inr k"
      "check_state_dependent_auth_rules vs e (map snd auth2) = Inr e'"
      and st': "st' = (AList.update k i resolved, AList.update i e' em2)"
      using res by (auto simp: rbind_Inr_iff split: if_splits sum.splits)
    have "admitted vs ?S r k i" using e0 ok el unfolding admitted_def by blast
    moreover have "drawn ?S (AList.update i e' em2)"
      by (rule drawn_checked [OF d2]) (use e0 checked_same_event [OF ok(3)] same_event_trans in blast)
    ultimately show ?thesis
      using inv st st' \<open>i \<in> A\<close> by (auto simp: admitted_state_def update_conv')
  qed
qed

lemma iterative_auth_checks_admitted:
  assumes "iterative_auth_checks vs store r rv ids resolved em = Inr st"
    and "admitted_state vs (known_events store em0) r base A (resolved, em)" and "set ids \<subseteq> A"
  shows "admitted_state vs (known_events store em0) r base A st"
proof (rule rfold_invariant [where P = "admitted_state vs (known_events store em0) r base A",
      OF assms(1) [unfolded iterative_auth_checks_def] assms(2)])
  fix i t t'
  assume "i \<in> set ids" and inv: "admitted_state vs (known_events store em0) r base A t"
    and step: "auth_check_event vs store r rv i t = Inr t'"
  with assms(3) have "i \<in> A" by blast
  from auth_check_event_admitted [OF step inv this]
  show "admitted_state vs (known_events store em0) r base A t'" .
qed

section \<open>The whole algorithm\<close>

lemma full_conflicted_sem:
  assumes "full_conflicted store r conflicted auth_diff em = Inr (fcs, em')"
  shows "\<forall>i \<in> set fcs. dict_has em' i" and "set fcs \<subseteq> \<Union> (set ` snd ` set conflicted) \<union> set auth_diff"
    and "em' = dict_update em (srs_get_events store (filter (\<lambda>i. \<not> dict_has em i)
           (remdups (concat (map snd conflicted) @ auth_diff))))"
  using assms by (auto simp: full_conflicted_def Let_def rbind_Inr_iff)

lemma conflicted_ids:
  assumes uc: "separate state_sets = (u, c)" and i: "i \<in> \<Union> (set ` snd ` set c)"
  shows "\<exists>s \<in> set state_sets. i \<in> ran (map_of s)"
proof -
  from i obtain k ids where "(k, ids) \<in> set c" "i \<in> set ids" by auto
  moreover have "distinct (map fst c)" using separate_distinct [OF uc] .
  ultimately have "map_of c k = Some ids" by simp
  with separate_sem(2) [OF uc, of k ids] have "decide_key state_sets k = Inr ids" by blast
  from decide_key_Inr [OF this] \<open>i \<in> set ids\<close> obtain s where
    "s \<in> set state_sets" "map_of s k = Some i" by blast
  then show ?thesis by (blast intro: ranI)
qed

lemma power_sort_subset:
  assumes "reverse_topological_power_sort store r fcs em = Some (Inr (xs, em'))"
    and "\<forall>i \<in> set fcs. dict_has em i"
  shows "set xs \<subseteq> set fcs"
  using power_sort_greedy [OF assms(2), of store r]
proof cases
  case (2 ys em2 ns orders)
  with assms(1) power.greedy_distinct [OF 2(5)] power_reach_subset [of em fcs] show ?thesis by auto
qed (use assms(1) in simp)

lemma mainline_sort_set:
  "mainline_sort store r ids pl em = Some (Inr (xs, em')) \<Longrightarrow> set xs = set ids"
  by (auto simp: mainline_sort_def xbind_Inr_iff split: if_splits)

lemma resolve_conflicts_admitted:
  assumes run: "resolve_conflicts vs store r rv u fcs em = Some (Inr res)"
    and d: "drawn (known_events store em0) em" and dom: "\<forall>i \<in> set fcs. dict_has em i"
    and k: "map_of res k = Some i" and du: "distinct (map fst u)"
  shows "map_of u k = Some i \<or> i \<in> set fcs \<and> admitted vs (known_events store em0) r k i"
proof -
  let ?inv = "admitted_state vs (known_events store em0) r u (set fcs)"
  from run obtain pevs em1 r2 em2 left em3 r4 em4 where
    p: "reverse_topological_power_sort store r fcs em = Some (Inr (pevs, em1))"
    and a1: "iterative_auth_checks vs store r rv pevs u em1 = Inr (r2, em2)"
    and m: "mainline_sort store r (filter (\<lambda>i. i \<notin> set pevs) fcs)
              (map_of r2 (EventTypes_PowerLevels, [])) em2 = Some (Inr (left, em3))"
    and a2: "iterative_auth_checks vs store r rv left r2 em3 = Inr (r4, em4)"
    and res: "res = dict_update r4 u"
    by (auto simp: resolve_conflicts_def xbind_Inr_iff)
  have "?inv (u, em1)"
    using cache.power_sort_keeps [OF p d] by (simp add: admitted_state_def)
  from iterative_auth_checks_admitted [OF a1 this power_sort_subset [OF p dom]]
  have i2: "?inv (r2, em2)" .
  then have "?inv (r2, em3)"
    using cache.mainline_sort_keeps [OF m] by (simp add: admitted_state_def)
  moreover have "set left \<subseteq> set fcs" using mainline_sort_set [OF m] by auto
  ultimately have "?inv (r4, em4)" by (rule iterative_auth_checks_admitted [OF a2])
  moreover have "map_of u k = Some i \<or> map_of r4 k = Some i"
    using k res du by (auto simp: map_of_dict_update_distinct map_add_Some_iff)
  ultimately show ?thesis unfolding admitted_state_def fst_conv by blast
qed

text \<open>
  C16.  Every entry of a resolved state is either agreed on by all state sets, or it is the ID
  of a known event in the full conflicted set (an event of some state set or of the auth
  chain difference) that has the key of the entry, is not rejected, and passes the auth
  rules against auth events of the room none of which is rejected.
\<close>

theorem resolved_events_admitted:
  assumes run: "resolve_events_with_store vs room_id rv state_sets em store = Some (Inr r)"
    and k: "map_of r k = Some i"
  shows "(state_sets \<noteq> [] \<and> (\<forall>s \<in> set state_sets. map_of s k = Some i)) \<or>
    (((\<exists>s \<in> set state_sets. i \<in> ran (map_of s)) \<or>
      (\<exists>diff. get_auth_chain_difference store room_id state_sets em = Some (Inr diff) \<and> i \<in> set diff)) \<and>
     admitted vs (known_events store em) room_id k i)"
proof -
  obtain u c where uc: "separate state_sets = (u, c)" by fastforce
  note sem = separate_sem [OF uc]
  show ?thesis
  proof (cases "c = []")
    case True
    with run uc k sem(1) show ?thesis by (simp add: resolve_events_with_store_def)
  next
    case False
    with run uc obtain diff fcs em' where
      diff: "get_auth_chain_difference store room_id state_sets em = Some (Inr diff)"
      and f: "full_conflicted store room_id c diff em = Inr (fcs, em')"
      and rc: "resolve_conflicts vs store room_id rv u fcs em' = Some (Inr r)"
      by (auto simp: resolve_events_with_store_def xbind_Inr_iff)
    have d: "drawn (known_events store em) em'"
      unfolding full_conflicted_sem(3) [OF f] by (rule cache.fetch [OF drawn_initial])
    from resolve_conflicts_admitted [OF rc d full_conflicted_sem(1) [OF f] k sem(3)] show ?thesis
    proof
      assume "map_of u k = Some i"
      with sem(1) show ?thesis by blast
    next
      assume a: "i \<in> set fcs \<and> admitted vs (known_events store em) room_id k i"
      then have "i \<in> \<Union> (set ` snd ` set c) \<union> set diff" using full_conflicted_sem(2) [OF f] by blast
      then have "(\<exists>s \<in> set state_sets. i \<in> ran (map_of s)) \<or> i \<in> set diff"
        using conflicted_ids [OF uc] by blast
      with a diff show ?thesis by blast
    qed
  qed
qed

theorem resolved_events_admitted_witness:
  "admitted sample_verifier (known_events v2_store []) ''!r:x'' (EventTypes_PowerLevels, []) ''$pl2''"
proof -
  have k: "map_of (v2_base @ [((EventTypes_PowerLevels, []), ''$pl2''), ((''m.room.topic'', []), ''$t2'')])
      (EventTypes_PowerLevels, []) = Some ''$pl2''"
    "\<not> (\<forall>s \<in> set v2_sets. map_of s (EventTypes_PowerLevels, []) = Some ''$pl2'')"
    by code_simp+
  from resolved_events_admitted [OF v2_run k(1)] k(2) show ?thesis by blast
qed

end
