(* ===== verification/State_V2_Termination.thy ===== *)
theory State_V2_Termination
  imports State_V2_Provenance
begin

text \<open>
  State resolution v2 ends.  The searches along auth references have no visited check, so
  this rests on the references being acyclic: the known events have a rank that every
  reference lowers (for real events, the length of the longest chain of references; an event
  ID is a hash over the references, so there is no cycle).  The search that computes auth
  chains is shown to compute reachability, and with it the auth chain difference to be the
  one of the full auth chains.
\<close>

section \<open>Acyclic references\<close>

definition ranked :: "(string \<Rightarrow> nat) \<Rightarrow> (string \<times> event) set \<Rightarrow> bool" where
  "ranked rank S \<longleftrightarrow>
     (\<forall>(i, e) \<in> S. ev_event_id e = i \<and> (\<forall>a \<in> set (ev_auth_event_ids e). rank a < rank i))"

definition well_keyed :: "event_map \<Rightarrow> bool" where
  "well_keyed em \<longleftrightarrow> distinct (map fst em) \<and> (\<forall>(i, e) \<in> set em. ev_event_id e = i)"

text \<open>The references of the unpersisted events.\<close>

definition unpersisted_rel :: "event_map \<Rightarrow> (string \<times> string) set" where
  "unpersisted_rel un = {(i, a). \<exists>e. map_of un i = Some e \<and> a \<in> set (ev_auth_event_ids e)}"

section \<open>The search for auth chains\<close>

lemma push_auth_events:
  "fold (push_auth_event un) aids (chain, st) =
     (fold set_add aids chain, rev (List.map_filter (map_of un) aids) @ st)"
  by (induction aids arbitrary: chain st)
    (auto simp: push_auth_event_def map_filter_simps split: option.split)

lemma set_map_filter: "set (List.map_filter f xs) = {y. \<exists>x \<in> set xs. f x = Some y}"
  by (induction xs) (auto simp: map_filter_simps split: option.split)

lemma trancl_image_step: "r\<^sup>+ `` {x} = r `` {x} \<union> r\<^sup>+ `` (r `` {x})"
  by (auto intro: trancl_into_trancl2 elim: converse_tranclE)

lemma search_step_ids:
  assumes "map_of un i = Some e" and "\<forall>(j, ae) \<in> set un. ev_event_id ae = j"
  shows "(unpersisted_rel un)\<^sup>+ `` {i} =
    set (ev_auth_event_ids e) \<union>
    (unpersisted_rel un)\<^sup>+ `` (ev_event_id ` set (List.map_filter (map_of un) (ev_auth_event_ids e)))"
proof -
  let ?R = "unpersisted_rel un" and ?A = "set (ev_auth_event_ids e)"
  let ?N = "ev_event_id ` set (List.map_filter (map_of un) (ev_auth_event_ids e))"
  have R: "?R `` {i} = ?A" using assms(1) by (auto simp: unpersisted_rel_def)
  have N: "?N = {a \<in> ?A. map_of un a \<noteq> None}"
  proof -
    have "ev_event_id ae = a" if "map_of un a = Some ae" for a ae
      using that assms(2) by (auto dest: map_of_SomeD)
    then show ?thesis by (force simp: set_map_filter)
  qed
  have "?R\<^sup>+ `` ?A = ?R\<^sup>+ `` ?N"
  proof -
    have "a \<in> ?N" if "(a, b) \<in> ?R\<^sup>+" "a \<in> ?A" for a b
      using that tranclD [OF that(1)] unfolding N by (auto simp: unpersisted_rel_def)
    moreover have "?N \<subseteq> ?A" unfolding N by blast
    ultimately show ?thesis by blast
  qed
  with trancl_image_step [of ?R i] R show ?thesis by simp
qed

lemma search_auth_chain_sem:
  assumes wk: "\<forall>(j, ae) \<in> set un. ev_event_id ae = j" and rk: "ranked rank (set un)"
    and "\<forall>e \<in> set st. map_of un (ev_event_id e) = Some e"
  shows "\<exists>chain'. search_auth_chain un chain st = Some chain' \<and>
    set chain' = set chain \<union> (unpersisted_rel un)\<^sup>+ `` (ev_event_id ` set st)"
  using assms(3)
proof (induction "mset (map (rank \<circ> ev_event_id) st)" arbitrary: chain st
    rule: wf_induct_rule [OF wf_mult [OF wf_less_than]])
  case 1
  show ?case
  proof (cases st)
    case Nil
    then show ?thesis by (subst search_auth_chain.simps) simp
  next
    case (Cons e rest)
    let ?new = "rev (List.map_filter (map_of un) (ev_auth_event_ids e))"
    let ?chain = "fold set_add (ev_auth_event_ids e) chain"
    have e: "map_of un (ev_event_id e) = Some e" using 1(2) Cons by simp
    have newD: "map_of un (ev_event_id ae) = Some ae \<and> ev_event_id ae \<in> set (ev_auth_event_ids e)"
      if "ae \<in> set ?new" for ae
    proof -
      from that obtain a where a: "a \<in> set (ev_auth_event_ids e)" "map_of un a = Some ae"
        by (auto simp: set_map_filter)
      with bspec [OF wk map_of_SomeD [OF a(2)]] show ?thesis by simp
    qed
    have "rank (ev_event_id ae) < rank (ev_event_id e)" if "ae \<in> set ?new" for ae
      using newD [OF that] bspec [OF rk [unfolded ranked_def] map_of_SomeD [OF e]] by simp
    then have less: "(mset (map (rank \<circ> ev_event_id) (?new @ rest)), mset (map (rank \<circ> ev_event_id) st)) \<in> mult less_than"
      using one_step_implies_mult [of "{# rank (ev_event_id e) #}" "mset (map (rank \<circ> ev_event_id) ?new)" less_than
          "mset (map (rank \<circ> ev_event_id) rest)"]
      by (simp add: Cons union_commute)
    have "\<forall>ae \<in> set (?new @ rest). map_of un (ev_event_id ae) = Some ae" using 1(2) Cons newD by auto
    from 1(1) [OF less this, of ?chain] obtain chain' where
      c: "search_auth_chain un ?chain (?new @ rest) = Some chain'"
      "set chain' = set ?chain \<union> (unpersisted_rel un)\<^sup>+ `` (ev_event_id ` set (?new @ rest))" by blast
    have "search_auth_chain un chain st = Some chain'"
      using c(1) by (subst search_auth_chain.simps) (simp add: Cons push_auth_events)
    moreover have "set chain' = set chain \<union> (unpersisted_rel un)\<^sup>+ `` (ev_event_id ` set st)"
    proof -
      have st: "ev_event_id ` set st = {ev_event_id e} \<union> ev_event_id ` set rest" by (simp add: Cons)
      show ?thesis
        unfolding c(2) st Image_Un search_step_ids [OF e wk] by (simp add: image_Un Image_Un Un_ac)
    qed
    ultimately show ?thesis by blast
  qed
qed

lemma events_to_auth_chain_sem:
  assumes wk: "well_keyed un" and rk: "ranked rank (set un)" and "set es \<subseteq> snd ` set un"
  shows "\<exists>acs. events_to_auth_chain un es acc = Some acs \<and>
    (\<forall>i. i \<notin> ev_event_id ` set es \<longrightarrow> map_of acs i = map_of acc i) \<and>
    (\<forall>i \<in> ev_event_id ` set es. \<exists>chain. map_of acs i = Some chain \<and> set chain = (unpersisted_rel un)\<^sup>* `` {i})"
  using assms(3)
proof (induction es arbitrary: acc)
  case (Cons e es)
  from wk have ids: "\<forall>(j, ae) \<in> set un. ev_event_id ae = j" and d: "distinct (map fst un)"
    by (simp_all add: well_keyed_def)
  from Cons.prems obtain i where "(i, e) \<in> set un" by auto
  with ids d have e: "map_of un (ev_event_id e) = Some e" by auto
  from search_auth_chain_sem [OF ids rk, of "[e]" "[ev_event_id e]"] e obtain chain where
    c: "search_auth_chain un [ev_event_id e] [e] = Some chain"
    "set chain = {ev_event_id e} \<union> (unpersisted_rel un)\<^sup>+ `` {ev_event_id e}" by auto
  have c2: "set chain = (unpersisted_rel un)\<^sup>* `` {ev_event_id e}"
    unfolding c(2) by (auto simp: rtrancl_eq_or_trancl)
  from Cons.prems have "set es \<subseteq> snd ` set un" by simp
  from Cons.IH [OF this, of "AList.update (ev_event_id e) chain acc"] obtain acs where
    ch: "events_to_auth_chain un es (AList.update (ev_event_id e) chain acc) = Some acs"
    "\<forall>i. i \<notin> ev_event_id ` set es \<longrightarrow> map_of acs i = map_of (AList.update (ev_event_id e) chain acc) i"
    "\<forall>i \<in> ev_event_id ` set es. \<exists>chain. map_of acs i = Some chain \<and> set chain = (unpersisted_rel un)\<^sup>* `` {i}"
    by blast
  have "\<exists>chain. map_of acs i = Some chain \<and> set chain = (unpersisted_rel un)\<^sup>* `` {i}"
    if "i \<in> ev_event_id ` set (e # es)" for i
  proof (cases "i \<in> ev_event_id ` set es")
    case False
    with that have "i = ev_event_id e" by auto
    with ch(2) False c2 show ?thesis by (simp add: update_conv')
  qed (use ch(3) in blast)
  moreover have "map_of acs i = map_of acc i" if "i \<notin> ev_event_id ` set (e # es)" for i
    using ch(2) that by (simp add: update_conv')
  ultimately show ?case using c(1) ch(1) by simp
qed simp

section \<open>The auth chain difference\<close>

lemma unpersisted_rel_outside:
  "map_of un i = None \<Longrightarrow> (unpersisted_rel un)\<^sup>* `` {i} = {i}"
  by (auto simp: unpersisted_rel_def elim: converse_rtranclE)

lemma split_state_set_sem:
  assumes "\<forall>i. map_of acs i \<noteq> None \<longleftrightarrow> dict_has un i"
    and "\<forall>i chain. map_of acs i = Some chain \<longrightarrow> set chain = (unpersisted_rel un)\<^sup>* `` {i}"
  shows "set (fst (split_state_set un acs s)) =
      {i \<in> (unpersisted_rel un)\<^sup>* `` set (map snd s). \<not> dict_has un i} \<and>
    set (snd (split_state_set un acs s)) = {i \<in> (unpersisted_rel un)\<^sup>* `` set (map snd s). dict_has un i}"
proof -
  have one: "set (fst (split_state_event un acs i (a, b))) =
        set a \<union> {j \<in> (unpersisted_rel un)\<^sup>* `` {i}. \<not> dict_has un j} \<and>
      set (snd (split_state_event un acs i (a, b))) =
        set b \<union> {j \<in> (unpersisted_rel un)\<^sup>* `` {i}. dict_has un j}" for i a b
  proof (cases "map_of acs i")
    case None
    with assms(1) have n: "\<not> dict_has un i" by blast
    then have o: "(unpersisted_rel un)\<^sup>* `` {i} = {i}"
      by (simp add: unpersisted_rel_outside dict_has_def)
    have "split_state_event un acs i (a, b) = (set_add i a, b)" using None by (simp add: split_state_event_def)
    then show ?thesis unfolding o using n by auto
  next
    case (Some chain)
    with assms(2) have "set chain = (unpersisted_rel un)\<^sup>* `` {i}" by blast
    with Some show ?thesis by (auto simp: split_state_event_def)
  qed
  have "set (fst (fold (split_state_event un acs) is (a, b))) =
        set a \<union> {j \<in> (unpersisted_rel un)\<^sup>* `` set is. \<not> dict_has un j} \<and>
      set (snd (fold (split_state_event un acs) is (a, b))) =
        set b \<union> {j \<in> (unpersisted_rel un)\<^sup>* `` set is. dict_has un j}" for "is" a b
  proof (induction "is" arbitrary: a b)
    case (Cons i "is")
    obtain a1 b1 where p: "split_state_event un acs i (a, b) = (a1, b1)" by fastforce
    have img: "(unpersisted_rel un)\<^sup>* `` set (i # is) = (unpersisted_rel un)\<^sup>* `` {i} \<union> (unpersisted_rel un)\<^sup>* `` set is"
      by auto
    show ?case
      unfolding img using Cons.IH [of a1 b1] one [of i a b] p by auto
  qed simp
  from this [of "map snd s" "[]" "[]"] show ?thesis by (simp add: split_state_set_def)
qed

text \<open>Chains that alternate between unpersisted and persisted events.\<close>

lemma combined_reach:
  assumes P: "\<forall>(a, b) \<in> P. \<not> dict_has un a \<and> \<not> dict_has un b"
  shows "(unpersisted_rel un \<union> P)\<^sup>* `` V =
    {i \<in> (unpersisted_rel un)\<^sup>* `` V. dict_has un i} \<union>
    P\<^sup>* `` {i \<in> (unpersisted_rel un)\<^sup>* `` V. \<not> dict_has un i}"
    (is "?T\<^sup>* `` V = ?U \<union> P\<^sup>* `` ?F")
proof (rule subset_antisym)
  have "y \<in> ?U \<union> P\<^sup>* `` ?F" if "(x, y) \<in> ?T\<^sup>*" "x \<in> V" for x y
    using that
  proof (induction rule: rtrancl_induct)
    case base
    then show ?case by blast
  next
    case (step y z)
    have R: "dict_has un a" if "(a, b) \<in> unpersisted_rel un" for a b
      using that by (auto simp: unpersisted_rel_def dict_has_def)
    have F: "\<not> dict_has un b" if "(a, b) \<in> P\<^sup>*" "\<not> dict_has un a" for a b
      using that by (induction rule: rtrancl_induct) (use P in auto)
    show ?case
    proof (cases "(y, z) \<in> unpersisted_rel un")
      case True
      from R [OF True] F step.IH [OF step.prems] have "y \<in> (unpersisted_rel un)\<^sup>* `` V" by blast
      with True have "z \<in> (unpersisted_rel un)\<^sup>* `` V" by (auto intro: rtrancl_into_rtrancl)
      then show ?thesis by blast
    next
      case False
      with step.hyps have "(y, z) \<in> P" by blast
      with P have "\<not> dict_has un y" by blast
      with step.IH [OF step.prems] have "y \<in> P\<^sup>* `` ?F" by blast
      with \<open>(y, z) \<in> P\<close> show ?thesis by (auto intro: rtrancl_into_rtrancl)
    qed
  qed
  then show "?T\<^sup>* `` V \<subseteq> ?U \<union> P\<^sup>* `` ?F" by blast
  have R: "(unpersisted_rel un)\<^sup>* \<subseteq> ?T\<^sup>*" and PT: "P\<^sup>* \<subseteq> ?T\<^sup>*" by (simp_all add: rtrancl_mono)
  then show "?U \<union> P\<^sup>* `` ?F \<subseteq> ?T\<^sup>* `` V"
    by (blast intro: rtrancl_trans)
qed

definition union_less_inter :: "'a set list \<Rightarrow> 'a set" where
  "union_less_inter As = \<Union> (set As) - \<Inter> (set As)"

lemma union_minus_intersection_sem:
  "sets \<noteq> [] \<Longrightarrow> \<exists>d. union_minus_intersection sets = Inr d \<and> set d = union_less_inter (map set sets)"
  by (cases sets) (auto simp: union_minus_intersection_def union_less_inter_def list_all_iff)

text \<open>Differences of sets that are split by a predicate add up.\<close>

lemma union_less_inter_split:
  assumes "\<And>x y. x \<in> set xs \<Longrightarrow> y \<in> g x \<longleftrightarrow> y \<in> f x \<and> Q y"
    and "\<And>x y. x \<in> set xs \<Longrightarrow> y \<in> h x \<longleftrightarrow> y \<in> f x \<and> \<not> Q y"
  shows "union_less_inter (map f xs) = union_less_inter (map g xs) \<union> union_less_inter (map h xs)"
proof -
  have mem: "y \<in> union_less_inter (map k xs) \<longleftrightarrow> (\<exists>x \<in> set xs. y \<in> k x) \<and> \<not> (\<forall>x \<in> set xs. y \<in> k x)" for y k
    by (simp add: union_less_inter_def)
  have g: "(\<exists>x \<in> set xs. y \<in> g x) \<longleftrightarrow> (\<exists>x \<in> set xs. y \<in> f x \<and> Q y)"
    "(\<forall>x \<in> set xs. y \<in> g x) \<longleftrightarrow> (\<forall>x \<in> set xs. y \<in> f x \<and> Q y)" for y
    by (simp_all only: assms(1) cong: bex_cong ball_cong)
  have h: "(\<exists>x \<in> set xs. y \<in> h x) \<longleftrightarrow> (\<exists>x \<in> set xs. y \<in> f x \<and> \<not> Q y)"
    "(\<forall>x \<in> set xs. y \<in> h x) \<longleftrightarrow> (\<forall>x \<in> set xs. y \<in> f x \<and> \<not> Q y)" for y
    by (simp_all only: assms(2) cong: bex_cong ball_cong)
  have "y \<in> union_less_inter (map f xs) \<longleftrightarrow>
      y \<in> union_less_inter (map g xs) \<or> y \<in> union_less_inter (map h xs)" for y
    unfolding mem g h by (cases "Q y") simp_all
  then show ?thesis by blast
qed

text \<open>The auth chain difference of the sets is computed from the two parts.\<close>

lemma auth_chain_difference_split:
  assumes wk: "well_keyed un" and rk: "ranked rank (set un)" and ne: "state_sets \<noteq> []"
  shows "\<exists>parts diff. get_auth_chain_difference store r state_sets un = Some (Inr diff) \<and>
    set diff = set (srs_auth_chain_difference store r parts) \<union>
      union_less_inter (map (\<lambda>s. {i \<in> (unpersisted_rel un)\<^sup>* `` set (map snd s). dict_has un i}) state_sets) \<and>
    map set parts = map (\<lambda>s. {i \<in> (unpersisted_rel un)\<^sup>* `` set (map snd s). \<not> dict_has un i}) state_sets"
proof (cases "un = []")
  case True
  then have "unpersisted_rel un = {}" "\<And>i. \<not> dict_has un i" by (auto simp: unpersisted_rel_def dict_has_def)
  then show ?thesis
    using True by (auto simp: get_auth_chain_difference_def union_less_inter_def
        intro!: exI [of _ "map (\<lambda>s. remdups (map snd s)) state_sets"])
next
  case False
  from events_to_auth_chain_sem [OF wk rk, of "map snd un" "[]"] obtain acs where
    acs: "events_to_auth_chain un (map snd un) [] = Some acs"
    "\<forall>i. i \<notin> ev_event_id ` set (map snd un) \<longrightarrow> map_of acs i = None"
    "\<forall>i \<in> ev_event_id ` set (map snd un). \<exists>chain. map_of acs i = Some chain \<and> set chain = (unpersisted_rel un)\<^sup>* `` {i}"
    by auto
  have keys: "ev_event_id ` set (map snd un) = {i. dict_has un i}"
    using wk by (force simp: well_keyed_def dict_has_iff)
  have c1: "map_of acs i \<noteq> None \<longleftrightarrow> dict_has un i" for i
    using acs(2,3) unfolding keys by (cases "dict_has un i") auto
  have c2: "set chain = (unpersisted_rel un)\<^sup>* `` {i}" if "map_of acs i = Some chain" for i chain
  proof -
    from that have "dict_has un i" using c1 [of i] by simp
    with acs(3) obtain ch where "map_of acs i = Some ch" "set ch = (unpersisted_rel un)\<^sup>* `` {i}"
      unfolding keys by blast
    with that show ?thesis by simp
  qed
  have split: "set (fst (split_state_set un acs s)) =
      {i \<in> (unpersisted_rel un)\<^sup>* `` set (map snd s). \<not> dict_has un i}"
    "set (snd (split_state_set un acs s)) = {i \<in> (unpersisted_rel un)\<^sup>* `` set (map snd s). dict_has un i}" for s
    using split_state_set_sem [of acs un s] c1 c2 by blast+
  let ?parts = "map (split_state_set un acs) state_sets"
  from union_minus_intersection_sem [of "map snd ?parts"] ne obtain d where
    d: "union_minus_intersection (map snd ?parts) = Inr d" "set d = union_less_inter (map set (map snd ?parts))"
    by auto
  show ?thesis
    using False acs(1) d split
    by (auto simp: get_auth_chain_difference_def comp_def intro!: exI [of _ "map fst ?parts"])
qed

text \<open>
  C18.  The auth chain difference with unpersisted events is the difference of the full auth
  chains.  The store only knows persisted events: when its answer is the union less the
  intersection of their chains along the persisted references \<open>P\<close>, which do not touch
  unpersisted events, then the result is the union less the intersection of the chains
  along all references, persisted or not.
\<close>

theorem auth_chain_difference_correct:
  assumes "well_keyed un" and "ranked rank (set un)" and "state_sets \<noteq> []"
    and store: "\<forall>sets. set (srs_auth_chain_difference store r sets) =
      union_less_inter (map (\<lambda>ids. P\<^sup>* `` set ids) sets)"
    and P: "\<forall>(a, b) \<in> P. \<not> dict_has un a \<and> \<not> dict_has un b"
  shows "\<exists>diff. get_auth_chain_difference store r state_sets un = Some (Inr diff) \<and>
    set diff = union_less_inter (map (\<lambda>s. (unpersisted_rel un \<union> P)\<^sup>* `` set (map snd s)) state_sets)"
proof -
  let ?C = "\<lambda>s. (unpersisted_rel un)\<^sup>* `` set (map snd s)"
  let ?U = "\<lambda>s. {i \<in> ?C s. dict_has un i}" and ?F = "\<lambda>s. {i \<in> ?C s. \<not> dict_has un i}"
  from auth_chain_difference_split [OF assms(1-3), of store r] obtain parts diff where
    diff: "get_auth_chain_difference store r state_sets un = Some (Inr diff)"
    "set diff = set (srs_auth_chain_difference store r parts) \<union> union_less_inter (map ?U state_sets)"
    and parts: "map set parts = map ?F state_sets" by blast
  have "map (\<lambda>ids. P\<^sup>* `` set ids) parts = map (\<lambda>A. P\<^sup>* `` A) (map set parts)" by simp
  also have "\<dots> = map (\<lambda>s. P\<^sup>* `` ?F s) state_sets" unfolding parts by simp
  finally have acd: "set (srs_auth_chain_difference store r parts) = union_less_inter (map (\<lambda>s. P\<^sup>* `` ?F s) state_sets)"
    using store by simp
  have nP: "\<not> dict_has un b" if "(a, b) \<in> P\<^sup>*" "\<not> dict_has un a" for a b
    using that by (induction rule: rtrancl_induct) (use P in auto)
  have nF: "\<not> dict_has un b" if "b \<in> P\<^sup>* `` ?F s" for b s
    using that nP by auto
  have "union_less_inter (map (\<lambda>s. (unpersisted_rel un \<union> P)\<^sup>* `` set (map snd s)) state_sets) =
      union_less_inter (map ?U state_sets) \<union> union_less_inter (map (\<lambda>s. P\<^sup>* `` ?F s) state_sets)"
    by (rule union_less_inter_split [where Q = "dict_has un"]) (unfold combined_reach [OF P], (use nF in blast)+)
  with diff acd show ?thesis by (simp add: Un_commute)
qed

section \<open>Resolution ends\<close>

lemma find_auth_event_Some:
  assumes "find_auth_event store r key aids em = Inr (Some (aid, e), em')"
    and "drawn (known_events store em0) em"
  shows "aid \<in> set aids \<and> (\<exists>e0. (aid, e0) \<in> known_events store em0 \<and> same_event e e0)"
  using assms
proof (induction aids arbitrary: em)
  case (Cons a aids)
  from Cons.prems(1) obtain x em1 where x: "get_event_or_none store r a em = Inr (x, em1)"
    by (auto simp: rbind_Inr_iff)
  note d = cache.get_event_or_none_keeps [OF x Cons.prems(2)]
  show ?case
  proof (cases "find_auth_event store r key aids em1 = Inr (Some (aid, e), em')")
    case True
    with Cons.IH [OF True d] show ?thesis by simp
  next
    case False
    with Cons.prems(1) x have "x = Some e" "a = aid"
      by (auto simp: rbind_Inr_iff split: option.splits if_splits)
    moreover from this x have "map_of em1 aid = Some e"
      by (auto simp: get_event_or_none_def Let_def split: option.splits if_splits)
    ultimately show ?thesis using d unfolding drawn_def by simp
  qed
qed simp

lemma same_event_auth_ids: "same_event e e0 \<Longrightarrow> ev_auth_event_ids e = ev_auth_event_ids e0 \<and> ev_event_id e = ev_event_id e0"
  by (auto simp: same_event_def)

lemma ranked_refs:
  assumes "ranked rank S" and "(i, e0) \<in> S" and "same_event e e0" and "a \<in> set (ev_auth_event_ids e)"
  shows "rank a < rank i" and "ev_event_id e = i"
  using bspec [OF assms(1) [unfolded ranked_def] assms(2)] assms(4) same_event_auth_ids [OF assms(3)] by auto

lemma mainline_loop_ends:
  assumes rk: "ranked rank (known_events store em0)" and "drawn (known_events store em0) em"
  shows "mainline_loop store r pl ml em \<noteq> None"
  using assms(2)
proof (induction "case pl of None \<Rightarrow> 0 | Some i \<Rightarrow> Suc (rank i)" arbitrary: pl ml em rule: less_induct)
  case less
  show ?case
  proof (cases "pl = None \<or> pl = Some []")
    case True
    then show ?thesis by (subst mainline_loop.simps) auto
  next
    case False
    then obtain i where pl: "pl = Some i" "i \<noteq> []" by (cases pl) auto
    let ?step = "rbind (get_event store r i em) (\<lambda>(pl_ev, em1).
      find_auth_event store r (EventTypes_PowerLevels, []) (ev_auth_event_ids pl_ev) em1)"
    show ?thesis
    proof (cases ?step)
      case (Inl err)
      with pl show ?thesis by (subst mainline_loop.simps) simp
    next
      case (Inr p)
      obtain found em2 where p: "p = (found, em2)" by (cases p)
      from Inr p obtain e em1 where e: "get_event store r i em = Inr (e, em1)"
        and f: "find_auth_event store r (EventTypes_PowerLevels, []) (ev_auth_event_ids e) em1 = Inr (found, em2)"
        by (auto simp: rbind_Inr_iff)
      note d1 = cache.get_event_keeps [OF e less.prems]
      note d2 = cache.find_auth_event_keeps [OF f d1]
      from e have "map_of em1 i = Some e"
        by (auto simp: get_event_Inr get_event_or_none_def Let_def split: option.splits if_splits)
      with d1 obtain e0 where e0: "(i, e0) \<in> known_events store em0" "same_event e e0"
        unfolding drawn_def by blast
      have "(case map_option fst found of None \<Rightarrow> 0 | Some i \<Rightarrow> Suc (rank i)) < Suc (rank i)"
      proof (cases found)
        case (Some q)
        obtain aid ae where q: "q = (aid, ae)" by (cases q)
        with find_auth_event_Some [OF f [unfolded Some q] d1] ranked_refs(1) [OF rk e0] Some show ?thesis by simp
      qed simp
      with less.hyps [of "map_option fst found"] d2 pl
      have "mainline_loop store r (map_option fst found) (ml @ [i]) em2 \<noteq> None" by simp
      with Inr p pl show ?thesis by (subst mainline_loop.simps) simp
    qed
  qed
qed

lemma mainline_depth_ends:
  assumes rk: "ranked rank (known_events store em0)" and "drawn (known_events store em0) em"
    and "\<forall>e. te = Some e \<longrightarrow> (\<exists>i e0. (i, e0) \<in> known_events store em0 \<and> same_event e e0)"
  shows "get_mainline_depth_for_event store r mm te em \<noteq> None"
  using assms(2,3)
proof (induction "case te of None \<Rightarrow> 0 | Some e \<Rightarrow> Suc (rank (ev_event_id e))" arbitrary: te em rule: less_induct)
  case less
  show ?case
  proof (cases te)
    case None
    then show ?thesis by (subst get_mainline_depth_for_event.simps) simp
  next
    case (Some e)
    show ?thesis
    proof (cases "map_of mm (ev_event_id e) \<noteq> None \<or>
        (\<exists>err. find_auth_event store r (EventTypes_PowerLevels, []) (ev_auth_event_ids e) em = Inl err)")
      case True
      with Some show ?thesis by (subst get_mainline_depth_for_event.simps) (auto split: option.split)
    next
      case False
      then obtain found em2 where mm: "map_of mm (ev_event_id e) = None"
        and f: "find_auth_event store r (EventTypes_PowerLevels, []) (ev_auth_event_ids e) em = Inr (found, em2)"
        by (cases "find_auth_event store r (EventTypes_PowerLevels, []) (ev_auth_event_ids e) em") auto
      note d2 = cache.find_auth_event_keeps [OF f less.prems(1)]
      from less.prems(2) Some obtain i e0 where e0: "(i, e0) \<in> known_events store em0" "same_event e e0" by blast
      have next_ok: "get_mainline_depth_for_event store r mm (map_option snd found) em2 \<noteq> None"
      proof (cases found)
        case None
        then show ?thesis by (subst get_mainline_depth_for_event.simps) simp
      next
        case found: (Some q)
        obtain aid ae where q: "q = (aid, ae)" by (cases q)
        from find_auth_event_Some [OF f [unfolded found q] less.prems(1)] obtain a0 where
          a: "aid \<in> set (ev_auth_event_ids e)" "(aid, a0) \<in> known_events store em0" "same_event ae a0" by blast
        have "ev_event_id ae = aid"
          using bspec [OF rk [unfolded ranked_def] a(2)] same_event_auth_ids [OF a(3)] by simp
        with ranked_refs [OF rk e0 a(1)] have "rank (ev_event_id ae) < rank (ev_event_id e)" by simp
        with less.hyps [of "Some ae" em2] Some d2 a(2,3) found q show ?thesis by auto
      qed
      with Some mm f show ?thesis by (subst get_mainline_depth_for_event.simps) simp
    qed
  qed
qed

lemma mainline_orders_end:
  assumes rk: "ranked rank (known_events store em0)" and "drawn (known_events store em0) em"
  shows "mainline_orders store mm ids em \<noteq> None"
  using assms(2)
proof (induction ids arbitrary: em)
  case (Cons i ids)
  show ?case
    unfolding mainline_orders.simps
  proof (intro xbind_ends, goal_cases)
    case (2 e)
    then have "map_of em i = Some e" by (simp add: dict_item_Inr)
    with Cons.prems have "\<exists>e0. (i, e0) \<in> known_events store em0 \<and> same_event e e0"
      unfolding drawn_def by blast
    with mainline_depth_ends [OF rk Cons.prems, of "Some e"] show ?case by blast
  next
    case (3 e p)
    then have d: "drawn (known_events store em0) (snd p)"
      using cache.mainline_depth_keeps [OF _ Cons.prems, of "ev_room_id e" mm "Some e" "fst p" "snd p"] by simp
    obtain a b where "p = (a, b)" by (cases p)
    with Cons.IH [OF d] show ?case by (auto simp: xbind_None simp del: not_None_eq)
  qed simp
qed simp

lemma mainline_sort_ends:
  assumes rk: "ranked rank (known_events store em0)" and d: "drawn (known_events store em0) em"
  shows "mainline_sort store r ids pl em \<noteq> None"
proof (cases "ids = []")
  case False
  have "xbind (mainline_orders store (mainline_positions ml) ids em1)
      (\<lambda>(orders, em2). Some (Inr (sort_key (\<lambda>i. the (map_of orders i)) ids, em2))) \<noteq> None"
    if "mainline_loop store r pl [] em = Some (Inr (ml, em1))" for ml em1
    using mainline_orders_end [OF rk cache.mainline_loop_keeps [OF that d]] by (auto simp: xbind_None simp del: not_None_eq)
  with False show ?thesis
    using mainline_loop_ends [OF rk d] by (auto simp: mainline_sort_def xbind_None simp del: not_None_eq)
qed (simp add: mainline_sort_def)

lemma resolve_conflicts_ends:
  assumes rk: "ranked rank (known_events store em0)" and d: "drawn (known_events store em0) em"
    and dom: "\<forall>i \<in> set fcs. dict_has em i"
  shows "resolve_conflicts vs store r rv u fcs em \<noteq> None"
  unfolding resolve_conflicts_def
proof (intro xbind_ends, goal_cases)
  case 1
  show ?case by (cases rule: power_sort_greedy [OF dom, of store r]) simp_all
next
  case (2 p)
  obtain pevs em1 where p: "p = (pevs, em1)" by (cases p)
  note run = 2 [unfolded p]
  have "mainline_sort store r (filter (\<lambda>i. i \<notin> set pevs) fcs) pl em2 \<noteq> None"
    if "iterative_auth_checks vs store r rv pevs u em1 = Inr (r2, em2)" for r2 em2 pl
  proof -
    have "admitted_state vs (known_events store em0) r u (set fcs) (u, em1)"
      using cache.power_sort_keeps [OF run d] by (simp add: admitted_state_def)
    from iterative_auth_checks_admitted [OF that this power_sort_subset [OF run dom]]
    have "drawn (known_events store em0) em2" by (simp add: admitted_state_def)
    from mainline_sort_ends [OF rk this] show ?thesis .
  qed
  then show ?case by (auto simp: p xbind_None simp del: not_None_eq)
qed

text \<open>
  C17.  State resolution always ends, with a resolved state or with an exception, when the
  references between the known events are acyclic and the event map is keyed by event ID.
\<close>

theorem resolution_ends:
  assumes "ranked rank (known_events store em)" and "well_keyed em"
  shows "resolve_events_with_store vs room_id rv state_sets em store \<noteq> None"
proof -
  obtain u c where uc: "separate state_sets = (u, c)" by fastforce
  show ?thesis
  proof (cases "c = []")
    case True
    with uc show ?thesis by (simp add: resolve_events_with_store_def)
  next
    case False
    with uc have ne: "state_sets \<noteq> []" by (auto simp: separate_def)
    have rk: "ranked rank (set em)" using assms(1) by (auto simp: ranked_def known_events_def)
    from auth_chain_difference_split [OF assms(2) rk ne] obtain diff where
      diff: "get_auth_chain_difference store room_id state_sets em = Some (Inr diff)" by blast
    have "resolve_conflicts vs store room_id rv u fcs em' \<noteq> None"
      if f: "full_conflicted store room_id c diff em = Inr (fcs, em')" for fcs em'
    proof (rule resolve_conflicts_ends [OF assms(1) _ full_conflicted_sem(1) [OF f]])
      show "drawn (known_events store em) em'"
        unfolding full_conflicted_sem(3) [OF f] by (rule cache.fetch [OF drawn_initial])
    qed
    with False uc diff show ?thesis
      by (auto simp: resolve_events_with_store_def xbind_None simp del: not_None_eq)
  qed
qed

section \<open>Witnesses\<close>

definition v2_rank :: "string \<Rightarrow> nat" where
  "v2_rank i = (case map_of (zip (map fst v2_events) [0 ..< length v2_events]) i of None \<Rightarrow> 0 | Some n \<Rightarrow> n)"

lemma v2_ranked: "ranked v2_rank (set v2_events)"
proof -
  have "list_all (\<lambda>(i, e). ev_event_id e = i \<and> list_all (\<lambda>a. v2_rank a < v2_rank i) (ev_auth_event_ids e)) v2_events"
    by code_simp
  then show ?thesis by (auto simp: ranked_def list_all_iff)
qed

theorem resolution_ends_witness:
  "resolve_events_with_store sample_verifier ''!r:x'' V10 v2_sets [] v2_store \<noteq> None"
proof (rule resolution_ends)
  have "known_events v2_store [] \<subseteq> set v2_events" by (auto simp: known_events_def v2_store_def)
  with v2_ranked show "ranked v2_rank (known_events v2_store [])" unfolding ranked_def by blast
qed (simp add: well_keyed_def)

text \<open>A room whose create event is the only persisted one.\<close>

definition young_store :: state_res_store where
  "young_store = \<lparr>srs_get_events = (\<lambda>_. []), srs_auth_chain_difference =
     (\<lambda>_ sets. case union_minus_intersection sets of Inl _ \<Rightarrow> [] | Inr d \<Rightarrow> d)\<rparr>"

definition young_sets :: "id_state list" where
  "young_sets = [[((EventTypes_Create, []), ''$c'')],
     [((EventTypes_Create, []), ''$c''), ((EventTypes_Member, ''@a:x''), ''$a'')]]"

theorem auth_chain_difference_correct_witness:
  "\<exists>diff. get_auth_chain_difference young_store ''!r:x'' young_sets [v2_events ! 1] = Some (Inr diff) \<and>
    set diff = union_less_inter
      (map (\<lambda>s. (unpersisted_rel [v2_events ! 1] \<union> {})\<^sup>* `` set (map snd s)) young_sets)"
proof (rule auth_chain_difference_correct)
  have e: "v2_events ! 1 = v2_event ''$a'' [''$c''] 1 (sample_room ! 3)" by (simp add: v2_events_def)
  show "well_keyed [v2_events ! 1]" unfolding e by (simp add: v2_event_def well_keyed_def)
  have "v2_events ! 1 \<in> set v2_events" by (simp add: v2_events_def)
  with v2_ranked show "ranked v2_rank (set [v2_events ! 1])" unfolding ranked_def by auto
  show "young_sets \<noteq> []" by (simp add: young_sets_def)
  show "\<forall>sets. set (srs_auth_chain_difference young_store ''!r:x'' sets) =
      union_less_inter (map (\<lambda>ids. {}\<^sup>* `` set ids) sets)"
  proof
    fix sets :: "string list list"
    show "set (srs_auth_chain_difference young_store ''!r:x'' sets) =
        union_less_inter (map (\<lambda>ids. {}\<^sup>* `` set ids) sets)"
      using union_minus_intersection_sem [of sets]
      by (cases "sets = []") (auto simp: young_store_def union_minus_intersection_def union_less_inter_def)
  qed
qed simp

end
