(* ===== verification/Id_Generators.thy ===== *)
theory Id_Generators
  imports Prelude
begin

text \<open>
  \<^verbatim>\<open>synapse/storage/util/id_generators.py\<close>: allocation of stream IDs and the
  position up to which everything has been persisted.  A method that holds the lock for its
  whole body is one function; \<^verbatim>\<open>_load_next_mult_id_txn\<close>, which takes the lock
  three times around a database call, is three functions, so that other calls may come in
  between.  \<^verbatim>\<open>SortedSet\<close> and \<^verbatim>\<open>SortedList\<close> are given by their
  contents, a set and a multiset, with the least element for index 0 and the greatest for
  index -1.  Notifying replication does not change the generator.
\<close>

section \<open>IdGenerator\<close>

record id_generator =
  ig_next_id :: int

text \<open>\<^verbatim>\<open>_load_current_id\<close>: \<open>val\<close> is what the query for the maximum (minimum) returned.\<close>

definition load_current_id :: "int option \<Rightarrow> int \<Rightarrow> int" where
  "load_current_id val step =
     (let current_id = (case val of None \<Rightarrow> step | Some v \<Rightarrow> if v = 0 then step else v)
      in (if 0 < step then max current_id step else min current_id step))"

definition ig_get_next :: "id_generator \<Rightarrow> int \<times> id_generator" where
  "ig_get_next g = (ig_next_id g + 1, g\<lparr>ig_next_id := ig_next_id g + 1\<rparr>)"

section \<open>StreamIdGenerator\<close>

text \<open>\<open>sg_unfinished_ids\<close> has the keys of the ordered dict, oldest first.\<close>

record stream_id_generator =
  sg_step :: int
  sg_current :: int
  sg_is_writer :: bool
  sg_unfinished_ids :: "int list"

definition StreamIdGenerator :: "int option \<Rightarrow> int option list \<Rightarrow> int \<Rightarrow> bool \<Rightarrow> stream_id_generator result" where
  "StreamIdGenerator val extra_tables step is_writer =
     (if step = 0 then Inl PyAssertionError
      else Inr \<lparr>sg_step = step,
        sg_current = fold (\<lambda>v cur. (if 0 < step then max else min) cur (load_current_id v step))
          extra_tables (load_current_id val step),
        sg_is_writer = is_writer, sg_unfinished_ids = []\<rparr>)"

definition sg_advance :: "int \<Rightarrow> stream_id_generator \<Rightarrow> stream_id_generator result" where
  "sg_advance new_id g =
     (if sg_is_writer g then Inl (PyException ''Replication is not supported by writer StreamIdGenerator'')
      else Inr (g\<lparr>sg_current := (if 0 < sg_step g then max else min) (sg_current g) new_id\<rparr>))"

text \<open>Entering \<^verbatim>\<open>get_next\<close> and \<^verbatim>\<open>get_next_mult\<close>, and leaving their context.\<close>

definition sg_get_next :: "stream_id_generator \<Rightarrow> int \<times> stream_id_generator" where
  "sg_get_next g =
     (let next_id = sg_current g + sg_step g
      in (next_id, g\<lparr>sg_current := next_id, sg_unfinished_ids := set_add next_id (sg_unfinished_ids g)\<rparr>))"

definition sg_get_next_mult :: "nat \<Rightarrow> stream_id_generator \<Rightarrow> int list \<times> stream_id_generator" where
  "sg_get_next_mult n g =
     (let next_ids = map (\<lambda>k. sg_current g + sg_step g * (int k + 1)) [0 ..< n]
      in (next_ids, g\<lparr>sg_current := sg_current g + int n * sg_step g,
            sg_unfinished_ids := fold set_add next_ids (sg_unfinished_ids g)\<rparr>))"

fun sg_finish :: "int list \<Rightarrow> stream_id_generator \<Rightarrow> stream_id_generator result" where
  "sg_finish [] g = Inr g"
| "sg_finish (i # is) g =
     (if i \<in> set (sg_unfinished_ids g)
      then sg_finish is (g\<lparr>sg_unfinished_ids := removeAll i (sg_unfinished_ids g)\<rparr>)
      else Inl PyKeyError)"

definition sg_get_next_txn :: "stream_id_generator \<Rightarrow> (int \<times> stream_id_generator) result" where
  "sg_get_next_txn g =
     (if \<not> sg_is_writer g then Inl (PyException ''Tried to allocate stream ID on non-writer'')
      else Inr (sg_get_next g))"

definition sg_get_current_token :: "stream_id_generator \<Rightarrow> int" where
  "sg_get_current_token g =
     (if \<not> sg_is_writer g then sg_current g
      else case sg_unfinished_ids g of [] \<Rightarrow> sg_current g | i # _ \<Rightarrow> i - sg_step g)"

section \<open>MultiWriterIdGenerator\<close>

record mw_gen =
  mw_instance_name :: string
  mw_writers :: "string list"
  mw_positive :: bool
  mw_current_positions :: "(string \<times> int) list"
  mw_unfinished_ids :: "int set"
  mw_in_flight_fetches :: "int multiset"
  mw_finished_ids :: "int list"
  mw_persisted_upto_position :: int
  mw_known_persisted_positions :: "int list"
  mw_max_seen_allocated_stream_id :: int
  mw_max_position_of_local_instance :: int

definition return_factor :: "mw_gen \<Rightarrow> int" where
  "return_factor g = (if mw_positive g then 1 else -1)"

text \<open>Nothing is being written or allocated by this instance.\<close>

definition quiet :: "mw_gen \<Rightarrow> bool" where
  "quiet g \<longleftrightarrow> mw_unfinished_ids g = {} \<and> mw_in_flight_fetches g = {#}"

text \<open>The loop over the heap of known persisted positions.\<close>

fun skip_forward :: "int \<Rightarrow> int list \<Rightarrow> int \<times> int list" where
  "skip_forward p [] = (p, [])"
| "skip_forward p (x # xs) =
     (if x \<le> p then skip_forward p xs
      else if x = p + 1 then skip_forward (p + 1) xs
      else (p, x # xs))"

text \<open>\<^verbatim>\<open>min(..., default=...)\<close>.\<close>

definition min_default :: "int list \<Rightarrow> int \<Rightarrow> int" where
  "min_default xs d = (case xs of [] \<Rightarrow> d | x # ys \<Rightarrow> fold min ys x)"

definition max_default :: "int list \<Rightarrow> int \<Rightarrow> int" where
  "max_default xs d = (case xs of [] \<Rightarrow> d | x # ys \<Rightarrow> fold max ys x)"

definition own_position :: "mw_gen \<Rightarrow> int" where
  "own_position g = (case map_of (mw_current_positions g) (mw_instance_name g) of None \<Rightarrow> 0 | Some p \<Rightarrow> p)"

definition min_curr :: "mw_gen \<Rightarrow> int" where
  "min_curr g =
     (let others = min_default (map snd (filter (\<lambda>(name, _). name \<noteq> mw_instance_name g) (mw_current_positions g)))
            (own_position g)
      in if own_position g \<noteq> 0 \<and> \<not> quiet g then min others (own_position g) else others)"

definition add_persisted_position :: "int \<Rightarrow> mw_gen \<Rightarrow> mw_gen" where
  "add_persisted_position new_id g =
     (let known = heappush (mw_known_persisted_positions g) new_id;
          upto = max (min_curr g) (mw_persisted_upto_position g);
          local1 = max (mw_max_position_of_local_instance g) upto;
          local2 = (if quiet g then max (mw_max_seen_allocated_stream_id g) local1 else local1)
      in case skip_forward upto known of (upto', known') \<Rightarrow>
           g\<lparr>mw_known_persisted_positions := known', mw_persisted_upto_position := upto',
             mw_max_position_of_local_instance := local2\<rparr>)"

text \<open>\<^verbatim>\<open>_load_next_mult_id_txn\<close>: before, after and, in the \<^verbatim>\<open>finally\<close> block, at the end.\<close>

definition begin_fetch :: "mw_gen \<Rightarrow> int \<times> mw_gen" where
  "begin_fetch g =
     (let current_max = mw_max_seen_allocated_stream_id g
      in (current_max, g\<lparr>mw_in_flight_fetches := add_mset current_max (mw_in_flight_fetches g)\<rparr>))"

definition record_fetch :: "int list \<Rightarrow> mw_gen \<Rightarrow> mw_gen result" where
  "record_fetch stream_ids g =
     (let unfinished = mw_unfinished_ids g \<union> set stream_ids
      in if unfinished = {} then Inl PyIndexError
         else Inr (g\<lparr>mw_unfinished_ids := unfinished,
           mw_max_seen_allocated_stream_id := max (mw_max_seen_allocated_stream_id g) (Max unfinished)\<rparr>))"

definition end_fetch :: "int \<Rightarrow> mw_gen \<Rightarrow> mw_gen" where
  "end_fetch current_max g = g\<lparr>mw_in_flight_fetches := mw_in_flight_fetches g - {# current_max #}\<rparr>"

text \<open>
  The three sections in a row; \<open>fetched\<close> is what the sequence returned or raised.  The
  generator is changed on the error paths too.
\<close>

definition load_next_mult_id_txn :: "int list result \<Rightarrow> mw_gen \<Rightarrow> int list result \<times> mw_gen" where
  "load_next_mult_id_txn fetched g =
     (case begin_fetch g of (current_max, g1) \<Rightarrow>
        case fetched of
          Inl e \<Rightarrow> (Inl e, end_fetch current_max g1)
        | Inr stream_ids \<Rightarrow>
            case record_fetch stream_ids g1 of
              Inl e \<Rightarrow> (Inl e, end_fetch current_max g1)
            | Inr g2 \<Rightarrow> (Inr stream_ids, end_fetch current_max g2))"

text \<open>The check at the start of \<^verbatim>\<open>get_next\<close>, \<^verbatim>\<open>get_next_mult\<close> and \<^verbatim>\<open>get_next_txn\<close>.\<close>

definition check_writer :: "mw_gen \<Rightarrow> unit result" where
  "check_writer g =
     guard_raise (mw_writers g \<noteq> [] \<and> mw_instance_name g \<notin> set (mw_writers g))
       (PyException ''Tried to allocate stream ID on non-writer'')"

definition get_next_mult_txn :: "int list result \<Rightarrow> mw_gen \<Rightarrow> int list result \<times> mw_gen" where
  "get_next_mult_txn fetched g =
     (case check_writer g of
        Inl e \<Rightarrow> (Inl e, g)
      | Inr _ \<Rightarrow>
          case load_next_mult_id_txn fetched g of
            (Inl e, g1) \<Rightarrow> (Inl e, g1)
          | (Inr next_ids, g1) \<Rightarrow> (Inr (map (\<lambda>next_id. return_factor g1 * next_id) next_ids), g1))"

text \<open>The least ID that may still be unfinished.\<close>

definition min_unfinished :: "mw_gen \<Rightarrow> int" where
  "min_unfinished g =
     (if mw_unfinished_ids g \<noteq> {} \<and> mw_in_flight_fetches g \<noteq> {#}
      then min (Min (mw_unfinished_ids g)) (Min (set_mset (mw_in_flight_fetches g)) + 1)
      else if mw_in_flight_fetches g \<noteq> {#} then Min (set_mset (mw_in_flight_fetches g)) + 1
      else Min (mw_unfinished_ids g))"

definition opt_max :: "int list \<Rightarrow> int option" where
  "opt_max xs = fold (\<lambda>s cur. case cur of None \<Rightarrow> Some s | Some c \<Rightarrow> if c < s then Some s else cur) xs None"

definition set_own_position :: "int option \<Rightarrow> mw_gen \<Rightarrow> mw_gen" where
  "set_own_position new_cur g =
     (case new_cur of
        None \<Rightarrow> g
      | Some c \<Rightarrow>
          if c = 0 then g
          else g\<lparr>mw_current_positions := AList.update (mw_instance_name g) (max (own_position g) c) (mw_current_positions g),
                 mw_max_position_of_local_instance := max (max (own_position g) c) (mw_max_position_of_local_instance g)\<rparr>)"

definition mark_ids_as_finished :: "int list \<Rightarrow> mw_gen \<Rightarrow> mw_gen result" where
  "mark_ids_as_finished next_ids g =
     (let g1 = g\<lparr>mw_unfinished_ids := mw_unfinished_ids g - set next_ids,
                 mw_finished_ids := fold set_add next_ids (mw_finished_ids g)\<rparr>;
          fin = mw_finished_ids g1
      in if \<not> quiet g1 then
           Inr (fold add_persisted_position next_ids
             (set_own_position (opt_max (filter (\<lambda>s. s < min_unfinished g1) fin))
               (g1\<lparr>mw_finished_ids := filter (\<lambda>s. \<not> s < min_unfinished g1) fin\<rparr>)))
         else if fin = [] then Inl PyValueError
         else
           Inr (fold add_persisted_position next_ids
             (set_own_position (opt_max fin) (g1\<lparr>mw_finished_ids := []\<rparr>))))"

definition mw_advance :: "string \<Rightarrow> int \<Rightarrow> mw_gen \<Rightarrow> mw_gen" where
  "mw_advance instance_name new_id0 g =
     (let new_id = new_id0 * return_factor g;
          old = (case map_of (mw_current_positions g) instance_name of None \<Rightarrow> 0 | Some p \<Rightarrow> p)
      in add_persisted_position new_id
           (g\<lparr>mw_current_positions := AList.update instance_name (max new_id old) (mw_current_positions g),
              mw_max_seen_allocated_stream_id := max (mw_max_seen_allocated_stream_id g) new_id\<rparr>))"

definition get_persisted_upto_position :: "mw_gen \<Rightarrow> int" where
  "get_persisted_upto_position g = return_factor g * mw_persisted_upto_position g"

definition get_current_token :: "mw_gen \<Rightarrow> int" where
  "get_current_token g = get_persisted_upto_position g"

definition get_current_token_for_writer :: "string \<Rightarrow> mw_gen \<Rightarrow> int" where
  "get_current_token_for_writer instance_name g =
     (if mw_instance_name g = instance_name then return_factor g * mw_max_position_of_local_instance g
      else
        let pos = (case map_of (mw_current_positions g) instance_name of
                     None \<Rightarrow> mw_persisted_upto_position g | Some p \<Rightarrow> p)
        in return_factor g * max pos (mw_persisted_upto_position g))"

definition get_minimal_local_current_token :: "mw_gen \<Rightarrow> int" where
  "get_minimal_local_current_token g =
     return_factor g * (case map_of (mw_current_positions g) (mw_instance_name g) of
                          None \<Rightarrow> mw_persisted_upto_position g | Some p \<Rightarrow> p)"

definition get_positions :: "mw_gen \<Rightarrow> (string \<times> int) list" where
  "get_positions g = map (\<lambda>(name, i). (name, return_factor g * i)) (mw_current_positions g)"

subsection \<open>Loading the state from the database\<close>

text \<open>The rows of \<^verbatim>\<open>stream_positions\<close> for the stream and of each of its tables.\<close>

record mw_db =
  db_stream_positions :: "(string \<times> int) list"
  db_tables :: "(string \<times> int) list list"

definition blank_generator :: "string \<Rightarrow> string list \<Rightarrow> bool \<Rightarrow> mw_gen" where
  "blank_generator instance_name writers positive =
     \<lparr>mw_instance_name = instance_name, mw_writers = writers, mw_positive = positive,
      mw_current_positions = [], mw_unfinished_ids = {}, mw_in_flight_fetches = {#},
      mw_finished_ids = [], mw_persisted_upto_position = 1, mw_known_persisted_positions = [],
      mw_max_seen_allocated_stream_id = 1, mw_max_position_of_local_instance = 1\<rparr>"

text \<open>One row in the loop of \<^verbatim>\<open>_load_current_ids\<close>.\<close>

definition load_row :: "string \<times> int \<Rightarrow> mw_gen \<Rightarrow> mw_gen" where
  "load_row row g =
     (case row of (inst, sid) \<Rightarrow>
        let stream_id = return_factor g * sid;
            g1 = add_persisted_position stream_id g
        in if inst = mw_instance_name g
           then g1\<lparr>mw_current_positions := AList.update inst stream_id (mw_current_positions g1)\<rparr> else g1)"

definition load_current_ids :: "mw_db \<Rightarrow> mw_gen \<Rightarrow> mw_gen" where
  "load_current_ids db g0 =
     (let f = return_factor g0;
          g1 = (if mw_writers g0 = [] then g0
                else g0\<lparr>mw_current_positions :=
                  dict_update [] (map (\<lambda>(inst, sid). (inst, sid * f))
                    (filter (\<lambda>(inst, _). inst \<in> set (mw_writers g0)) (db_stream_positions db)))\<rparr>);
          positions = map snd (mw_current_positions g1);
          g2 = (if positions = []
                then g1\<lparr>mw_persisted_upto_position :=
                  fold (\<lambda>rows m. max m (max (max_default (map (\<lambda>(_, sid). f * sid) rows) 1) 1)) (db_tables db) 1\<rparr>
                else
                  let min_stream_id = min_default positions 0;
                      rows = filter (\<lambda>(_, sid). min_stream_id \<le> f * sid) (concat (db_tables db))
                  in fold load_row (sort_key snd rows) (g1\<lparr>mw_persisted_upto_position := min_stream_id\<rparr>))
      in g2\<lparr>mw_current_positions :=
           fold (\<lambda>w d. dict_setdefault d w (mw_persisted_upto_position g2)) (mw_writers g0) (mw_current_positions g2)\<rparr>)"

definition MultiWriterIdGenerator :: "mw_db \<Rightarrow> string \<Rightarrow> string list \<Rightarrow> bool \<Rightarrow> mw_gen" where
  "MultiWriterIdGenerator db instance_name writers positive =
     (let g1 = load_current_ids db (blank_generator instance_name writers positive);
          seen = max (max_default (map snd (mw_current_positions g1)) 1) (mw_persisted_upto_position g1);
          g2 = g1\<lparr>mw_max_seen_allocated_stream_id := seen, mw_max_position_of_local_instance := seen\<rparr>
      in if writers = []
         then g2\<lparr>mw_current_positions :=
           AList.update instance_name (mw_persisted_upto_position g2) (mw_current_positions g2)\<rparr>
         else g2)"

subsection \<open>The table of positions\<close>

text \<open>Rows of instances that no longer write are deleted when a generator starts.\<close>

definition delete_stale_positions :: "string list \<Rightarrow> mw_db \<Rightarrow> mw_db" where
  "delete_stale_positions writers db =
     (if writers = [] then db
      else db\<lparr>db_stream_positions := filter (\<lambda>(inst, _). inst \<in> set writers) (db_stream_positions db)\<rparr>)"

text \<open>The upsert of \<^verbatim>\<open>_update_stream_positions_table_txn\<close>.\<close>

definition update_stream_positions_table :: "mw_gen \<Rightarrow> mw_db \<Rightarrow> mw_db" where
  "update_stream_positions_table g db =
     (if mw_writers g = [] then db
      else
        let name = mw_instance_name g;
            pos = get_current_token_for_writer name g;
            stored = (case map_of (db_stream_positions db) name of
                        None \<Rightarrow> pos
                      | Some old \<Rightarrow> if mw_positive g then max old pos else min old pos)
        in db\<lparr>db_stream_positions := AList.update name stored (db_stream_positions db)\<rparr>)"

text \<open>Leaving the context of \<^verbatim>\<open>get_next\<close>; \<open>failed\<close> when an exception was raised in it.\<close>

definition mw_aexit :: "bool \<Rightarrow> int list \<Rightarrow> mw_gen \<Rightarrow> mw_db \<Rightarrow> (mw_gen \<times> mw_db) result" where
  "mw_aexit failed stream_ids g db =
     rbind (mark_ids_as_finished stream_ids g)
       (\<lambda>g1. Inr (g1, if failed then db else update_stream_positions_table g1 db))"

text \<open>Stored positions never move backwards, whichever way the stream runs.\<close>

lemma update_stream_positions_table_advances:
  assumes "map_of (db_stream_positions db) inst = Some old"
  shows "\<exists>new. map_of (db_stream_positions (update_stream_positions_table g db)) inst = Some new \<and>
    return_factor g * old \<le> return_factor g * new"
  using assms by (auto simp: update_stream_positions_table_def Let_def update_conv' return_factor_def)

text \<open>Deleting stale rows does not change what a generator loads.\<close>

lemma load_current_ids_stale [simp]:
  "mw_writers g = ws \<Longrightarrow> load_current_ids (delete_stale_positions ws db) g = load_current_ids db g"
  by (simp add: load_current_ids_def delete_stale_positions_def Let_def filter_filter)

end
