(* ===== verification/Stream_Ids.thy ===== *)
theory Stream_Ids
  imports Id_Generators
begin

text \<open>
  The single-writer stream ID generator in all interleavings of its callers: the current
  token is the largest position such that every stream ID up to it is finished.
\<close>

section \<open>Callers of the generator\<close>

text \<open>
  The generator with the batches of IDs whose contexts are open.  \<open>sw_start\<close> is the
  position it started from and \<open>sw_count\<close> the number of IDs handed out since.
\<close>

record sg_world =
  sw_gen :: stream_id_generator
  sw_start :: int
  sw_count :: nat
  sw_open :: "int list list"

inductive sg_step_rel :: "sg_world \<Rightarrow> sg_world \<Rightarrow> bool" where
  get_next: "sg_get_next (sw_gen w) = (i, g) \<Longrightarrow>
    sg_step_rel w (w\<lparr>sw_gen := g, sw_count := Suc (sw_count w), sw_open := [i] # sw_open w\<rparr>)"
| get_next_mult: "sg_get_next_mult n (sw_gen w) = (ids, g) \<Longrightarrow>
    sg_step_rel w (w\<lparr>sw_gen := g, sw_count := sw_count w + n, sw_open := ids # sw_open w\<rparr>)"
| get_next_txn: "sg_get_next_txn (sw_gen w) = Inr (i, g) \<Longrightarrow>
    sg_step_rel w (w\<lparr>sw_gen := g, sw_count := Suc (sw_count w), sw_open := [i] # sw_open w\<rparr>)"
| finish: "ids \<in> set (sw_open w) \<Longrightarrow> sg_finish ids (sw_gen w) = Inr g \<Longrightarrow>
    sg_step_rel w (w\<lparr>sw_gen := g, sw_open := remove1 ids (sw_open w)\<rparr>)"

definition sg_initial :: "sg_world \<Rightarrow> bool" where
  "sg_initial w \<longleftrightarrow> (\<exists>val extra step. StreamIdGenerator val extra step True = Inr (sw_gen w)) \<and>
     sw_start w = sg_current (sw_gen w) \<and> sw_count w = 0 \<and> sw_open w = []"

definition sg_reachable :: "sg_world \<Rightarrow> bool" where
  "sg_reachable w \<longleftrightarrow> (\<exists>w0. sg_initial w0 \<and> sg_step_rel\<^sup>*\<^sup>* w0 w)"

text \<open>The \<open>j\<close>th ID, and the IDs still in use.\<close>

definition nth_id :: "sg_world \<Rightarrow> nat \<Rightarrow> int" where
  "nth_id w j = sw_start w + sg_step (sw_gen w) * int j"

definition in_use :: "sg_world \<Rightarrow> int set" where
  "in_use w = set (concat (sw_open w))"

section \<open>The invariant\<close>

definition sg_inv :: "sg_world \<Rightarrow> bool" where
  "sg_inv w \<longleftrightarrow> sg_is_writer (sw_gen w) \<and> sg_step (sw_gen w) \<noteq> 0 \<and>
     sg_current (sw_gen w) = nth_id w (sw_count w) \<and>
     distinct (concat (sw_open w)) \<and> in_use w \<subseteq> nth_id w ` {1 .. sw_count w} \<and>
     sg_unfinished_ids (sw_gen w) =
       map (nth_id w) (filter (\<lambda>j. nth_id w j \<in> in_use w) [1 ..< Suc (sw_count w)])"

lemma nth_id_inj: "sg_step (sw_gen w) \<noteq> 0 \<Longrightarrow> nth_id w i = nth_id w j \<longleftrightarrow> i = j"
  by (simp add: nth_id_def)

lemma fold_set_add_new:
  "distinct ys \<Longrightarrow> set ys \<inter> set xs = {} \<Longrightarrow> fold set_add ys xs = xs @ ys"
  by (induction ys arbitrary: xs) (auto simp: set_add_def)

lemma sg_finish_filter:
  "distinct ids \<Longrightarrow> set ids \<subseteq> set (sg_unfinished_ids g) \<Longrightarrow>
     sg_finish ids g = Inr (g\<lparr>sg_unfinished_ids := filter (\<lambda>i. i \<notin> set ids) (sg_unfinished_ids g)\<rparr>)"
proof (induction ids arbitrary: g)
  case (Cons i ids)
  let ?g = "g\<lparr>sg_unfinished_ids := removeAll i (sg_unfinished_ids g)\<rparr>"
  have "sg_finish ids ?g = Inr (?g\<lparr>sg_unfinished_ids := filter (\<lambda>j. j \<notin> set ids) (sg_unfinished_ids ?g)\<rparr>)"
    using Cons.prems by (intro Cons.IH) auto
  moreover have "filter (\<lambda>j. j \<notin> set ids) (removeAll i (sg_unfinished_ids g)) =
      filter (\<lambda>j. j \<notin> set (i # ids)) (sg_unfinished_ids g)"
    by (auto simp: removeAll_filter_not_eq intro: filter_cong)
  ultimately show ?case using Cons.prems by simp
qed simp

text \<open>One ID is a batch of one.\<close>

lemma get_next_mult_one: "sg_get_next g = (i, g') \<longleftrightarrow> sg_get_next_mult 1 g = ([i], g')"
  by (auto simp: sg_get_next_def sg_get_next_mult_def Let_def)

lemma sg_alloc_inv:
  assumes inv: "sg_inv w" and get: "sg_get_next_mult n (sw_gen w) = (ids, g)"
  shows "sg_inv (w\<lparr>sw_gen := g, sw_count := sw_count w + n, sw_open := ids # sw_open w\<rparr>)" (is "sg_inv ?w")
proof -
  let ?c = "sw_count w" and ?id = "nth_id w"
  note i = inv [unfolded sg_inv_def]
  have new: "ids = map ?id [Suc ?c ..< Suc (?c + n)]"
  proof -
    have "ids = map (\<lambda>k. ?id (Suc (?c + k))) [0 ..< n]"
      using get i by (auto simp: sg_get_next_mult_def Let_def nth_id_def algebra_simps)
    also have "\<dots> = map ?id (map (\<lambda>k. k + Suc ?c) [0 ..< n])" by (simp add: add.commute)
    finally show ?thesis by (simp only: map_add_upt add.commute [of n] add_Suc)
  qed
  have id: "nth_id ?w = ?id" using get by (auto simp: nth_id_def sg_get_next_mult_def Let_def fun_eq_iff)
  have st: "sg_step (sw_gen w) \<noteq> 0" using i by blast
  have fresh: "?id j \<notin> in_use w" if "j \<in> set [Suc ?c ..< Suc (?c + n)]" for j
  proof
    assume "?id j \<in> in_use w"
    then obtain k where "?id j = ?id k" "k \<le> ?c" using i by (auto simp: subset_iff image_iff)
    with nth_id_inj [OF st] that show False by simp
  qed
  have disj: "set ids \<inter> in_use w = {}" using fresh unfolding new set_map by blast
  have dis: "distinct ids" unfolding new by (simp add: distinct_map inj_on_def nth_id_inj [OF st])
  have use: "in_use ?w = in_use w \<union> set ids" by (auto simp: in_use_def)
  have f1: "filter (\<lambda>j. ?id j \<in> in_use w \<union> set ids) [1 ..< Suc ?c] = filter (\<lambda>j. ?id j \<in> in_use w) [1 ..< Suc ?c]"
    by (rule filter_cong [OF refl]) (auto simp: new nth_id_inj [OF st])
  have f2: "filter (\<lambda>j. ?id j \<in> in_use w \<union> set ids) [Suc ?c ..< Suc (?c + n)] = [Suc ?c ..< Suc (?c + n)]"
    by (rule filter_True) (unfold new set_map, blast)
  have up: "[1 ..< Suc (?c + n)] = [1 ..< Suc ?c] @ [Suc ?c ..< Suc (?c + n)]"
    using upt_add_eq_append [of 1 "Suc ?c" n] by simp
  have unf: "sg_unfinished_ids g = sg_unfinished_ids (sw_gen w) @ ids"
  proof -
    have "set (sg_unfinished_ids (sw_gen w)) \<subseteq> in_use w"
      using i by (auto simp del: upt_Suc)
    with disj have "set ids \<inter> set (sg_unfinished_ids (sw_gen w)) = {}" by blast
    with get fold_set_add_new [OF dis] show ?thesis by (auto simp: sg_get_next_mult_def Let_def)
  qed
  also have "\<dots> = map ?id (filter (\<lambda>j. ?id j \<in> in_use w \<union> set ids) [1 ..< Suc (?c + n)])"
    unfolding up filter_append f1 f2 map_append using i new by simp
  finally have u: "sg_unfinished_ids g = map ?id (filter (\<lambda>j. ?id j \<in> in_use w \<union> set ids) [1 ..< Suc (?c + n)])" .
  have cur: "sg_current g = ?id (?c + n)" "sg_is_writer g" "sg_step g \<noteq> 0"
    using get i by (auto simp: sg_get_next_mult_def Let_def nth_id_def algebra_simps)
  have d: "distinct (concat (ids # sw_open w))" using i dis disj by (simp add: in_use_def)
  have sub: "in_use w \<union> set ids \<subseteq> ?id ` {1 .. ?c + n}" using i by (force simp: new)
  show ?thesis
    unfolding sg_inv_def id use using cur u d sub by simp
qed

lemma sg_finish_inv:
  assumes inv: "sg_inv w" and ids: "ids \<in> set (sw_open w)"
  shows "sg_finish ids (sw_gen w) =
      Inr ((sw_gen w)\<lparr>sg_unfinished_ids := filter (\<lambda>i. i \<notin> set ids) (sg_unfinished_ids (sw_gen w))\<rparr>)"
    and "sg_inv (w\<lparr>sw_gen := (sw_gen w)\<lparr>sg_unfinished_ids := filter (\<lambda>i. i \<notin> set ids) (sg_unfinished_ids (sw_gen w))\<rparr>,
      sw_open := remove1 ids (sw_open w)\<rparr>)" (is "sg_inv ?w")
proof -
  note i = inv [unfolded sg_inv_def]
  obtain xs ys where o: "sw_open w = xs @ ids # ys" "remove1 ids (sw_open w) = xs @ ys"
    using ids by (metis remove1_split)
  have dis: "distinct (concat (sw_open w))" using i by blast
  have sub: "set ids \<subseteq> in_use w" by (auto simp: in_use_def o)
  have "in_use ?w = set (concat (xs @ ys))" "in_use w = set (concat (xs @ ids # ys))"
    by (simp_all add: in_use_def o(2)) (auto simp: o(1))
  then have use: "in_use ?w = in_use w - set ids"
    using dis unfolding o(1) by auto
  have id: "nth_id ?w = nth_id w" by (simp add: nth_id_def fun_eq_iff)
  have "set ids \<subseteq> set (sg_unfinished_ids (sw_gen w))"
    using sub i by (fastforce simp: image_iff)
  moreover have "distinct ids" using dis by (simp add: o)
  ultimately show "sg_finish ids (sw_gen w) =
      Inr ((sw_gen w)\<lparr>sg_unfinished_ids := filter (\<lambda>i. i \<notin> set ids) (sg_unfinished_ids (sw_gen w))\<rparr>)"
    by (rule sg_finish_filter [rotated])
  have "filter (\<lambda>i. i \<notin> set ids) (sg_unfinished_ids (sw_gen w)) =
      map (nth_id w) (filter (\<lambda>j. nth_id w j \<in> in_use w - set ids) [1 ..< Suc (sw_count w)])"
    using i by (simp add: filter_map comp_def del: upt_Suc)
  moreover have "distinct (concat (remove1 ids (sw_open w)))"
    unfolding o(2) using dis [unfolded o(1)] by auto
  ultimately show "sg_inv ?w" using i unfolding sg_inv_def use id by auto
qed

lemma sg_initial_inv:
  assumes "sg_initial w"
  shows "sg_inv w"
proof -
  from assms have "sg_is_writer (sw_gen w) \<and> sg_step (sw_gen w) \<noteq> 0 \<and> sg_unfinished_ids (sw_gen w) = []"
    by (auto simp: sg_initial_def StreamIdGenerator_def split: if_splits dest!: sym [of _ "sw_gen w"])
  with assms show ?thesis by (simp add: sg_initial_def sg_inv_def in_use_def nth_id_def)
qed

lemma sg_step_inv: "sg_step_rel w w' \<Longrightarrow> sg_inv w \<Longrightarrow> sg_inv w'"
proof (induction rule: sg_step_rel.induct)
  case (get_next w i g)
  with sg_alloc_inv [of w 1 "[i]" g] show ?case by (simp add: get_next_mult_one)
next
  case (get_next_mult n w ids g)
  with sg_alloc_inv show ?case by blast
next
  case (get_next_txn w i g)
  then have "sg_get_next (sw_gen w) = (i, g)" by (simp add: sg_get_next_txn_def split: if_splits)
  with get_next_txn sg_alloc_inv [of w 1 "[i]" g] show ?case by (simp add: get_next_mult_one)
next
  case (finish ids w g)
  with sg_finish_inv [of w ids] show ?case by simp
qed

lemma sg_reachable_inv: "sg_reachable w \<Longrightarrow> sg_inv w"
  unfolding sg_reachable_def
proof (elim exE conjE)
  fix w0 assume "sg_step_rel\<^sup>*\<^sup>* w0 w" and "sg_initial w0"
  then show "sg_inv w" by (induction rule: rtranclp_induct) (auto intro: sg_initial_inv sg_step_inv)
qed

lemma upt_split:
  assumes "[a ..< b] = us @ j # vs"
  shows "us = [a ..< j] \<and> a \<le> j \<and> j < b"
proof -
  have len: "length us < b - a" using arg_cong [OF assms, of length] by simp
  have "j = [a ..< b] ! length us" by (simp add: assms)
  with len have j: "j = a + length us" by simp
  have "us = take (length us) [a ..< b]" by (simp add: assms)
  with len j show ?thesis by simp
qed

text \<open>
  C22.  In every reachable state of a writing stream ID generator, however its callers
  interleave, the current token is the largest position such that all IDs up to it are
  finished: the first \<open>k\<close> IDs are not in use, and the next one, if it was handed out,
  is.  Leaving an open context never raises.
\<close>

theorem stream_token_exact:
  assumes "sg_reachable w"
  shows "(\<exists>k \<le> sw_count w. sg_get_current_token (sw_gen w) = nth_id w k \<and>
      (\<forall>j. 1 \<le> j \<longrightarrow> j \<le> k \<longrightarrow> nth_id w j \<notin> in_use w) \<and>
      (k < sw_count w \<longrightarrow> nth_id w (Suc k) \<in> in_use w)) \<and>
    (\<forall>ids \<in> set (sw_open w). \<exists>g. sg_finish ids (sw_gen w) = Inr g)"
proof -
  have inv: "sg_inv w" using assms by (rule sg_reachable_inv)
  note i = inv [unfolded sg_inv_def]
  let ?open = "filter (\<lambda>j. nth_id w j \<in> in_use w) [1 ..< Suc (sw_count w)]"
  have "\<exists>k \<le> sw_count w. sg_get_current_token (sw_gen w) = nth_id w k \<and>
      (\<forall>j. 1 \<le> j \<longrightarrow> j \<le> k \<longrightarrow> nth_id w j \<notin> in_use w) \<and> (k < sw_count w \<longrightarrow> nth_id w (Suc k) \<in> in_use w)"
  proof (cases ?open)
    case Nil
    then have "\<forall>j. 1 \<le> j \<longrightarrow> j \<le> sw_count w \<longrightarrow> nth_id w j \<notin> in_use w"
      by (auto simp: filter_empty_conv simp del: upt_Suc)
    moreover have "sg_get_current_token (sw_gen w) = nth_id w (sw_count w)"
      using i Nil by (simp add: sg_get_current_token_def del: upt_Suc)
    ultimately show ?thesis by blast
  next
    case (Cons j js)
    then obtain us vs where split: "[1 ..< Suc (sw_count w)] = us @ j # vs"
      "\<forall>u \<in> set us. nth_id w u \<notin> in_use w" "nth_id w j \<in> in_use w"
      by (auto simp: filter_eq_Cons_iff simp del: upt_Suc)
    from split(1) have us: "us = [1 ..< j]" "1 \<le> j" "j \<le> sw_count w"
      using upt_split [OF split(1)] by auto
    have "sg_get_current_token (sw_gen w) = nth_id w j - sg_step (sw_gen w)"
      using i Cons by (simp add: sg_get_current_token_def del: upt_Suc)
    also have "\<dots> = nth_id w (j - 1)" using us(2) by (simp add: nth_id_def algebra_simps of_nat_diff)
    finally have "sg_get_current_token (sw_gen w) = nth_id w (j - 1)" .
    moreover have "\<forall>l. 1 \<le> l \<longrightarrow> l \<le> j - 1 \<longrightarrow> nth_id w l \<notin> in_use w"
      using split(2) us by (auto simp del: upt_Suc)
    ultimately show ?thesis using us split(3) by (intro exI [of _ "j - 1"]) auto
  qed
  with sg_finish_inv(1) [OF inv] show ?thesis by blast
qed

definition sample_sw :: "nat \<Rightarrow> int list list \<Rightarrow> int list \<Rightarrow> int \<Rightarrow> sg_world" where
  "sample_sw n opened unfinished cur =
     \<lparr>sw_gen = \<lparr>sg_step = 1, sg_current = cur, sg_is_writer = True, sg_unfinished_ids = unfinished\<rparr>,
      sw_start = 5, sw_count = n, sw_open = opened\<rparr>"

lemma sample_sw_reachable: "sg_reachable (sample_sw 2 [[6, 7]] [6, 7] 7)"
proof -
  have init: "sg_initial (sample_sw 0 [] [] 5)"
    unfolding sg_initial_def
    by (intro conjI exI [of _ "Some 5"] exI [of _ "[]"] exI [of _ "1 :: int"])
      (simp_all add: sample_sw_def StreamIdGenerator_def load_current_id_def)
  have "sg_get_next_mult 2 (sw_gen (sample_sw 0 [] [] 5)) = ([6, 7], sw_gen (sample_sw 2 [[6, 7]] [6, 7] 7))"
    by (simp add: sample_sw_def sg_get_next_mult_def Let_def set_add_def numeral_2_eq_2)
  from sg_step_rel.get_next_mult [OF this]
  have "sg_step_rel (sample_sw 0 [] [] 5) (sample_sw 2 [[6, 7]] [6, 7] 7)"
    by (simp add: sample_sw_def numeral_2_eq_2)
  with init show ?thesis unfolding sg_reachable_def by blast
qed

theorem stream_token_exact_witness:
  "\<exists>k \<le> 2. sg_get_current_token (sw_gen (sample_sw 2 [[6, 7]] [6, 7] 7)) = nth_id (sample_sw 2 [[6, 7]] [6, 7] 7) k"
proof -
  have "sw_count (sample_sw 2 [[6, 7]] [6, 7] 7) = 2" by (simp add: sample_sw_def)
  with stream_token_exact [OF sample_sw_reachable] show ?thesis by metis
qed

end
