(* ===== verification/Multi_Writer.thy ===== *)
theory Multi_Writer
  imports Id_Generators
begin

text \<open>
  Several processes that write to one stream through \<^verbatim>\<open>MultiWriterIdGenerator\<close>s.
  The step relation interleaves the locked sections of all of them with the values the
  database sequence hands out and with the delivery of positions over replication, in any
  order and possibly late.  The theorem is the safety property the class exists for: the
  position a process reports as persisted stays below every stream ID that any process is
  still using.
\<close>

section \<open>The system\<close>

text \<open>
  A fetch of IDs is in \<open>mw_fetches\<close> until its IDs are recorded, then in
  \<open>mw_ending\<close> until the \<^verbatim>\<open>finally\<close> block has run, and then in
  \<open>mw_open\<close> until the caller is done with the IDs.
\<close>

record mw_world =
  mw_gens :: "string \<Rightarrow> mw_gen"
  mw_seq :: int
  mw_fetches :: "(string \<times> int \<times> int list) multiset"
  mw_ending :: "(string \<times> int \<times> int list) multiset"
  mw_open :: "(string \<times> int list) multiset"
  mw_announced :: "(string \<times> int) set"

inductive mw_step :: "mw_world \<Rightarrow> mw_world \<Rightarrow> bool" where
  begin_: "check_writer (mw_gens W w) = Inr () \<Longrightarrow> begin_fetch (mw_gens W w) = (cm, g) \<Longrightarrow>
    mw_step W (W\<lparr>mw_gens := (mw_gens W)(w := g), mw_fetches := add_mset (w, cm, []) (mw_fetches W)\<rparr>)"
| nextval: "mw_fetches W = add_mset (w, cm, ids) F \<Longrightarrow> mw_seq W < s \<Longrightarrow>
    mw_step W (W\<lparr>mw_seq := s, mw_fetches := add_mset (w, cm, ids @ [s]) F\<rparr>)"
| record_: "mw_fetches W = add_mset (w, cm, ids) F \<Longrightarrow> record_fetch ids (mw_gens W w) = Inr g \<Longrightarrow>
    mw_step W (W\<lparr>mw_gens := (mw_gens W)(w := g), mw_fetches := F, mw_ending := add_mset (w, cm, ids) (mw_ending W)\<rparr>)"
| end_: "mw_ending W = add_mset (w, cm, ids) F \<Longrightarrow>
    mw_step W (W\<lparr>mw_gens := (mw_gens W)(w := end_fetch cm (mw_gens W w)), mw_ending := F,
      mw_open := add_mset (w, ids) (mw_open W)\<rparr>)"
| fail: "mw_fetches W = add_mset (w, cm, ids) F \<Longrightarrow>
    mw_step W (W\<lparr>mw_gens := (mw_gens W)(w := end_fetch cm (mw_gens W w)), mw_fetches := F\<rparr>)"
| finish: "mw_open W = add_mset (w, ids) F \<Longrightarrow> mark_ids_as_finished ids (mw_gens W w) = Inr g \<Longrightarrow>
    mw_step W (W\<lparr>mw_gens := (mw_gens W)(w := g), mw_open := F\<rparr>)"
| announce: "w \<in> set (mw_writers (mw_gens W w)) \<Longrightarrow>
    mw_step W (W\<lparr>mw_announced := insert (w, get_current_token_for_writer w (mw_gens W w)) (mw_announced W)\<rparr>)"
| deliver: "(w, p) \<in> mw_announced W \<Longrightarrow> v \<noteq> w \<Longrightarrow>
    mw_step W (W\<lparr>mw_gens := (mw_gens W)(v := mw_advance w p (mw_gens W v))\<rparr>)"

text \<open>
  All processes start from one database whose rows the sequence has passed, which is what
  \<^verbatim>\<open>check_consistency\<close> of the sequence ensures, and no fetch is under way.
\<close>

definition db_consistent :: "mw_db \<Rightarrow> bool \<Rightarrow> int \<Rightarrow> bool" where
  "db_consistent db positive s \<longleftrightarrow> 1 \<le> s \<and>
     (\<forall>(_, i) \<in> set (db_stream_positions db) \<union> set (concat (db_tables db)).
        1 \<le> (if positive then 1 else -1) * i \<and> (if positive then 1 else -1) * i \<le> s)"

definition mw_initial :: "mw_db \<Rightarrow> string list \<Rightarrow> bool \<Rightarrow> mw_world \<Rightarrow> bool" where
  "mw_initial db writers positive W \<longleftrightarrow> writers \<noteq> [] \<and> db_consistent db positive (mw_seq W) \<and>
     mw_gens W = (\<lambda>v. MultiWriterIdGenerator db v writers positive) \<and>
     mw_fetches W = {#} \<and> mw_ending W = {#} \<and> mw_open W = {#} \<and> mw_announced W = {}"

text \<open>The batches of IDs in use and the IDs with the process that uses them.\<close>

definition batches :: "mw_world \<Rightarrow> (string \<times> int list) multiset" where
  "batches W = image_mset (\<lambda>(w, cm, ids). (w, ids)) (mw_fetches W + mw_ending W) + mw_open W"

definition used_by :: "mw_world \<Rightarrow> (string \<times> int) set" where
  "used_by W = {(w, i). \<exists>ids. (w, ids) \<in># batches W \<and> i \<in> set ids}"

section \<open>What a generator knows\<close>

definition settled :: "int \<Rightarrow> (string \<times> int) set \<Rightarrow> int \<Rightarrow> bool" where
  "settled s U x \<longleftrightarrow> x \<le> s \<and> (\<forall>w. (w, x) \<notin> U)"

text \<open>A position that process \<open>w\<close> may report.\<close>

definition clear_of :: "int \<Rightarrow> (string \<times> int) set \<Rightarrow> string \<Rightarrow> int \<Rightarrow> bool" where
  "clear_of s U w x \<longleftrightarrow> settled s U x \<and> (\<forall>i. (w, i) \<in> U \<longrightarrow> x < i)"

text \<open>A position up to which everything is persisted.\<close>

definition below_all :: "int \<Rightarrow> (string \<times> int) set \<Rightarrow> int \<Rightarrow> bool" where
  "below_all s U x \<longleftrightarrow> x \<le> s \<and> (\<forall>(w, i) \<in> U. x < i)"

definition sane :: "int \<Rightarrow> (string \<times> int) set \<Rightarrow> bool" where
  "sane s U \<longleftrightarrow> 0 \<le> s \<and> (\<forall>(w, i) \<in> U. 0 < i \<and> i \<le> s)"

definition gen_ok :: "int \<Rightarrow> (string \<times> int) set \<Rightarrow> string \<Rightarrow> mw_gen \<Rightarrow> bool" where
  "gen_ok s U v g \<longleftrightarrow> mw_instance_name g = v \<and> distinct (map fst (mw_current_positions g)) \<and>
     (\<forall>w p. map_of (mw_current_positions g) w = Some p \<longrightarrow> clear_of s U w p) \<and>
     mw_max_seen_allocated_stream_id g \<le> s \<and> (\<forall>u. (u, mw_max_seen_allocated_stream_id g) \<in> U \<longrightarrow> u = v) \<and>
     (\<forall>x \<in> set (mw_finished_ids g) \<union> set (mw_known_persisted_positions g). settled s U x) \<and>
     clear_of s U v (mw_max_position_of_local_instance g) \<and> below_all s U (mw_persisted_upto_position g)"

definition covers :: "string list \<Rightarrow> bool \<Rightarrow> mw_gen \<Rightarrow> bool" where
  "covers writers positive g \<longleftrightarrow> mw_writers g = writers \<and> mw_positive g = positive \<and>
     (\<forall>w \<in> set writers. dict_has (mw_current_positions g) w) \<and>
     (mw_instance_name g \<in> set writers \<longrightarrow> 1 \<le> own_position g)"

lemma gen_okI:
  assumes "mw_instance_name g = v" "distinct (map fst (mw_current_positions g))"
    "\<And>w p. map_of (mw_current_positions g) w = Some p \<Longrightarrow> clear_of s U w p"
    "mw_max_seen_allocated_stream_id g \<le> s" "\<And>u. (u, mw_max_seen_allocated_stream_id g) \<in> U \<Longrightarrow> u = v"
    "\<And>x. x \<in> set (mw_finished_ids g) \<Longrightarrow> settled s U x"
    "\<And>x. x \<in> set (mw_known_persisted_positions g) \<Longrightarrow> settled s U x"
    "clear_of s U v (mw_max_position_of_local_instance g)" "below_all s U (mw_persisted_upto_position g)"
  shows "gen_ok s U v g"
  unfolding gen_ok_def using assms by blast

lemma gen_okD:
  assumes "gen_ok s U v g"
  shows "mw_instance_name g = v" "distinct (map fst (mw_current_positions g))"
    "map_of (mw_current_positions g) w = Some p \<Longrightarrow> clear_of s U w p"
    "mw_max_seen_allocated_stream_id g \<le> s" "(u, mw_max_seen_allocated_stream_id g) \<in> U \<Longrightarrow> u = v"
    "x \<in> set (mw_finished_ids g) \<Longrightarrow> settled s U x" "x \<in> set (mw_known_persisted_positions g) \<Longrightarrow> settled s U x"
    "clear_of s U v (mw_max_position_of_local_instance g)" "below_all s U (mw_persisted_upto_position g)"
  using assms unfolding gen_ok_def by blast+

lemma below_all_clear: "below_all s U x \<Longrightarrow> clear_of s U w x"
  by (auto simp: below_all_def clear_of_def settled_def)

lemma max_clear: "clear_of s U w x \<Longrightarrow> clear_of s U w y \<Longrightarrow> clear_of s U w (max x y)"
  by (simp add: max_def)

lemma sane_zero: "sane s U \<Longrightarrow> clear_of s U w 0"
  by (auto simp: sane_def clear_of_def settled_def)

text \<open>IDs become unused, or a new one above all others is allocated: nothing is lost.\<close>

lemma gen_ok_change:
  assumes "gen_ok s U v g" and "s \<le> s'" and "\<forall>(w, i) \<in> U'. (w, i) \<in> U \<or> s < i"
  shows "gen_ok s' U' v g"
proof -
  have c: "clear_of s' U' w x" if "clear_of s U w x" for w x
    using that assms(2,3) by (fastforce simp: clear_of_def settled_def)
  have st: "settled s' U' x" if "settled s U x" for x
    using that assms(2,3) by (fastforce simp: settled_def)
  have b: "below_all s' U' x" if "below_all s U x" for x
    using that assms(2,3) by (fastforce simp: below_all_def)
  have "mw_max_seen_allocated_stream_id g \<le> s'" "\<forall>u. (u, mw_max_seen_allocated_stream_id g) \<in> U' \<longrightarrow> u = v"
    using assms by (fastforce simp: gen_ok_def)+
  with assms(1) c st b show ?thesis unfolding gen_ok_def by blast
qed

section \<open>The operations\<close>

lemma fold_min_le: "fold min ys (x :: int) \<le> x \<and> (\<forall>y \<in> set ys. fold min ys x \<le> y)"
proof (induction ys arbitrary: x)
  case (Cons y ys)
  from Cons [of "min y x"] show ?case by (auto intro: order_trans)
qed simp

lemma fold_min_mem: "fold min ys (x :: int) \<in> insert x (set ys)"
proof (induction ys arbitrary: x)
  case (Cons y ys)
  from Cons [of "min y x"] show ?case by (auto simp: min_def)
qed simp

lemma min_default_le: "y \<in> set xs \<Longrightarrow> min_default xs d \<le> y"
  using fold_min_le by (cases xs) (auto simp: min_default_def)

lemma min_default_mem: "min_default xs d \<in> insert d (set xs)"
  using fold_min_mem by (cases xs) (auto simp: min_default_def)

lemma own_position_clear:
  assumes "gen_ok s U v g" and "sane s U"
  shows "clear_of s U v (own_position g)"
  using assms sane_zero [OF assms(2)] by (auto simp: own_position_def gen_ok_def split: option.split)

lemma min_curr_le_seq:
  assumes "gen_ok s U v g" and "sane s U"
  shows "min_curr g \<le> s"
proof -
  let ?others = "map snd (filter (\<lambda>(name, _). name \<noteq> mw_instance_name g) (mw_current_positions g))"
  have "\<forall>p \<in> insert (own_position g) (set ?others). p \<le> s"
    using own_position_clear [OF assms] assms(1)
    by (auto simp: gen_ok_def clear_of_def settled_def dest: map_of_is_SomeI)
  with min_default_mem [of ?others "own_position g"] have "min_default ?others (own_position g) \<le> s" by blast
  then show ?thesis by (simp add: min_curr_def Let_def min.coboundedI1)
qed

lemma min_curr_below:
  assumes ok: "gen_ok s U v g" and sane: "sane s U" and cov: "covers writers positive g"
    and own: "\<forall>(w, i) \<in> U. w \<in> set writers" and q: "quiet g \<longrightarrow> (\<forall>i. (v, i) \<notin> U)"
  shows "below_all s U (min_curr g)"
proof -
  let ?others = "map snd (filter (\<lambda>(name, _). name \<noteq> mw_instance_name g) (mw_current_positions g))"
  have v: "mw_instance_name g = v" using ok by (simp add: gen_ok_def)
  have "min_curr g < i" if "(w, i) \<in> U" for w i
  proof (cases "w = v")
    case True
    with that q own cov v have "\<not> quiet g" "1 \<le> own_position g" by (auto simp: covers_def)
    then have "min_curr g \<le> own_position g" by (simp add: min_curr_def Let_def)
    also have "\<dots> < i" using own_position_clear [OF ok sane] that True by (simp add: clear_of_def)
    finally show ?thesis .
  next
    case False
    from own that have "w \<in> set writers" by blast
    with cov obtain p where p: "map_of (mw_current_positions g) w = Some p"
      unfolding covers_def dict_has_def by blast
    then have "p \<in> set ?others" using False v by (force dest: map_of_SomeD)
    then have "min_curr g \<le> p"
      using min_default_le [of p ?others "own_position g"] by (simp add: min_curr_def Let_def min.coboundedI1)
    also have "p < i" using ok p that unfolding gen_ok_def clear_of_def by blast
    finally show ?thesis .
  qed
  with min_curr_le_seq [OF ok sane] show ?thesis by (auto simp: below_all_def)
qed

lemma skip_forward_below:
  assumes "below_all s U p" and "\<forall>x \<in> set known. settled s U x"
  shows "below_all s U (fst (skip_forward p known)) \<and> set (snd (skip_forward p known)) \<subseteq> set known"
  using assms
proof (induction p known rule: skip_forward.induct)
  case (2 p x xs)
  show ?case
  proof (cases "x = p + 1")
    case True
    have st: "settled s U (p + 1)" using 2(4) True by simp
    have "p + 1 < i" if "(w, i) \<in> U" for w i
    proof -
      from 2(3) that have "p < i" by (auto simp: below_all_def)
      moreover from st that have "i \<noteq> p + 1" by (auto simp: settled_def)
      ultimately show ?thesis by simp
    qed
    with st have "below_all s U (p + 1)" by (auto simp: below_all_def settled_def)
    with 2 True show ?thesis by auto
  next
    case False
    with 2 show ?thesis by auto
  qed
qed simp

lemma add_persisted_fields:
  obtains upto known local where "add_persisted_position x g = g\<lparr>mw_known_persisted_positions := known,
    mw_persisted_upto_position := upto, mw_max_position_of_local_instance := local\<rparr>"
  unfolding add_persisted_position_def Let_def case_prod_beta by blast

lemma add_persisted_frame [simp]:
  "mw_instance_name (add_persisted_position x g) = mw_instance_name g"
  "mw_writers (add_persisted_position x g) = mw_writers g"
  "mw_positive (add_persisted_position x g) = mw_positive g"
  "mw_current_positions (add_persisted_position x g) = mw_current_positions g"
  "mw_unfinished_ids (add_persisted_position x g) = mw_unfinished_ids g"
  "mw_in_flight_fetches (add_persisted_position x g) = mw_in_flight_fetches g"
  "mw_finished_ids (add_persisted_position x g) = mw_finished_ids g"
  "mw_max_seen_allocated_stream_id (add_persisted_position x g) = mw_max_seen_allocated_stream_id g"
  by (rule add_persisted_fields [of x g]; simp)+

lemma add_persisted_derived [simp]:
  "quiet (add_persisted_position x g) = quiet g"
  "own_position (add_persisted_position x g) = own_position g"
  "min_curr (add_persisted_position x g) = min_curr g"
proof -
  show q: "quiet (add_persisted_position x g) = quiet g" unfolding quiet_def by simp
  show o: "own_position (add_persisted_position x g) = own_position g" unfolding own_position_def by simp
  show "min_curr (add_persisted_position x g) = min_curr g" unfolding min_curr_def q o by simp
qed

lemma add_persisted_covers [simp]: "covers writers positive (add_persisted_position x g) = covers writers positive g"
  by (simp add: covers_def)

lemma add_persisted_ok:
  assumes ok: "gen_ok s U v g" and new: "settled s U x" and mc: "below_all s U (min_curr g)"
    and q: "quiet g \<longrightarrow> (\<forall>i. (v, i) \<notin> U)"
  shows "gen_ok s U v (add_persisted_position x g)"
proof -
  let ?upto = "max (min_curr g) (mw_persisted_upto_position g)"
  let ?known = "heappush (mw_known_persisted_positions g) x"
  let ?loc1 = "max (mw_max_position_of_local_instance g) ?upto"
  let ?loc2 = "if quiet g then max (mw_max_seen_allocated_stream_id g) ?loc1 else ?loc1"
  note D = gen_okD [OF ok]
  have upto: "below_all s U ?upto" using D(9) mc by (simp add: max_def)
  have known: "\<forall>y \<in> set ?known. settled s U y"
    using D(7) new by (simp add: heappush_def set_insort_key)
  note skip = skip_forward_below [OF upto known]
  have l1: "clear_of s U v ?loc1" by (rule max_clear [OF D(8) below_all_clear [OF upto]])
  have "clear_of s U v (mw_max_seen_allocated_stream_id g)" if "quiet g"
    unfolding clear_of_def settled_def using that q D(4,5) by blast
  then have l2: "clear_of s U v ?loc2" using l1 max_clear by simp
  have "add_persisted_position x g = g\<lparr>mw_known_persisted_positions := snd (skip_forward ?upto ?known),
      mw_persisted_upto_position := fst (skip_forward ?upto ?known), mw_max_position_of_local_instance := ?loc2\<rparr>"
    unfolding add_persisted_position_def Let_def case_prod_beta by (rule refl)
  then have fields: "mw_known_persisted_positions (add_persisted_position x g) = snd (skip_forward ?upto ?known)"
    "mw_persisted_upto_position (add_persisted_position x g) = fst (skip_forward ?upto ?known)"
    "mw_max_position_of_local_instance (add_persisted_position x g) = ?loc2" by simp_all
  show ?thesis
  proof (rule gen_okI)
    fix y assume "y \<in> set (mw_known_persisted_positions (add_persisted_position x g))"
    with skip known show "settled s U y" unfolding fields by blast
  next
    show "clear_of s U v (mw_max_position_of_local_instance (add_persisted_position x g))"
      unfolding fields by (rule l2)
    show "below_all s U (mw_persisted_upto_position (add_persisted_position x g))"
      unfolding fields using skip by blast
  qed (simp_all add: D)
qed

lemma add_persisted_fold_ok:
  assumes "gen_ok s U v g" and "\<forall>x \<in> set xs. settled s U x" and "below_all s U (min_curr g)"
    and "quiet g \<longrightarrow> (\<forall>i. (v, i) \<notin> U)"
  shows "gen_ok s U v (fold add_persisted_position xs g)"
  using assms
proof (induction xs arbitrary: g)
  case (Cons x xs)
  then show ?case by (auto intro!: Cons.IH add_persisted_ok)
qed simp

lemma add_persisted_fold_frame [simp]:
  "mw_unfinished_ids (fold add_persisted_position xs g) = mw_unfinished_ids g"
  "mw_in_flight_fetches (fold add_persisted_position xs g) = mw_in_flight_fetches g"
  "covers writers positive (fold add_persisted_position xs g) = covers writers positive g"
  by (induction xs arbitrary: g) simp_all

text \<open>Storing a position of a process that may report it.\<close>

lemma update_position_ok:
  assumes "gen_ok s U v g" and "clear_of s U w p"
  shows "gen_ok s U v (g\<lparr>mw_current_positions := AList.update w p (mw_current_positions g)\<rparr>)"
  using assms by (auto simp: gen_ok_def distinct_update update_conv')

lemma position_clear:
  assumes "gen_ok s U v g" and "sane s U"
  shows "clear_of s U w (case map_of (mw_current_positions g) w of None \<Rightarrow> 0 | Some p \<Rightarrow> p)"
  using assms sane_zero [OF assms(2)] by (auto simp: gen_ok_def split: option.split)

lemma update_position_covers:
  assumes "covers writers positive g" and "w = mw_instance_name g \<longrightarrow> own_position g \<le> p"
  shows "covers writers positive (g\<lparr>mw_current_positions := AList.update w p (mw_current_positions g)\<rparr>)"
  using assms by (auto simp: covers_def own_position_def dict_has_def update_conv')

lemma mw_advance_ok:
  assumes ok: "gen_ok s U v g" and sane: "sane s U" and cov: "covers writers positive g"
    and own: "\<forall>(w, i) \<in> U. w \<in> set writers" and q: "quiet g \<longrightarrow> (\<forall>i. (v, i) \<notin> U)"
    and p: "clear_of s U w (p * return_factor g)" and "v \<noteq> w"
  shows "gen_ok s U v (mw_advance w p g)" and "covers writers positive (mw_advance w p g)"
    and "mw_unfinished_ids (mw_advance w p g) = mw_unfinished_ids g"
    and "mw_in_flight_fetches (mw_advance w p g) = mw_in_flight_fetches g"
proof -
  let ?n = "p * return_factor g"
  let ?old = "case map_of (mw_current_positions g) w of None \<Rightarrow> 0 | Some q \<Rightarrow> q"
  let ?g1 = "g\<lparr>mw_current_positions := AList.update w (max ?n ?old) (mw_current_positions g)\<rparr>"
  let ?g2 = "?g1\<lparr>mw_max_seen_allocated_stream_id := max (mw_max_seen_allocated_stream_id g) ?n\<rparr>"
  have adv: "mw_advance w p g = add_persisted_position ?n ?g2"
    by (simp add: mw_advance_def Let_def)
  have n: "settled s U ?n" using p by (simp add: clear_of_def)
  have v: "mw_instance_name g = v" using ok by (simp add: gen_ok_def)
  have "gen_ok s U v ?g1"
    by (rule update_position_ok [OF ok max_clear [OF p position_clear [OF ok sane]]])
  then have ok2: "gen_ok s U v ?g2" using n by (auto simp: gen_ok_def settled_def max_def)
  have "covers writers positive ?g1"
    by (rule update_position_covers [OF cov]) (use v \<open>v \<noteq> w\<close> in simp)
  then have cov2: "covers writers positive ?g2" by (simp add: covers_def own_position_def)
  have q2: "quiet ?g2 \<longrightarrow> (\<forall>i. (v, i) \<notin> U)" using q by (simp add: quiet_def)
  show "gen_ok s U v (mw_advance w p g)"
    unfolding adv by (rule add_persisted_ok [OF ok2 n min_curr_below [OF ok2 sane cov2 own q2] q2])
  show "covers writers positive (mw_advance w p g)" unfolding adv using cov2 by simp
qed (simp_all add: mw_advance_def Let_def)

lemma opt_max_mem: "opt_max xs = Some c \<Longrightarrow> c \<in> set xs"
proof -
  have "fold (\<lambda>s cur. case cur of None \<Rightarrow> Some s | Some c \<Rightarrow> if c < s then Some s else cur) xs o0 = Some c \<Longrightarrow>
      c \<in> set xs \<or> o0 = Some c" for o0
    by (induction xs arbitrary: o0) (auto split: option.splits if_splits)
  then show "opt_max xs = Some c \<Longrightarrow> c \<in> set xs" by (auto simp: opt_max_def)
qed

lemma set_own_position_ok:
  assumes ok: "gen_ok s U v g" and sane: "sane s U" and cov: "covers writers positive g"
    and c: "\<forall>c. new_cur = Some c \<longrightarrow> clear_of s U v c"
  shows "gen_ok s U v (set_own_position new_cur g) \<and> covers writers positive (set_own_position new_cur g) \<and>
    mw_unfinished_ids (set_own_position new_cur g) = mw_unfinished_ids g \<and>
    mw_in_flight_fetches (set_own_position new_cur g) = mw_in_flight_fetches g"
proof (cases "new_cur = None \<or> new_cur = Some 0")
  case True
  with ok cov show ?thesis by (auto simp: set_own_position_def)
next
  case False
  then obtain c where new: "new_cur = Some c" "c \<noteq> 0" by (cases new_cur) auto
  let ?p = "max (own_position g) c"
  have v: "mw_instance_name g = v" using ok by (simp add: gen_ok_def)
  have p: "clear_of s U v ?p" using assms new own_position_clear [OF ok sane] by (intro max_clear) auto
  let ?g1 = "g\<lparr>mw_current_positions := AList.update v ?p (mw_current_positions g)\<rparr>"
  let ?g2 = "?g1\<lparr>mw_max_position_of_local_instance := max ?p (mw_max_position_of_local_instance g)\<rparr>"
  have ok1: "gen_ok s U v ?g1" by (rule update_position_ok [OF ok p])
  have "clear_of s U v (max ?p (mw_max_position_of_local_instance g))"
    using ok by (intro max_clear [OF p]) (simp add: gen_ok_def)
  with ok1 have "gen_ok s U v ?g2" by (simp add: gen_ok_def)
  moreover have "covers writers positive ?g1"
    by (rule update_position_covers [OF cov]) simp
  then have "covers writers positive ?g2" by (simp add: covers_def own_position_def)
  moreover have "set_own_position new_cur g = ?g2" using new v by (simp add: set_own_position_def)
  ultimately show ?thesis by simp
qed

lemma min_unfinished_le:
  assumes "finite (mw_unfinished_ids g)"
    and "i \<in> mw_unfinished_ids g \<or> (\<exists>cm \<in># mw_in_flight_fetches g. cm < i)"
  shows "min_unfinished g \<le> i"
proof -
  have u: "Min (mw_unfinished_ids g) \<le> i" if "i \<in> mw_unfinished_ids g"
    using that assms(1) by simp
  have f: "Min (set_mset (mw_in_flight_fetches g)) + 1 \<le> i" if "cm \<in># mw_in_flight_fetches g" "cm < i" for cm
    using Min_le [OF finite_set_mset that(1)] that(2) by linarith
  from assms(2) show ?thesis
  proof
    assume i: "i \<in> mw_unfinished_ids g"
    then have "mw_unfinished_ids g \<noteq> {}" by auto
    with u [OF i] show ?thesis by (simp add: min_unfinished_def min.coboundedI1)
  next
    assume "\<exists>cm \<in># mw_in_flight_fetches g. cm < i"
    then obtain cm where cm: "cm \<in># mw_in_flight_fetches g" "cm < i" by blast
    then have "mw_in_flight_fetches g \<noteq> {#}" by auto
    with f [OF cm] show ?thesis by (simp add: min_unfinished_def min.coboundedI2)
  qed
qed

lemma mark_ok:
  assumes ok: "gen_ok s U v g" and sane: "sane s U" and cov: "covers writers positive g"
    and own: "\<forall>(w, i) \<in> U. w \<in> set writers" and fin: "finite (mw_unfinished_ids g)"
    and loc: "\<forall>i. (v, i) \<in> U \<longrightarrow> i \<in> mw_unfinished_ids g - set ids \<or> (\<exists>cm \<in># mw_in_flight_fetches g. cm < i)"
    and ids: "\<forall>i \<in> set ids. settled s U i" and run: "mark_ids_as_finished ids g = Inr g'"
  shows "gen_ok s U v g' \<and> covers writers positive g' \<and>
    mw_unfinished_ids g' = mw_unfinished_ids g - set ids \<and> mw_in_flight_fetches g' = mw_in_flight_fetches g"
proof -
  let ?g1 = "g\<lparr>mw_unfinished_ids := mw_unfinished_ids g - set ids,
    mw_finished_ids := fold set_add ids (mw_finished_ids g)\<rparr>"
  note D = gen_okD [OF ok]
  have F: "settled s U x" if "x \<in> set (fold set_add ids (mw_finished_ids g))" for x
    using that D(6) ids by auto
  have quiet1: "quiet ?g1 \<longrightarrow> (\<forall>i. (v, i) \<notin> U)" using loc by (auto simp: quiet_def)
  have core: "gen_ok s U v g' \<and> covers writers positive g' \<and>
      mw_unfinished_ids g' = mw_unfinished_ids g - set ids \<and> mw_in_flight_fetches g' = mw_in_flight_fetches g"
    if g': "g' = fold add_persisted_position ids (set_own_position (opt_max cs) (?g1\<lparr>mw_finished_ids := rest\<rparr>))"
      and cs: "\<forall>c \<in> set cs. clear_of s U v c" and rest: "\<forall>x \<in> set rest. settled s U x" for cs rest
  proof -
    let ?gA = "?g1\<lparr>mw_finished_ids := rest\<rparr>"
    let ?gB = "set_own_position (opt_max cs) ?gA"
    have okA: "gen_ok s U v ?gA" by (rule gen_okI) (use D rest in simp_all)
    have covA: "covers writers positive ?gA" using cov by (simp add: covers_def own_position_def)
    have "\<forall>c. opt_max cs = Some c \<longrightarrow> clear_of s U v c" using cs opt_max_mem by blast
    from set_own_position_ok [OF okA sane covA this]
    have B: "gen_ok s U v ?gB" "covers writers positive ?gB"
      "mw_unfinished_ids ?gB = mw_unfinished_ids g - set ids" "mw_in_flight_fetches ?gB = mw_in_flight_fetches g"
      by simp_all
    have qB: "quiet ?gB \<longrightarrow> (\<forall>i. (v, i) \<notin> U)" using quiet1 B(3,4) by (simp add: quiet_def)
    from add_persisted_fold_ok [OF B(1) ids min_curr_below [OF B(1) sane B(2) own qB] qB] B(2-4)
    show ?thesis unfolding g' by simp
  qed
  show ?thesis
  proof (cases "quiet ?g1")
    case False
    let ?m = "min_unfinished ?g1" and ?F = "fold set_add ids (mw_finished_ids g)"
    have low: "?m \<le> i" if "(v, i) \<in> U" for i
      using loc that fin by (intro min_unfinished_le) auto
    have "clear_of s U v c" if "c \<in> set (filter (\<lambda>s. s < ?m) ?F)" for c
      using that F low unfolding clear_of_def by fastforce
    moreover have "g' = fold add_persisted_position ids (set_own_position (opt_max (filter (\<lambda>s. s < ?m) ?F))
        (?g1\<lparr>mw_finished_ids := filter (\<lambda>s. \<not> s < ?m) ?F\<rparr>))"
      using run False by (simp add: mark_ids_as_finished_def Let_def)
    ultimately show ?thesis using F by (intro core) auto
  next
    case True
    let ?F = "fold set_add ids (mw_finished_ids g)"
    from True run have "g' = fold add_persisted_position ids (set_own_position (opt_max ?F) (?g1\<lparr>mw_finished_ids := []\<rparr>))"
      by (simp add: mark_ids_as_finished_def Let_def split: if_splits)
    moreover have "clear_of s U v c" if "c \<in> set ?F" for c
      using that F quiet1 True unfolding clear_of_def by blast
    ultimately show ?thesis by (intro core) auto
  qed
qed

section \<open>The invariant of the system\<close>

definition fetches_of :: "mw_world \<Rightarrow> string \<Rightarrow> (string \<times> int \<times> int list) multiset" where
  "fetches_of W v = filter_mset (\<lambda>f. fst f = v) (mw_fetches W + mw_ending W)"

definition recorded_by :: "mw_world \<Rightarrow> string \<Rightarrow> int set" where
  "recorded_by W v = {i. (\<exists>cm ids. (v, cm, ids) \<in># mw_ending W \<and> i \<in> set ids) \<or>
     (\<exists>ids. (v, ids) \<in># mw_open W \<and> i \<in> set ids)}"

definition mw_inv :: "string list \<Rightarrow> bool \<Rightarrow> mw_world \<Rightarrow> bool" where
  "mw_inv writers positive W \<longleftrightarrow> writers \<noteq> [] \<and> sane (mw_seq W) (used_by W) \<and>
     (\<forall>v. gen_ok (mw_seq W) (used_by W) v (mw_gens W v) \<and> covers writers positive (mw_gens W v)) \<and>
     (\<forall>v. mw_in_flight_fetches (mw_gens W v) = image_mset (fst \<circ> snd) (fetches_of W v)) \<and>
     (\<forall>v. mw_unfinished_ids (mw_gens W v) = recorded_by W v) \<and>
     (\<forall>(w, cm, ids) \<in># mw_fetches W + mw_ending W. cm \<le> mw_seq W \<and> (\<forall>i \<in> set ids. cm < i)) \<and>
     (\<forall>(w, ids) \<in># batches W. w \<in> set writers) \<and>
     (\<forall>i. count (\<Sum>\<^sub># (image_mset (mset \<circ> snd) (batches W))) i \<le> 1) \<and>
     (\<forall>(w, p) \<in> mw_announced W. clear_of (mw_seq W) (used_by W) w (p * (if positive then 1 else -1)))"

lemma mw_invD:
  assumes "mw_inv writers positive W"
  shows "writers \<noteq> []" "sane (mw_seq W) (used_by W)"
    "gen_ok (mw_seq W) (used_by W) v (mw_gens W v)" "covers writers positive (mw_gens W v)"
    "mw_in_flight_fetches (mw_gens W v) = image_mset (fst \<circ> snd) (fetches_of W v)"
    "mw_unfinished_ids (mw_gens W v) = recorded_by W v"
    "\<forall>(w, cm, ids) \<in># mw_fetches W + mw_ending W. cm \<le> mw_seq W \<and> (\<forall>i \<in> set ids. cm < i)"
    "\<forall>(w, ids) \<in># batches W. w \<in> set writers"
    "\<forall>i. count (\<Sum>\<^sub># (image_mset (mset \<circ> snd) (batches W))) i \<le> 1"
    "\<forall>(w, p) \<in> mw_announced W. clear_of (mw_seq W) (used_by W) w (p * (if positive then 1 else -1))"
  using assms unfolding mw_inv_def by blast+

text \<open>
  A step of process \<open>w\<close>: the invariant splits into what holds of \<open>w\<close>'s new
  state, of the other states and of the IDs.
\<close>

lemma mw_invI:
  assumes "writers \<noteq> []" and "sane (mw_seq W) (used_by W)"
    and "\<And>v. v \<noteq> w \<Longrightarrow> gen_ok (mw_seq W) (used_by W) v (mw_gens W v)"
    and "\<And>v. v \<noteq> w \<Longrightarrow> covers writers positive (mw_gens W v)"
    and "\<And>v. v \<noteq> w \<Longrightarrow> mw_in_flight_fetches (mw_gens W v) = image_mset (fst \<circ> snd) (fetches_of W v)"
    and "\<And>v. v \<noteq> w \<Longrightarrow> mw_unfinished_ids (mw_gens W v) = recorded_by W v"
    and "gen_ok (mw_seq W) (used_by W) w (mw_gens W w)" and "covers writers positive (mw_gens W w)"
    and "mw_in_flight_fetches (mw_gens W w) = image_mset (fst \<circ> snd) (fetches_of W w)"
    and "mw_unfinished_ids (mw_gens W w) = recorded_by W w"
    and "\<forall>(w, cm, ids) \<in># mw_fetches W + mw_ending W. cm \<le> mw_seq W \<and> (\<forall>i \<in> set ids. cm < i)"
    and "\<forall>(w, ids) \<in># batches W. w \<in> set writers"
    and "\<forall>i. count (\<Sum>\<^sub># (image_mset (mset \<circ> snd) (batches W))) i \<le> 1"
    and "\<forall>(w, p) \<in> mw_announced W. clear_of (mw_seq W) (used_by W) w (p * (if positive then 1 else -1))"
  shows "mw_inv writers positive W"
proof -
  have "gen_ok (mw_seq W) (used_by W) v (mw_gens W v) \<and> covers writers positive (mw_gens W v)" for v
    using assms(3,4,7,8) by (cases "v = w") blast+
  moreover have "mw_in_flight_fetches (mw_gens W v) = image_mset (fst \<circ> snd) (fetches_of W v)" for v
    using assms(5,9) by (cases "v = w") blast+
  moreover have "mw_unfinished_ids (mw_gens W v) = recorded_by W v" for v
    using assms(6,10) by (cases "v = w") blast+
  ultimately show ?thesis unfolding mw_inv_def using assms(1,2,11-14) by blast
qed

text \<open>An ID in use is recorded, or belongs to a fetch that started below it.\<close>

lemma used_by_cases:
  assumes inv: "mw_inv writers positive W" and "(v, i) \<in> used_by W"
  shows "i \<in> mw_unfinished_ids (mw_gens W v) \<or> (\<exists>cm \<in># mw_in_flight_fetches (mw_gens W v). cm < i)"
proof -
  note D = mw_invD [OF inv]
  from assms(2) obtain ids where ids: "(v, ids) \<in># batches W" "i \<in> set ids" by (auto simp: used_by_def)
  from ids(1) consider cm where "(v, cm, ids) \<in># mw_fetches W" | cm where "(v, cm, ids) \<in># mw_ending W"
    | "(v, ids) \<in># mw_open W" by (auto simp: batches_def)
  then show ?thesis
  proof cases
    case 1
    with D(7) ids(2) have "cm < i" by fastforce
    moreover from 1 have "cm \<in># mw_in_flight_fetches (mw_gens W v)"
      unfolding D(5) fetches_of_def by force
    ultimately show ?thesis by blast
  next
    case 2
    with ids(2) show ?thesis unfolding D(6) recorded_by_def by blast
  next
    case 3
    with ids(2) show ?thesis unfolding D(6) recorded_by_def by blast
  qed
qed

lemma quiet_unused: "mw_inv writers positive W \<Longrightarrow> quiet (mw_gens W v) \<longrightarrow> (\<forall>i. (v, i) \<notin> used_by W)"
  using used_by_cases by (fastforce simp: quiet_def)

lemma used_by_writer: "mw_inv writers positive W \<Longrightarrow> \<forall>(w, i) \<in> used_by W. w \<in> set writers"
  using mw_invD(8) by (fastforce simp: used_by_def)

lemma used_by_batches: "batches W' = batches W \<Longrightarrow> used_by W' = used_by W"
  by (simp add: used_by_def)

lemma gen_ok_in_flight [simp]: "gen_ok s U v (g\<lparr>mw_in_flight_fetches := x\<rparr>) = gen_ok s U v g"
  by (simp add: gen_ok_def)

lemma covers_in_flight [simp]: "covers writers positive (g\<lparr>mw_in_flight_fetches := x\<rparr>) = covers writers positive g"
  by (simp add: covers_def own_position_def)

text \<open>An ID is in use by one process only.\<close>

lemma used_unique:
  assumes one: "\<forall>i. count (\<Sum>\<^sub># (image_mset (mset \<circ> snd) (batches W))) i \<le> 1"
    and "(u, i) \<in> used_by W" and "(w, i) \<in> used_by W"
  shows "u = w"
proof (rule ccontr)
  assume "u \<noteq> w"
  from assms(2,3) obtain xs ys where b: "(u, xs) \<in># batches W" "(w, ys) \<in># batches W" "i \<in> set xs" "i \<in> set ys"
    by (auto simp: used_by_def)
  then obtain B where B: "batches W = add_mset (u, xs) B" by (auto dest: multi_member_split)
  from this b(2) \<open>u \<noteq> w\<close> obtain B' where B': "B = add_mset (w, ys) B'" by (auto dest: multi_member_split)
  have "0 < count (mset xs) i" "0 < count (mset ys) i" using b(3,4) by simp_all
  moreover have "count (\<Sum>\<^sub># (image_mset (mset \<circ> snd) (batches W))) i =
      count (mset xs) i + (count (mset ys) i + count (\<Sum>\<^sub># (image_mset (mset \<circ> snd) B')) i)"
    by (simp add: B B')
  ultimately show False using one [rule_format, of i] by linarith
qed

lemma fetch_used: "(w, cm, ids) \<in># mw_fetches W + mw_ending W \<Longrightarrow> i \<in> set ids \<Longrightarrow> (w, i) \<in> used_by W"
  unfolding used_by_def batches_def by (auto intro: rev_image_eqI)

lemma open_used: "(w, ids) \<in># mw_open W \<Longrightarrow> i \<in> set ids \<Longrightarrow> (w, i) \<in> used_by W"
  unfolding used_by_def batches_def by auto

lemma recorded_used: "i \<in> recorded_by W v \<Longrightarrow> (v, i) \<in> used_by W"
  unfolding recorded_by_def using fetch_used open_used by fastforce

lemma step_begin:
  assumes inv: "mw_inv writers positive W" and chk: "check_writer (mw_gens W w) = Inr ()"
    and run: "begin_fetch (mw_gens W w) = (cm, g)"
    and W': "W' = W\<lparr>mw_gens := (mw_gens W)(w := g), mw_fetches := add_mset (w, cm, []) (mw_fetches W)\<rparr>"
  shows "mw_inv writers positive W'"
proof -
  note D = mw_invD [OF inv]
  have w: "w \<in> set writers"
    using chk D(1) D(4) [of w] gen_okD(1) [OF D(3) [of w]] by (simp add: check_writer_def covers_def)
  have cm: "cm = mw_max_seen_allocated_stream_id (mw_gens W w)"
    and g: "g = (mw_gens W w)\<lparr>mw_in_flight_fetches := add_mset cm (mw_in_flight_fetches (mw_gens W w))\<rparr>"
    using run by (auto simp: begin_fetch_def Let_def)
  have fields: "mw_gens W' = (mw_gens W)(w := g)" "mw_seq W' = mw_seq W" "mw_announced W' = mw_announced W"
    "mw_fetches W' = add_mset (w, cm, []) (mw_fetches W)" "mw_ending W' = mw_ending W" by (simp_all add: W')
  have b: "batches W' = add_mset (w, []) (batches W)" by (simp add: batches_def W')
  have u: "used_by W' = used_by W" unfolding used_by_def b by auto
  have f: "fetches_of W' v = (if v = w then add_mset (w, cm, []) (fetches_of W v) else fetches_of W v)" for v
    by (simp add: fetches_of_def W')
  have r: "recorded_by W' v = recorded_by W v" for v by (simp add: recorded_by_def W')
  have cm_le: "cm \<le> mw_seq W" using gen_okD(4) [OF D(3) [of w]] cm by simp
  have gw: "gen_ok (mw_seq W) (used_by W) w g" "covers writers positive g"
    "mw_in_flight_fetches g = add_mset cm (image_mset (fst \<circ> snd) (fetches_of W w))"
    "mw_unfinished_ids g = recorded_by W w"
    using D(3-6) [of w] by (simp_all add: g)
  show ?thesis
    by (rule mw_invI [where w = w]) (use D w cm_le gw in \<open>simp_all add: u b f r fields\<close>)
qed

lemma step_record:
  assumes inv: "mw_inv writers positive W" and F: "mw_fetches W = add_mset (w, cm, ids) F"
    and run: "record_fetch ids (mw_gens W w) = Inr g"
    and W': "W' = W\<lparr>mw_gens := (mw_gens W)(w := g), mw_fetches := F, mw_ending := add_mset (w, cm, ids) (mw_ending W)\<rparr>"
  shows "mw_inv writers positive W'"
proof -
  note D = mw_invD [OF inv]
  let ?g = "mw_gens W w" and ?un = "mw_unfinished_ids (mw_gens W w) \<union> set ids"
  have g: "g = ?g\<lparr>mw_unfinished_ids := ?un,
      mw_max_seen_allocated_stream_id := max (mw_max_seen_allocated_stream_id ?g) (Max ?un)\<rparr>" and ne: "?un \<noteq> {}"
    using run by (auto simp: record_fetch_def Let_def split: if_splits)
  have fields: "mw_gens W' = (mw_gens W)(w := g)" "mw_seq W' = mw_seq W" "mw_announced W' = mw_announced W"
    "mw_fetches W' + mw_ending W' = mw_fetches W + mw_ending W" by (simp_all add: W' F)
  have b: "batches W' = batches W" unfolding batches_def fields(4) by (simp add: W')
  note u = used_by_batches [OF b]
  have f: "fetches_of W' v = fetches_of W v" for v unfolding fetches_of_def fields(4) ..
  have r: "recorded_by W' v = (if v = w then recorded_by W v \<union> set ids else recorded_by W v)" for v
    by (auto simp: recorded_by_def W')
  have used: "(w, i) \<in> used_by W" if "i \<in> ?un" for i
    using that recorded_used [of i W w] fetch_used [of w cm ids W i] unfolding D(6) F by auto
  have fin: "finite ?un"
  proof -
    have "?un \<subseteq> {0 .. mw_seq W}"
    proof
      fix i assume "i \<in> ?un"
      from bspec [OF conjunct2 [OF D(2) [unfolded sane_def]] used [OF this]] show "i \<in> {0 .. mw_seq W}" by simp
    qed
    then show ?thesis by (rule finite_subset) simp
  qed
  have M: "(w, Max ?un) \<in> used_by W" using used Max_in [OF fin ne] by blast
  then have Ms: "Max ?un \<le> mw_seq W" using D(2) unfolding sane_def by blast
  have Mu: "u = w" if "(u, Max ?un) \<in> used_by W" for u
    using used_unique [OF D(9) that M] .
  note O = gen_okD [OF D(3) [of w]]
  have gw: "gen_ok (mw_seq W) (used_by W) w g"
    by (rule gen_okI) (use O Ms Mu in \<open>simp_all add: g max_def split: if_splits\<close>)
  have gw2: "covers writers positive g" "mw_in_flight_fetches g = image_mset (fst \<circ> snd) (fetches_of W w)"
    "mw_unfinished_ids g = recorded_by W w \<union> set ids"
    using D(4-6) [of w] by (simp_all add: g covers_def own_position_def)
  show ?thesis
    by (rule mw_invI [where w = w]) (use D gw gw2 in \<open>simp_all only: u b f r fields fun_upd_apply if_True if_False simp_thms\<close>)
qed

lemma end_fetch_ok [simp]:
  "gen_ok s U v (end_fetch cm g) = gen_ok s U v g" "covers writers positive (end_fetch cm g) = covers writers positive g"
  "mw_in_flight_fetches (end_fetch cm g) = mw_in_flight_fetches g - {# cm #}"
  "mw_unfinished_ids (end_fetch cm g) = mw_unfinished_ids g"
  by (simp_all add: end_fetch_def)

lemma step_end:
  assumes inv: "mw_inv writers positive W" and F: "mw_ending W = add_mset (w, cm, ids) F"
    and W': "W' = W\<lparr>mw_gens := (mw_gens W)(w := end_fetch cm (mw_gens W w)), mw_ending := F,
      mw_open := add_mset (w, ids) (mw_open W)\<rparr>"
  shows "mw_inv writers positive W'"
proof -
  note D = mw_invD [OF inv]
  have fields: "mw_gens W' = (mw_gens W)(w := end_fetch cm (mw_gens W w))" "mw_seq W' = mw_seq W"
    "mw_announced W' = mw_announced W" by (simp_all add: W')
  have b: "batches W' = batches W" by (simp add: batches_def W' F)
  note u = used_by_batches [OF b]
  have f: "fetches_of W v = (if v = w then add_mset (w, cm, ids) (fetches_of W' v) else fetches_of W' v)" for v
    by (simp add: fetches_of_def W' F)
  have r: "recorded_by W' v = recorded_by W v" for v by (auto simp: recorded_by_def W' F)
  have fe: "\<forall>(w, cm, ids) \<in># mw_fetches W' + mw_ending W'. cm \<le> mw_seq W \<and> (\<forall>i \<in> set ids. cm < i)"
    using D(7) by (simp add: W' F)
  show ?thesis
    by (rule mw_invI [where w = w]) (use D fe in \<open>simp_all add: u b f r fields\<close>)
qed

text \<open>Fewer IDs in use, or one more above all others.\<close>

lemma inv_change:
  assumes inv: "mw_inv writers positive W" and "mw_seq W \<le> s" and "\<forall>(w, i) \<in> U'. (w, i) \<in> used_by W \<or> mw_seq W < i"
    and "\<forall>(w, i) \<in> U'. i \<le> s"
  shows "sane s U'" and "gen_ok s U' v (mw_gens W v)"
    and "\<forall>(w, p) \<in> mw_announced W. clear_of s U' w (p * (if positive then 1 else -1))"
proof -
  note D = mw_invD [OF inv]
  have "0 < i" if "(w, i) \<in> U'" for w i
    using that assms(3) D(2) unfolding sane_def by fastforce
  then show "sane s U'" using D(2) assms(2,4) unfolding sane_def by fastforce
  show "gen_ok s U' v (mw_gens W v)" by (rule gen_ok_change [OF D(3) assms(2,3)])
  have "clear_of s U' w x" if "clear_of (mw_seq W) (used_by W) w x" for w x
    using that assms(2,3) by (fastforce simp: clear_of_def settled_def)
  then show "\<forall>(w, p) \<in> mw_announced W. clear_of s U' w (p * (if positive then 1 else -1))"
    using D(10) by blast
qed

lemma step_fail:
  assumes inv: "mw_inv writers positive W" and F: "mw_fetches W = add_mset (w, cm, ids) F"
    and W': "W' = W\<lparr>mw_gens := (mw_gens W)(w := end_fetch cm (mw_gens W w)), mw_fetches := F\<rparr>"
  shows "mw_inv writers positive W'"
proof -
  note D = mw_invD [OF inv]
  have fields: "mw_gens W' = (mw_gens W)(w := end_fetch cm (mw_gens W w))" "mw_seq W' = mw_seq W"
    "mw_announced W' = mw_announced W" by (simp_all add: W')
  have b: "batches W = add_mset (w, ids) (batches W')" by (simp add: batches_def W' F)
  then have u: "used_by W' \<subseteq> used_by W" unfolding used_by_def by auto
  have f: "fetches_of W v = (if v = w then add_mset (w, cm, ids) (fetches_of W' v) else fetches_of W' v)" for v
    by (simp add: fetches_of_def W' F)
  have r: "recorded_by W' v = recorded_by W v" for v by (simp add: recorded_by_def W')
  have fe: "\<forall>(w, cm, ids) \<in># mw_fetches W' + mw_ending W'. cm \<le> mw_seq W \<and> (\<forall>i \<in> set ids. cm < i)"
    using D(7) by (simp add: W' F)
  have le: "\<forall>(w, i) \<in> used_by W'. i \<le> mw_seq W" using u D(2) unfolding sane_def by blast
  have sub: "\<forall>(w, i) \<in> used_by W'. (w, i) \<in> used_by W \<or> mw_seq W < i" using u by blast
  note C = inv_change [OF inv order_refl sub le]
  have b8: "\<forall>(w, ids) \<in># batches W'. w \<in> set writers" using D(8) unfolding b by simp
  have b9: "count (\<Sum>\<^sub># (image_mset (mset \<circ> snd) (batches W'))) i \<le> 1" for i
    using D(9) [rule_format, of i] unfolding b by simp
  show ?thesis
    by (rule mw_invI [where w = w]) (use D C fe b8 b9 in \<open>simp_all add: f r fields\<close>)
qed

lemma step_nextval:
  assumes inv: "mw_inv writers positive W" and F: "mw_fetches W = add_mset (w, cm, ids) F" and s: "mw_seq W < s"
    and W': "W' = W\<lparr>mw_seq := s, mw_fetches := add_mset (w, cm, ids @ [s]) F\<rparr>"
  shows "mw_inv writers positive W'"
proof -
  note D = mw_invD [OF inv]
  have fields: "mw_gens W' = mw_gens W" "mw_seq W' = s" "mw_announced W' = mw_announced W" by (simp_all add: W')
  obtain B where b: "batches W = add_mset (w, ids) B" "batches W' = add_mset (w, ids @ [s]) B"
    by (simp add: batches_def W' F)
  have u: "used_by W' = insert (w, s) (used_by W)" unfolding used_by_def b by auto
  have f: "image_mset (fst \<circ> snd) (fetches_of W' v) = image_mset (fst \<circ> snd) (fetches_of W v)" for v
    by (simp add: fetches_of_def W' F)
  have r: "recorded_by W' v = recorded_by W v" for v by (simp add: recorded_by_def W')
  have new_le: "cm \<le> mw_seq W \<and> (\<forall>i \<in> set ids. cm < i)" using D(7) by (simp add: F)
  have "cm' \<le> s \<and> (\<forall>i \<in> set ids'. cm' < i)" if "(w', cm', ids') \<in># mw_fetches W' + mw_ending W'" for w' cm' ids'
  proof (cases "(w', cm', ids') = (w, cm, ids @ [s])")
    case True
    with new_le s show ?thesis by auto
  next
    case False
    with that have "(w', cm', ids') \<in># mw_fetches W + mw_ending W" by (auto simp: W' F)
    from bspec [OF D(7) this] s show ?thesis by simp
  qed
  then have fe: "\<forall>(w, cm, ids) \<in># mw_fetches W' + mw_ending W'. cm \<le> s \<and> (\<forall>i \<in> set ids. cm < i)" by blast
  have old: "\<forall>(w, i) \<in> used_by W. i \<le> mw_seq W" using D(2) unfolding sane_def by blast
  have le: "\<forall>(w, i) \<in> used_by W'. i \<le> s" using old s unfolding u by fastforce
  have sub: "\<forall>(w, i) \<in> used_by W'. (w, i) \<in> used_by W \<or> mw_seq W < i" using s unfolding u by blast
  note C = inv_change [OF inv less_imp_le [OF s] sub le]
  have b8: "\<forall>(w, ids) \<in># batches W'. w \<in> set writers" using D(8) unfolding b by simp
  have fresh: "count (\<Sum>\<^sub># (image_mset (mset \<circ> snd) (batches W))) s = 0"
  proof (rule ccontr)
    assume "count (\<Sum>\<^sub># (image_mset (mset \<circ> snd) (batches W))) s \<noteq> 0"
    then obtain x xs where "(x, xs) \<in># batches W" "s \<in> set xs" by (auto simp: count_eq_zero_iff)
    then have "(x, s) \<in> used_by W" unfolding used_by_def by blast
    with old s show False by fastforce
  qed
  have b9: "count (\<Sum>\<^sub># (image_mset (mset \<circ> snd) (batches W'))) i \<le> 1" for i
    using D(9) [rule_format, of i] fresh unfolding b by (cases "i = s") auto
  show ?thesis
    by (rule mw_invI [where w = w]) (use D C fe b8 b9 in \<open>simp_all add: f r fields\<close>)
qed

lemma step_finish:
  assumes inv: "mw_inv writers positive W" and F: "mw_open W = add_mset (w, ids) F"
    and run: "mark_ids_as_finished ids (mw_gens W w) = Inr g"
    and W': "W' = W\<lparr>mw_gens := (mw_gens W)(w := g), mw_open := F\<rparr>"
  shows "mw_inv writers positive W'"
proof -
  note D = mw_invD [OF inv]
  have fields: "mw_gens W' = (mw_gens W)(w := g)" "mw_seq W' = mw_seq W" "mw_announced W' = mw_announced W"
    "mw_fetches W' = mw_fetches W" "mw_ending W' = mw_ending W" by (simp_all add: W')
  have b: "batches W = add_mset (w, ids) (batches W')" by (simp add: batches_def W' F)
  then have u: "used_by W' \<subseteq> used_by W" unfolding used_by_def by auto
  have gone: "(x, i) \<notin> used_by W'" if "i \<in> set ids" for x i
  proof
    assume "(x, i) \<in> used_by W'"
    then obtain ys where ys: "(x, ys) \<in># batches W'" "i \<in> set ys" unfolding used_by_def by blast
    then obtain B where "batches W' = add_mset (x, ys) B" by (auto dest: multi_member_split)
    then have "count (\<Sum>\<^sub># (image_mset (mset \<circ> snd) (batches W))) i =
        count (mset ids) i + (count (mset ys) i + count (\<Sum>\<^sub># (image_mset (mset \<circ> snd) B)) i)"
      unfolding b by simp
    moreover have "0 < count (mset ids) i" "0 < count (mset ys) i" using that ys(2) by simp_all
    ultimately show False using D(9) [rule_format, of i] by linarith
  qed
  have f: "fetches_of W' v = fetches_of W v" for v by (simp add: fetches_of_def W')
  have r: "recorded_by W' v = (if v = w then recorded_by W v - set ids else recorded_by W v)" for v
  proof (cases "v = w")
    case True
    have "recorded_by W w = recorded_by W' w \<union> set ids" by (auto simp: recorded_by_def W' F)
    moreover have "recorded_by W' w \<inter> set ids = {}" using gone recorded_used by blast
    ultimately show ?thesis using True by auto
  qed (auto simp: recorded_by_def W' F)
  have le: "\<forall>(w, i) \<in> used_by W'. i \<le> mw_seq W" using u D(2) unfolding sane_def by blast
  have sub: "\<forall>(w, i) \<in> used_by W'. (w, i) \<in> used_by W \<or> mw_seq W < i" using u by blast
  note C = inv_change [OF inv order_refl sub le]
  have own: "\<forall>(w, i) \<in> used_by W'. w \<in> set writers" using used_by_writer [OF inv] u by blast
  have fin: "finite (mw_unfinished_ids (mw_gens W w))"
  proof (rule finite_subset)
    show "mw_unfinished_ids (mw_gens W w) \<subseteq> {0 .. mw_seq W}"
    proof
      fix i assume "i \<in> mw_unfinished_ids (mw_gens W w)"
      then have "(w, i) \<in> used_by W" unfolding D(6) by (rule recorded_used)
      from bspec [OF conjunct2 [OF D(2) [unfolded sane_def]] this] show "i \<in> {0 .. mw_seq W}" by simp
    qed
  qed simp
  have loc: "\<forall>i. (w, i) \<in> used_by W' \<longrightarrow> i \<in> mw_unfinished_ids (mw_gens W w) - set ids \<or>
      (\<exists>cm \<in># mw_in_flight_fetches (mw_gens W w). cm < i)"
  proof (intro allI impI)
    fix i assume i: "(w, i) \<in> used_by W'"
    with u have "(w, i) \<in> used_by W" by blast
    from used_by_cases [OF inv this] gone i
    show "i \<in> mw_unfinished_ids (mw_gens W w) - set ids \<or> (\<exists>cm \<in># mw_in_flight_fetches (mw_gens W w). cm < i)"
      by blast
  qed
  have set_ids: "\<forall>i \<in> set ids. settled (mw_seq W) (used_by W') i"
  proof
    fix i assume i: "i \<in> set ids"
    have "(w, i) \<in> used_by W" by (rule open_used [OF _ i]) (simp add: F)
    then have "i \<le> mw_seq W" using D(2) unfolding sane_def by blast
    with gone [OF i] show "settled (mw_seq W) (used_by W') i" unfolding settled_def by blast
  qed
  note M = mark_ok [OF C(2) C(1) D(4) own fin loc set_ids run]
  have b8: "\<forall>(w, ids) \<in># batches W'. w \<in> set writers" using D(8) unfolding b by simp
  have b9: "count (\<Sum>\<^sub># (image_mset (mset \<circ> snd) (batches W'))) i \<le> 1" for i
    using D(9) [rule_format, of i] unfolding b by simp
  show ?thesis
    by (rule mw_invI [where w = w]) (use D C M b8 b9 in \<open>simp_all add: f r fields\<close>)
qed

lemma step_announce:
  assumes inv: "mw_inv writers positive W"
    and W': "W' = W\<lparr>mw_announced := insert (w, get_current_token_for_writer w (mw_gens W w)) (mw_announced W)\<rparr>"
  shows "mw_inv writers positive W'"
proof -
  note D = mw_invD [OF inv]
  have b: "batches W' = batches W" and f: "fetches_of W' = fetches_of W" and r: "recorded_by W' = recorded_by W"
    by (simp_all add: batches_def fetches_of_def recorded_by_def W' fun_eq_iff)
  note u = used_by_batches [OF b]
  have fields: "mw_gens W' = mw_gens W" "mw_seq W' = mw_seq W" "mw_fetches W' = mw_fetches W" "mw_ending W' = mw_ending W"
    "mw_announced W' = insert (w, get_current_token_for_writer w (mw_gens W w)) (mw_announced W)" by (simp_all add: W')
  have "get_current_token_for_writer w (mw_gens W w) * (if positive then 1 else -1) =
      mw_max_position_of_local_instance (mw_gens W w)"
    using gen_okD(1) [OF D(3) [of w]] D(4) [of w]
    by (simp add: get_current_token_for_writer_def return_factor_def covers_def)
  with gen_okD(8) [OF D(3) [of w]]
  have "clear_of (mw_seq W) (used_by W) w (get_current_token_for_writer w (mw_gens W w) * (if positive then 1 else -1))"
    by simp
  then show ?thesis
    by (intro mw_invI [where w = w]) (use D in \<open>simp_all add: u b f r fields\<close>)
qed

lemma step_deliver:
  assumes inv: "mw_inv writers positive W" and a: "(w, p) \<in> mw_announced W" and "v \<noteq> w"
    and W': "W' = W\<lparr>mw_gens := (mw_gens W)(v := mw_advance w p (mw_gens W v))\<rparr>"
  shows "mw_inv writers positive W'"
proof -
  note D = mw_invD [OF inv]
  have b: "batches W' = batches W" and f: "fetches_of W' = fetches_of W" and r: "recorded_by W' = recorded_by W"
    by (simp_all add: batches_def fetches_of_def recorded_by_def W' fun_eq_iff)
  note u = used_by_batches [OF b]
  have fields: "mw_gens W' = (mw_gens W)(v := mw_advance w p (mw_gens W v))" "mw_seq W' = mw_seq W"
    "mw_fetches W' = mw_fetches W" "mw_ending W' = mw_ending W" "mw_announced W' = mw_announced W" by (simp_all add: W')
  have "p * return_factor (mw_gens W v) = p * (if positive then 1 else -1)"
    using D(4) [of v] by (simp add: return_factor_def covers_def)
  with D(10) a have "clear_of (mw_seq W) (used_by W) w (p * return_factor (mw_gens W v))" by auto
  note A = mw_advance_ok [OF D(3) D(2) D(4) used_by_writer [OF inv] quiet_unused [OF inv] this \<open>v \<noteq> w\<close>]
  show ?thesis
    by (rule mw_invI [where w = v]) (use D A in \<open>simp_all add: u b f r fields\<close>)
qed

lemma mw_step_inv: "mw_step W W' \<Longrightarrow> mw_inv writers positive W \<Longrightarrow> mw_inv writers positive W'"
  by (induction rule: mw_step.induct)
    (blast intro: step_begin step_nextval step_record step_end step_fail step_finish step_announce step_deliver)+

section \<open>The initial state\<close>

definition loaded :: "string list \<Rightarrow> bool \<Rightarrow> int \<Rightarrow> string \<Rightarrow> mw_gen \<Rightarrow> bool" where
  "loaded writers positive s v g \<longleftrightarrow> gen_ok s {} v g \<and> mw_writers g = writers \<and> mw_positive g = positive \<and>
     mw_unfinished_ids g = {} \<and> mw_in_flight_fetches g = {#} \<and> mw_finished_ids g = [] \<and>
     (\<forall>w p. map_of (mw_current_positions g) w = Some p \<longrightarrow> 1 \<le> p) \<and> 1 \<le> mw_persisted_upto_position g"

lemma unused_simps [simp]:
  "settled s {} x \<longleftrightarrow> x \<le> s" "clear_of s {} w x \<longleftrightarrow> x \<le> s" "below_all s {} x \<longleftrightarrow> x \<le> s" "sane s {} \<longleftrightarrow> 0 \<le> s"
  by (simp_all add: settled_def clear_of_def below_all_def sane_def)

lemma loadedD:
  assumes "loaded writers positive s v g"
  shows "gen_ok s {} v g" "mw_writers g = writers" "mw_positive g = positive" "mw_unfinished_ids g = {}"
    "mw_in_flight_fetches g = {#}" "mw_finished_ids g = []"
    "map_of (mw_current_positions g) w = Some p \<Longrightarrow> 1 \<le> p" "1 \<le> mw_persisted_upto_position g"
  using assms unfolding loaded_def by blast+

lemma loadedI:
  assumes "gen_ok s {} v g" "mw_writers g = writers" "mw_positive g = positive" "mw_unfinished_ids g = {}"
    "mw_in_flight_fetches g = {#}" "mw_finished_ids g = []"
    "\<And>w p. map_of (mw_current_positions g) w = Some p \<Longrightarrow> 1 \<le> p" "1 \<le> mw_persisted_upto_position g"
  shows "loaded writers positive s v g"
  using assms unfolding loaded_def by blast

lemma skip_forward_mono: "p \<le> fst (skip_forward p known)"
  by (induction p known rule: skip_forward.induct) auto

lemma add_persisted_mono: "mw_persisted_upto_position g \<le> mw_persisted_upto_position (add_persisted_position x g)"
proof -
  let ?p = "max (min_curr g) (mw_persisted_upto_position g)"
  have "mw_persisted_upto_position (add_persisted_position x g) =
      fst (skip_forward ?p (heappush (mw_known_persisted_positions g) x))"
    unfolding add_persisted_position_def Let_def case_prod_beta by simp
  with skip_forward_mono [of ?p] show ?thesis by (simp add: max.boundedE)
qed

lemma load_row_loaded:
  assumes l: "loaded writers positive s v g" and "1 \<le> s"
    and "1 \<le> return_factor g * sid" and "return_factor g * sid \<le> s"
  shows "loaded writers positive s v (load_row (inst, sid) g)"
proof -
  note D = loadedD [OF l]
  let ?x = "return_factor g * sid"
  let ?g1 = "add_persisted_position ?x g"
  have ok1: "gen_ok s {} v ?g1"
    by (rule add_persisted_ok [OF D(1)]) (use assms min_curr_le_seq [OF D(1)] in simp_all)
  have l1: "loaded writers positive s v ?g1"
    by (rule loadedI) (use ok1 D order_trans [OF D(8) add_persisted_mono] in simp_all)
  note D1 = loadedD [OF l1]
  have "loaded writers positive s v (?g1\<lparr>mw_current_positions := AList.update inst ?x (mw_current_positions ?g1)\<rparr>)"
  proof (rule loadedI)
    show "gen_ok s {} v (?g1\<lparr>mw_current_positions := AList.update inst ?x (mw_current_positions ?g1)\<rparr>)"
      by (rule update_position_ok [OF ok1]) (use assms in simp)
    fix w p assume "map_of (mw_current_positions (?g1\<lparr>mw_current_positions :=
        AList.update inst ?x (mw_current_positions ?g1)\<rparr>)) w = Some p"
    then show "1 \<le> p" using assms(3) D(7) by (auto simp: update_conv' split: if_splits)
  qed (use D1 in simp_all)
  with l1 show ?thesis unfolding load_row_def Let_def by (cases "inst = mw_instance_name g") simp_all
qed

lemma load_rows_loaded:
  assumes "loaded writers positive s v g" and "1 \<le> s"
    and "\<forall>(_, sid) \<in> set rows. 1 \<le> (if positive then 1 else -1) * sid \<and> (if positive then 1 else -1) * sid \<le> s"
  shows "loaded writers positive s v (fold load_row rows g)"
  using assms
proof (induction rows arbitrary: g)
  case (Cons row rows)
  obtain inst sid where row: "row = (inst, sid)" by (cases row)
  have "return_factor g = (if positive then 1 else -1)"
    using loadedD(3) [OF Cons.prems(1)] by (simp add: return_factor_def)
  then have "loaded writers positive s v (load_row row g)"
    unfolding row using Cons.prems by (intro load_row_loaded) (auto simp: row)
  from Cons.IH [OF this Cons.prems(2)] Cons.prems(3) show ?case by simp
qed simp

lemma blank_loaded: "1 \<le> s \<Longrightarrow> loaded writers positive s v (blank_generator v writers positive)"
  by (rule loadedI, rule gen_okI) (simp_all add: blank_generator_def)

lemma positions_loaded:
  assumes "loaded writers positive s v g" and "distinct (map fst ps)"
    and "\<And>w p. map_of ps w = Some p \<Longrightarrow> 1 \<le> p \<and> p \<le> s"
  shows "loaded writers positive s v (g\<lparr>mw_current_positions := ps\<rparr>)"
proof -
  note D = loadedD [OF assms(1)] and O = gen_okD [OF loadedD(1) [OF assms(1)]]
  have "gen_ok s {} v (g\<lparr>mw_current_positions := ps\<rparr>)"
    by (rule gen_okI) (use O assms(2,3) in simp_all)
  then show ?thesis by (rule loadedI) (use D assms(3) in simp_all)
qed

lemma persisted_loaded:
  assumes "loaded writers positive s v g" and "1 \<le> m" and "m \<le> s"
  shows "loaded writers positive s v (g\<lparr>mw_persisted_upto_position := m\<rparr>)"
proof -
  note D = loadedD [OF assms(1)] and O = gen_okD [OF loadedD(1) [OF assms(1)]]
  have "gen_ok s {} v (g\<lparr>mw_persisted_upto_position := m\<rparr>)"
    by (rule gen_okI) (use O assms(2,3) in simp_all)
  then show ?thesis by (rule loadedI) (use D assms(2) in simp_all)
qed

lemma setdefault_fold:
  "distinct (map fst d) \<Longrightarrow> distinct (map fst (fold (\<lambda>w d. dict_setdefault d w x) ws d))"
  "dict_has (fold (\<lambda>w d. dict_setdefault d w x) ws d) w \<longleftrightarrow> w \<in> set ws \<or> dict_has d w"
  "map_of (fold (\<lambda>w d. dict_setdefault d w x) ws d) w = Some p \<Longrightarrow> map_of d w = Some p \<or> p = x"
proof (induction ws arbitrary: d)
  case (Cons a ws)
  {
    case 1
    then show ?case using Cons(1) by (simp add: distinct_dict_setdefault)
  next
    case 2
    have h: "dict_has (dict_setdefault d a x) w \<longleftrightarrow> w = a \<or> dict_has d w"
      by (auto simp: dict_has_def map_of_dict_setdefault)
    show ?case using Cons(2) [of "dict_setdefault d a x"] h by auto
  next
    case 3
    then show ?case using Cons(3) [of "dict_setdefault d a x"] by (auto simp: map_of_dict_setdefault split: if_splits)
  }
qed simp_all

lemma fold_max_ge: "(x :: int) \<le> fold max ys x"
  by (induction ys arbitrary: x) (auto intro: order_trans [OF max.cobounded2])

lemma fold_max_le: "(x :: int) \<le> s \<Longrightarrow> \<forall>y \<in> set ys. y \<le> s \<Longrightarrow> fold max ys x \<le> s"
  by (induction ys arbitrary: x) auto

lemma max_default_le: "d \<le> s \<Longrightarrow> \<forall>y \<in> set ys. y \<le> s \<Longrightarrow> max_default ys d \<le> s"
  by (cases ys) (auto simp: max_default_def intro!: fold_max_le)

lemma table_max_bounds:
  assumes "1 \<le> m" and "m \<le> s" and "\<forall>rows \<in> set ts. \<forall>(_, sid) \<in> set rows. f * sid \<le> s" and "1 \<le> s"
  shows "1 \<le> fold (\<lambda>rows m. max m (max (max_default (map (\<lambda>(_, sid). f * sid) rows) 1) 1)) ts m \<and>
    fold (\<lambda>rows m. max m (max (max_default (map (\<lambda>(_, sid). f * sid) rows) 1) 1)) ts m \<le> s"
  using assms(1-3)
proof (induction ts arbitrary: m)
  case (Cons rows ts)
  have "max_default (map (\<lambda>(_, sid). f * sid) rows) 1 \<le> s"
    using Cons.prems(3) assms(4) by (intro max_default_le) auto
  then have "1 \<le> max m (max (max_default (map (\<lambda>(_, sid). f * sid) rows) 1) 1)"
    "max m (max (max_default (map (\<lambda>(_, sid). f * sid) rows) 1) 1) \<le> s"
    using Cons.prems(1,2) assms(4) by auto
  from Cons.IH [OF this] Cons.prems(3) show ?case by simp
qed simp

lemma load_current_ids_loaded:
  assumes db: "db_consistent db positive s"
  shows "loaded writers positive s v (load_current_ids db (blank_generator v writers positive)) \<and>
    (\<forall>w \<in> set writers. dict_has (mw_current_positions (load_current_ids db (blank_generator v writers positive))) w)"
proof -
  let ?g0 = "blank_generator v writers positive" and ?f = "if positive then 1 else -1 :: int"
  have s: "1 \<le> s" and rows: "\<forall>(_, i) \<in> set (db_stream_positions db) \<union> set (concat (db_tables db)). 1 \<le> ?f * i \<and> ?f * i \<le> s"
    using db unfolding db_consistent_def by blast+
  have f: "return_factor ?g0 = ?f" and w0: "mw_writers ?g0 = writers"
    by (simp_all add: blank_generator_def return_factor_def)
  let ?ps = "dict_update [] (map (\<lambda>(inst, sid). (inst, sid * ?f))
      (filter (\<lambda>(inst, _). inst \<in> set writers) (db_stream_positions db)))"
  have ps: "1 \<le> p \<and> p \<le> s" if "map_of ?ps w = Some p" for w p
  proof -
    from dict_update_cases [OF that] obtain i where i: "p = i * ?f" "(w, i) \<in> set (db_stream_positions db)"
      by (auto split: if_splits)
    from bspec [OF rows UnI1 [OF i(2)]] i(1) show ?thesis by (simp add: mult.commute)
  qed
  define g1 where "g1 = (if writers = [] then ?g0 else ?g0\<lparr>mw_current_positions := ?ps\<rparr>)"
  have l1: "loaded writers positive s v g1"
    unfolding g1_def using blank_loaded [OF s] positions_loaded [OF blank_loaded [OF s] distinct_dict_update ps] by simp
  define positions where "positions = map snd (mw_current_positions g1)"
  have pos: "1 \<le> p \<and> p \<le> s" if "p \<in> set positions" for p
  proof -
    from that obtain w where "(w, p) \<in> set (mw_current_positions g1)" by (auto simp: positions_def)
    then have "map_of (mw_current_positions g1) w = Some p" using gen_okD(2) [OF loadedD(1) [OF l1]] by simp
    with loadedD(7) [OF l1] gen_okD(3) [OF loadedD(1) [OF l1]] show ?thesis by simp
  qed
  define g2 where "g2 = (if positions = []
      then g1\<lparr>mw_persisted_upto_position :=
        fold (\<lambda>rows m. max m (max (max_default (map (\<lambda>(_, sid). ?f * sid) rows) 1) 1)) (db_tables db) 1\<rparr>
      else let min_stream_id = min_default positions 0;
               rows = filter (\<lambda>(_, sid). min_stream_id \<le> ?f * sid) (concat (db_tables db))
           in fold load_row (sort_key snd rows) (g1\<lparr>mw_persisted_upto_position := min_stream_id\<rparr>))"
  have l2: "loaded writers positive s v g2"
  proof (cases "positions = []")
    case True
    have "\<forall>rows \<in> set (db_tables db). \<forall>(_, sid) \<in> set rows. ?f * sid \<le> s" using rows by fastforce
    from table_max_bounds [OF order_refl s this s] persisted_loaded [OF l1] True show ?thesis
      unfolding g2_def by simp
  next
    case False
    then have "min_default positions 0 \<in> set positions"
      using fold_min_mem by (cases positions) (auto simp: min_default_def)
    from persisted_loaded [OF l1] pos [OF this] have l1': "loaded writers positive s v
        (g1\<lparr>mw_persisted_upto_position := min_default positions 0\<rparr>)" by blast
    have "\<forall>(_, sid) \<in> set (sort_key snd (filter (\<lambda>(_, sid). min_default positions 0 \<le> ?f * sid) (concat (db_tables db)))).
        1 \<le> ?f * sid \<and> ?f * sid \<le> s" using rows by fastforce
    from load_rows_loaded [OF l1' s this] False show ?thesis unfolding g2_def Let_def by simp
  qed
  let ?qs = "fold (\<lambda>w d. dict_setdefault d w (mw_persisted_upto_position g2)) writers (mw_current_positions g2)"
  have qs: "1 \<le> p \<and> p \<le> s" if "map_of ?qs w = Some p" for w p
    using setdefault_fold(3) [OF that] loadedD(7,8) [OF l2] gen_okD(3,9) [OF loadedD(1) [OF l2]] by auto
  have eq: "load_current_ids db ?g0 = g2\<lparr>mw_current_positions := ?qs\<rparr>"
    unfolding load_current_ids_def Let_def f w0 g2_def positions_def g1_def by (simp add: Let_def)
  have "distinct (map fst ?qs)" by (rule setdefault_fold(1) [OF gen_okD(2) [OF loadedD(1) [OF l2]]])
  then have "loaded writers positive s v (g2\<lparr>mw_current_positions := ?qs\<rparr>)"
    by (rule positions_loaded [OF l2 _ qs])
  with setdefault_fold(2) [of "mw_persisted_upto_position g2" writers "mw_current_positions g2"]
  show ?thesis unfolding eq by simp
qed

lemma constructor_ok:
  assumes db: "db_consistent db positive s" and "writers \<noteq> []"
  shows "gen_ok s {} v (MultiWriterIdGenerator db v writers positive) \<and>
    covers writers positive (MultiWriterIdGenerator db v writers positive) \<and>
    mw_unfinished_ids (MultiWriterIdGenerator db v writers positive) = {} \<and>
    mw_in_flight_fetches (MultiWriterIdGenerator db v writers positive) = {#}"
proof -
  define g1 where "g1 = load_current_ids db (blank_generator v writers positive)"
  have l: "loaded writers positive s v g1" and dom: "\<forall>w \<in> set writers. dict_has (mw_current_positions g1) w"
    using load_current_ids_loaded [OF db] unfolding g1_def by blast+
  note D = loadedD [OF l] and O = gen_okD [OF loadedD(1) [OF l]]
  have s: "1 \<le> s" using db by (simp add: db_consistent_def)
  define seen where "seen = max (max_default (map snd (mw_current_positions g1)) 1) (mw_persisted_upto_position g1)"
  have "\<forall>p \<in> set (map snd (mw_current_positions g1)). p \<le> s"
    using O(2,3) by (auto dest: map_of_is_SomeI)
  with s O(9) have seen: "seen \<le> s" by (simp add: seen_def max_default_le)
  have eq: "MultiWriterIdGenerator db v writers positive =
      g1\<lparr>mw_max_seen_allocated_stream_id := seen, mw_max_position_of_local_instance := seen\<rparr>"
    using assms(2) by (simp add: MultiWriterIdGenerator_def Let_def g1_def seen_def)
  have "gen_ok s {} v (g1\<lparr>mw_max_seen_allocated_stream_id := seen, mw_max_position_of_local_instance := seen\<rparr>)"
    by (rule gen_okI) (use O seen in simp_all)
  moreover have "1 \<le> own_position g1" if "v \<in> set writers"
    using dom that D(7) O(1) by (fastforce simp: own_position_def dict_has_def)
  then have "covers writers positive (g1\<lparr>mw_max_seen_allocated_stream_id := seen, mw_max_position_of_local_instance := seen\<rparr>)"
    using dom D(2,3) O(1) by (simp add: covers_def own_position_def)
  ultimately show ?thesis unfolding eq using D(4,5) by simp
qed

lemma mw_initial_inv:
  assumes "mw_initial db writers positive W"
  shows "mw_inv writers positive W"
proof -
  note i = assms [unfolded mw_initial_def]
  have u: "used_by W = {}" and b: "batches W = {#}" using i by (auto simp: used_by_def batches_def)
  have s: "1 \<le> mw_seq W" using i by (simp add: db_consistent_def)
  have g: "gen_ok (mw_seq W) {} v (mw_gens W v) \<and> covers writers positive (mw_gens W v) \<and>
      mw_unfinished_ids (mw_gens W v) = {} \<and> mw_in_flight_fetches (mw_gens W v) = {#}" for v
    using i constructor_ok [of db positive "mw_seq W" writers v] by simp
  have f: "fetches_of W v = {#}" "recorded_by W v = {}" for v using i by (auto simp: fetches_of_def recorded_by_def)
  show ?thesis
    unfolding mw_inv_def u b f using i g s by simp
qed

text \<open>
  C21.  Whatever the processes writing to a stream do, in whatever order their steps, the
  sequence and replication interleave, and whether fetches succeed or fail: the position
  that any process reports as persisted (\<^verbatim>\<open>get_current_token\<close>) is below every stream
  ID that some process was given and has not finished with.  For streams with negative IDs
  this holds with the signs reversed.
\<close>

theorem multi_writer_token_safe:
  assumes "mw_initial db writers positive W0" and "mw_step\<^sup>*\<^sup>* W0 W" and "(w, i) \<in> used_by W"
  shows "(if positive then 1 else -1) * get_current_token (mw_gens W v) < i"
proof -
  have inv: "mw_inv writers positive W"
    using assms(2) by (induction rule: rtranclp_induct) (auto intro: mw_step_inv mw_initial_inv [OF assms(1)])
  note D = mw_invD [OF inv]
  have "mw_persisted_upto_position (mw_gens W v) < i"
    using gen_okD(9) [OF D(3) [of v]] assms(3) by (auto simp: below_all_def)
  with D(4) [of v] show ?thesis
    by (simp add: get_current_token_def get_persisted_upto_position_def return_factor_def covers_def)
qed

text \<open>As the system goes on, IDs in use are finished with, or new ones above all others come up.\<close>

lemma used_by_iff:
  "(w, i) \<in> used_by W \<longleftrightarrow> (\<exists>ids. i \<in> set ids \<and> ((\<exists>cm. (w, cm, ids) \<in># mw_fetches W) \<or>
     (\<exists>cm. (w, cm, ids) \<in># mw_ending W) \<or> (w, ids) \<in># mw_open W))"
  by (force simp: used_by_def batches_def)

lemma used_by_mono: "batches W' \<subseteq># batches W \<Longrightarrow> used_by W' \<subseteq> used_by W"
  by (auto simp: used_by_def dest: mset_subset_eqD)

lemma used_by_step:
  assumes "mw_step W W'"
  shows "mw_seq W \<le> mw_seq W' \<and> used_by W' \<subseteq> used_by W \<union> {(w, i). mw_seq W < i}"
  using assms
proof cases
  case (nextval w cm ids F s)
  have "(v, i) \<in> used_by W \<or> mw_seq W < i" if used: "(v, i) \<in> used_by W'" for v i
  proof -
    obtain ids' where i: "i \<in> set ids'" and c: "(\<exists>cm'. (v, cm', ids') \<in># add_mset (w, cm, ids @ [s]) F) \<or>
        (\<exists>cm'. (v, cm', ids') \<in># mw_ending W) \<or> (v, ids') \<in># mw_open W"
      using used unfolding used_by_iff nextval(1) by auto
    show ?thesis
    proof (cases "v = w \<and> ids' = ids @ [s]")
      case True
      then show ?thesis using i nextval(2,3) by (auto simp: used_by_iff)
    next
      case False
      then have "(\<exists>cm'. (v, cm', ids') \<in># mw_fetches W) \<or> (\<exists>cm'. (v, cm', ids') \<in># mw_ending W) \<or> (v, ids') \<in># mw_open W"
        using c nextval(2) by auto
      then show ?thesis using i unfolding used_by_iff by blast
    qed
  qed
  with nextval show ?thesis by auto
next
  case (begin_ w cm g)
  have "(v, i) \<in> used_by W" if "(v, i) \<in> used_by W'" for v i
    using that unfolding used_by_iff begin_(1) by auto
  with begin_ show ?thesis by auto
next
  case (fail w cm ids F)
  then have "batches W' \<subseteq># batches W" by (simp add: batches_def)
  with fail show ?thesis using used_by_mono by auto
next
  case (finish w ids F g)
  then have "batches W' \<subseteq># batches W" by (simp add: batches_def)
  with finish show ?thesis using used_by_mono by auto
qed (auto simp: used_by_def batches_def)

lemma used_by_later:
  assumes "mw_step\<^sup>*\<^sup>* W W'"
  shows "mw_seq W \<le> mw_seq W' \<and> used_by W' \<subseteq> used_by W \<union> {(w, i). mw_seq W < i}"
  using assms
proof (induction rule: rtranclp_induct)
  case (step U V)
  then show ?case using used_by_step [OF step.hyps(2)] by force
qed simp

definition sample_mw_db :: mw_db where
  "sample_mw_db = \<lparr>db_stream_positions = [(''a'', 5), (''b'', 6)], db_tables = [[(''a'', 5), (''b'', 6), (''a'', 7)]]\<rparr>"

definition sample_mw_world :: mw_world where
  "sample_mw_world = \<lparr>mw_gens = (\<lambda>v. MultiWriterIdGenerator sample_mw_db v [''a'', ''b''] True), mw_seq = 7,
     mw_fetches = {#}, mw_ending = {#}, mw_open = {#}, mw_announced = {}\<rparr>"

lemma sample_mw_initial: "mw_initial sample_mw_db [''a'', ''b''] True sample_mw_world"
  by (simp add: mw_initial_def sample_mw_world_def db_consistent_def sample_mw_db_def)

lemma sample_mw_run: "\<exists>W. mw_step\<^sup>*\<^sup>* sample_mw_world W \<and> (''a'', 8) \<in> used_by W"
proof -
  let ?W0 = sample_mw_world
  note D = mw_invD [OF mw_initial_inv [OF sample_mw_initial]]
  have "check_writer (mw_gens ?W0 ''a'') = Inr ()"
    using gen_okD(1) [OF D(3) [of "''a''"]] D(4) [of "''a''"] by (simp add: check_writer_def covers_def)
  moreover obtain cm g where "begin_fetch (mw_gens ?W0 ''a'') = (cm, g)" by fastforce
  ultimately have one: "mw_step ?W0 (?W0\<lparr>mw_gens := (mw_gens ?W0)(''a'' := g),
      mw_fetches := add_mset (''a'', cm, []) (mw_fetches ?W0)\<rparr>)" (is "mw_step _ ?W1") by (rule mw_step.begin_)
  have "mw_fetches ?W1 = add_mset (''a'', cm, []) {#}" "mw_seq ?W1 < 8" by (simp_all add: sample_mw_world_def)
  then have two: "mw_step ?W1 (?W1\<lparr>mw_seq := 8, mw_fetches := add_mset (''a'', cm, [] @ [8]) {#}\<rparr>)" (is "mw_step _ ?W2")
    by (rule mw_step.nextval)
  have run: "mw_step\<^sup>*\<^sup>* ?W0 ?W2"
    by (rule rtranclp.rtrancl_into_rtrancl [where r = mw_step, OF r_into_rtranclp [where r = mw_step, OF one] two])
  have "(''a'', 8) \<in> used_by ?W2" by (rule fetch_used [of _ cm "[8]"]) simp_all
  with run show ?thesis by blast
qed

theorem multi_writer_token_safe_witness:
  "\<exists>W. mw_step\<^sup>*\<^sup>* sample_mw_world W \<and> (''a'', 8) \<in> used_by W \<and> get_current_token (mw_gens W ''b'') < 8"
proof -
  obtain W where run: "mw_step\<^sup>*\<^sup>* sample_mw_world W" and use: "(''a'', 8) \<in> used_by W"
    using sample_mw_run by blast
  from multi_writer_token_safe [OF sample_mw_initial run use, of "''b''"] run use show ?thesis by auto
qed

end
