(* ===== verification/Stream_Tokens.thy ===== *)
theory Stream_Tokens
  imports Json
begin

text \<open>
  The stream tokens of \<^verbatim>\<open>synapse/types/__init__.py\<close>: positions in streams
  with several writers (a vector clock), positions in the event stream, the token of
  \<^verbatim>\<open>/sync\<close> that joins ten such positions, and their textual forms.  The ID an
  instance has in the text is kept in the table \<^verbatim>\<open>instance_map\<close>
  (\<^verbatim>\<open>synapse/storage/databases/main/stream.py\<close>), which the printing functions
  may extend.
\<close>

section \<open>The table of instances\<close>

text \<open>The rows, and the last value of the sequence that numbers them.\<close>

record instance_table =
  it_rows :: "(string \<times> int) list"
  it_seq :: int

definition get_id_for_instance :: "string \<Rightarrow> instance_table \<Rightarrow> int \<times> instance_table" where
  "get_id_for_instance name t =
     (case map_of (it_rows t) name of
        Some i \<Rightarrow> (i, t)
      | None \<Rightarrow> (it_seq t + 1, t\<lparr>it_rows := it_rows t @ [(name, it_seq t + 1)], it_seq := it_seq t + 1\<rparr>))"

definition get_name_from_instance_id :: "instance_table \<Rightarrow> int \<Rightarrow> string result" where
  "get_name_from_instance_id t i =
     (case filter (\<lambda>(_, j). j = i) (it_rows t) of
        [] \<Rightarrow> Inl (SynapseError 404 ''No row found (%s)'' UNKNOWN)
      | (name, _) # _ \<Rightarrow> Inr name)"

section \<open>Tokens\<close>

text \<open>
  \<^verbatim>\<open>AbstractMultiWriterStreamToken\<close> and, without further fields,
  \<^verbatim>\<open>MultiWriterStreamToken\<close>; \<^verbatim>\<open>RoomStreamToken\<close> extends it.
\<close>

record mw_token =
  tk_stream :: int
  tk_instance_map :: "(string \<times> int) list"

record room_token = mw_token +
  tk_topological :: "int option"

text \<open>\<^verbatim>\<open>self.instance_map.get(instance_name, self.stream)\<close>.\<close>

definition stream_pos :: "'a mw_token_scheme \<Rightarrow> string \<Rightarrow> int" where
  "stream_pos t name = (case map_of (tk_instance_map t) name of None \<Rightarrow> tk_stream t | Some p \<Rightarrow> p)"

definition mw_copy_and_advance :: "'a mw_token_scheme \<Rightarrow> 'b mw_token_scheme \<Rightarrow> 'a mw_token_scheme" where
  "mw_copy_and_advance t u =
     t\<lparr>tk_stream := max (tk_stream t) (tk_stream u),
       tk_instance_map := map (\<lambda>name. (name, max (stream_pos t name) (stream_pos u name)))
         (remdups (map fst (tk_instance_map t) @ map fst (tk_instance_map u)))\<rparr>"

definition get_max_stream_pos :: "'a mw_token_scheme \<Rightarrow> int" where
  "get_max_stream_pos t = (case map snd (tk_instance_map t) of [] \<Rightarrow> tk_stream t | p # ps \<Rightarrow> fold max ps p)"

text \<open>\<^verbatim>\<open>PersistedPosition.persisted_after\<close>.\<close>

definition persisted_after :: "string \<Rightarrow> int \<Rightarrow> 'a mw_token_scheme \<Rightarrow> bool" where
  "persisted_after instance_name stream t \<longleftrightarrow> stream_pos t instance_name < stream"

text \<open>\<^verbatim>\<open>RoomStreamToken(...)\<close>, with the check of \<^verbatim>\<open>__attrs_post_init__\<close>.\<close>

definition truthy :: "int option \<Rightarrow> bool" where
  "truthy x \<longleftrightarrow> x \<noteq> None \<and> x \<noteq> Some 0"

definition RoomStreamToken :: "int option \<Rightarrow> int \<Rightarrow> (string \<times> int) list \<Rightarrow> room_token result" where
  "RoomStreamToken topological stream instance_map =
     (if instance_map \<noteq> [] \<and> truthy topological
      then Inl PyValueError
      else Inr \<lparr>tk_stream = stream, tk_instance_map = instance_map, tk_topological = topological\<rparr>)"

definition room_copy_and_advance :: "room_token \<Rightarrow> room_token \<Rightarrow> room_token result" where
  "room_copy_and_advance t u =
     (if truthy (tk_topological t) \<or> truthy (tk_topological u)
      then Inl (PyException ''Can't advance topological tokens'')
      else Inr (mw_copy_and_advance t u))"

definition as_historical_tuple :: "room_token \<Rightarrow> (int \<times> int) result" where
  "as_historical_tuple t =
     (case tk_topological t of
        None \<Rightarrow> Inl (PyException ''Cannot call `RoomStreamToken.as_historical_tuple` on live token'')
      | Some topo \<Rightarrow> Inr (topo, tk_stream t))"

definition get_stream_pos_for_instance :: "room_token \<Rightarrow> string \<Rightarrow> int result" where
  "get_stream_pos_for_instance t name =
     (if tk_topological t \<noteq> None then Inl PyAssertionError else Inr (stream_pos t name))"

text \<open>\<^verbatim>\<open>MultiWriterStreamToken.is_stream_position_in_range\<close>; an instance name may be missing or empty.\<close>

definition bound_for :: "'a mw_token_scheme \<Rightarrow> string option \<Rightarrow> int" where
  "bound_for t name = (case name of None \<Rightarrow> tk_stream t | Some n \<Rightarrow> if n = [] then tk_stream t else stream_pos t n)"

definition is_stream_position_in_range ::
  "'a mw_token_scheme option \<Rightarrow> 'a mw_token_scheme option \<Rightarrow> string option \<Rightarrow> int \<Rightarrow> bool" where
  "is_stream_position_in_range low high name pos =
     (if (case low of None \<Rightarrow> False | Some t \<Rightarrow> pos \<le> bound_for t name) then False
      else if (case high of None \<Rightarrow> False | Some t \<Rightarrow> bound_for t name < pos) then False
      else True)"

section \<open>Textual forms\<close>

text \<open>The loop that prints the entries of an instance map ahead of the default position.\<close>

fun encode_entries :: "int \<Rightarrow> (string \<times> int) list \<Rightarrow> instance_table \<Rightarrow> string list \<times> instance_table" where
  "encode_entries stream [] tbl = ([], tbl)"
| "encode_entries stream ((name, pos) # rest) tbl =
     (if pos \<le> stream then encode_entries stream rest tbl
      else case get_id_for_instance name tbl of (instance_id, tbl1) \<Rightarrow>
             case encode_entries stream rest tbl1 of (entries, tbl2) \<Rightarrow>
               ((show_int instance_id @ CHR ''.'' # show_int pos) # entries, tbl2))"

definition encode_vector :: "'a mw_token_scheme \<Rightarrow> instance_table \<Rightarrow> string \<times> instance_table" where
  "encode_vector t tbl =
     (case encode_entries (tk_stream t) (tk_instance_map t) tbl of (entries, tbl') \<Rightarrow>
        (CHR ''m'' # show_int (tk_stream t) @ CHR ''~'' # join_with (CHR ''~'') entries, tbl'))"

definition room_to_string :: "room_token \<Rightarrow> instance_table \<Rightarrow> string \<times> instance_table" where
  "room_to_string t tbl =
     (case tk_topological t of
        Some topo \<Rightarrow> (CHR ''t'' # show_int topo @ CHR ''-'' # show_int (tk_stream t), tbl)
      | None \<Rightarrow> if tk_instance_map t \<noteq> [] then encode_vector t tbl
                else (CHR ''s'' # show_int (tk_stream t), tbl))"

definition mw_to_string :: "mw_token \<Rightarrow> instance_table \<Rightarrow> string \<times> instance_table" where
  "mw_to_string t tbl =
     (if tk_instance_map t \<noteq> [] then encode_vector t tbl else (show_int (tk_stream t), tbl))"

text \<open>One part of a vector token, and all of them.\<close>

definition parse_entry :: "instance_table \<Rightarrow> string \<Rightarrow> (string \<times> int) list \<Rightarrow> (string \<times> int) list result" where
  "parse_entry tbl part instance_map =
     (case split_all (CHR ''.'') part of
        [key, val] \<Rightarrow>
          rbind (py_int_of_str key) (\<lambda>instance_id.
          rbind (py_int_of_str val) (\<lambda>pos.
          rbind (get_name_from_instance_id tbl instance_id) (\<lambda>name.
          Inr (AList.update name pos instance_map))))
      | _ \<Rightarrow> Inl PyValueError)"

definition parse_vector :: "instance_table \<Rightarrow> string \<Rightarrow> (int \<times> (string \<times> int) list) result" where
  "parse_vector tbl s =
     (let parts = split_all (CHR ''~'') s
      in rbind (py_int_of_str (hd parts)) (\<lambda>stream.
         rbind (rfold (parse_entry tbl) (tl parts) []) (\<lambda>instance_map.
         Inr (stream, instance_map))))"

text \<open>\<^verbatim>\<open>except Exception: pass\<close>, after which the function raises its own error.\<close>

definition or_raise :: "'a result \<Rightarrow> string \<Rightarrow> 'a result" where
  "or_raise r msg = (case r of Inr a \<Rightarrow> Inr a | Inl _ \<Rightarrow> Inl (SynapseError 400 msg UNKNOWN))"

definition room_parse :: "instance_table \<Rightarrow> string \<Rightarrow> room_token result" where
  "room_parse tbl s =
     or_raise
       (case s of
          [] \<Rightarrow> Inl PyIndexError
        | c # rest \<Rightarrow>
            if c = CHR ''s'' then rbind (py_int_of_str rest) (\<lambda>stream. RoomStreamToken None stream [])
            else if c = CHR ''t'' then
              (case split_once (CHR ''-'') rest of
                 None \<Rightarrow> rbind (py_int_of_str rest) (\<lambda>_. Inl PyIndexError)
               | Some (a, b) \<Rightarrow>
                   rbind (py_int_of_str a) (\<lambda>topo.
                   rbind (py_int_of_str b) (\<lambda>stream. RoomStreamToken (Some topo) stream [])))
            else if c = CHR ''m'' then
              rbind (parse_vector tbl rest) (\<lambda>(stream, instance_map). RoomStreamToken None stream instance_map)
            else Inl PyValueError)
       ''Invalid room stream token %r''"

definition parse_stream_token :: "string \<Rightarrow> room_token result" where
  "parse_stream_token s =
     or_raise
       (case s of
          [] \<Rightarrow> Inl PyIndexError
        | c # rest \<Rightarrow>
            if c = CHR ''s'' then rbind (py_int_of_str rest) (\<lambda>stream. RoomStreamToken None stream [])
            else Inl PyValueError)
       ''Invalid room stream token %r''"

definition mw_parse :: "instance_table \<Rightarrow> string \<Rightarrow> mw_token result" where
  "mw_parse tbl s =
     or_raise
       (case s of
          [] \<Rightarrow> Inl PyIndexError
        | c # rest \<Rightarrow>
            if is_digit c
            then rbind (py_int_of_str s) (\<lambda>stream. Inr \<lparr>tk_stream = stream, tk_instance_map = []\<rparr>)
            else if c = CHR ''m'' then
              rbind (parse_vector tbl rest) (\<lambda>(stream, instance_map).
                Inr \<lparr>tk_stream = stream, tk_instance_map = instance_map\<rparr>)
            else Inl PyValueError)
       ''Invalid stream token %r''"

section \<open>The sync token\<close>

record stream_token =
  room_key :: room_token
  presence_key :: int
  typing_key :: int
  receipt_key :: mw_token
  account_data_key :: int
  push_rules_key :: int
  to_device_key :: int
  device_list_key :: int
  groups_key :: int
  un_partial_stated_rooms_key :: int

datatype stream_key_type = ROOM | PRESENCE | TYPING | RECEIPT | ACCOUNT_DATA | PUSH_RULES | TO_DEVICE
  | DEVICE_LIST | UN_PARTIAL_STATED_ROOMS

definition stream_to_string :: "stream_token \<Rightarrow> instance_table \<Rightarrow> string \<times> instance_table" where
  "stream_to_string t tbl =
     (case room_to_string (room_key t) tbl of (room, tbl1) \<Rightarrow>
      case mw_to_string (receipt_key t) tbl1 of (receipt, tbl2) \<Rightarrow>
        (join_with (CHR ''_'')
           [room, show_int (presence_key t), show_int (typing_key t), receipt,
            show_int (account_data_key t), show_int (push_rules_key t), show_int (to_device_key t),
            show_int (device_list_key t), show_int (groups_key t), show_int (un_partial_stated_rooms_key t)],
         tbl2))"

definition stream_from_string :: "instance_table \<Rightarrow> string \<Rightarrow> stream_token result" where
  "stream_from_string tbl s =
     or_raise
       (let keys0 = split_all (CHR ''_'') s; keys = keys0 @ replicate (10 - length keys0) ''0''
        in case keys of
          [room, presence, typing, receipt, account_data, push_rules, to_device, device_list, groups, un_partial] \<Rightarrow>
            rbind (room_parse tbl room) (\<lambda>room_key'.
            rbind (py_int_of_str presence) (\<lambda>presence_key'.
            rbind (py_int_of_str typing) (\<lambda>typing_key'.
            rbind (mw_parse tbl receipt) (\<lambda>receipt_key'.
            rbind (py_int_of_str account_data) (\<lambda>account_data_key'.
            rbind (py_int_of_str push_rules) (\<lambda>push_rules_key'.
            rbind (py_int_of_str to_device) (\<lambda>to_device_key'.
            rbind (py_int_of_str device_list) (\<lambda>device_list_key'.
            rbind (py_int_of_str groups) (\<lambda>groups_key'.
            rbind (py_int_of_str un_partial) (\<lambda>un_partial_key'.
            Inr \<lparr>room_key = room_key', presence_key = presence_key', typing_key = typing_key',
              receipt_key = receipt_key', account_data_key = account_data_key',
              push_rules_key = push_rules_key', to_device_key = to_device_key',
              device_list_key = device_list_key', groups_key = groups_key',
              un_partial_stated_rooms_key = un_partial_key'\<rparr>))))))))))
        | _ \<Rightarrow> Inl PyValueError)
       ''Invalid stream token''"

text \<open>A field of the token, and the value a field is replaced with.\<close>

datatype token_value = RoomValue room_token | ReceiptValue mw_token | IntValue int

definition get_field :: "stream_token \<Rightarrow> stream_key_type \<Rightarrow> token_value" where
  "get_field t key =
     (case key of
        ROOM \<Rightarrow> RoomValue (room_key t) | PRESENCE \<Rightarrow> IntValue (presence_key t)
      | TYPING \<Rightarrow> IntValue (typing_key t) | RECEIPT \<Rightarrow> ReceiptValue (receipt_key t)
      | ACCOUNT_DATA \<Rightarrow> IntValue (account_data_key t) | PUSH_RULES \<Rightarrow> IntValue (push_rules_key t)
      | TO_DEVICE \<Rightarrow> IntValue (to_device_key t) | DEVICE_LIST \<Rightarrow> IntValue (device_list_key t)
      | UN_PARTIAL_STATED_ROOMS \<Rightarrow> IntValue (un_partial_stated_rooms_key t))"

text \<open>
  \<^verbatim>\<open>attr.evolve\<close> runs the validators of the two fields that have one; the other
  fields are numbers, as annotated.
\<close>

definition copy_and_replace :: "stream_token \<Rightarrow> stream_key_type \<Rightarrow> token_value \<Rightarrow> stream_token result" where
  "copy_and_replace t key v =
     (case (key, v) of
        (ROOM, RoomValue r) \<Rightarrow> Inr (t\<lparr>room_key := r\<rparr>)
      | (RECEIPT, ReceiptValue r) \<Rightarrow> Inr (t\<lparr>receipt_key := r\<rparr>)
      | (PRESENCE, IntValue i) \<Rightarrow> Inr (t\<lparr>presence_key := i\<rparr>)
      | (TYPING, IntValue i) \<Rightarrow> Inr (t\<lparr>typing_key := i\<rparr>)
      | (ACCOUNT_DATA, IntValue i) \<Rightarrow> Inr (t\<lparr>account_data_key := i\<rparr>)
      | (PUSH_RULES, IntValue i) \<Rightarrow> Inr (t\<lparr>push_rules_key := i\<rparr>)
      | (TO_DEVICE, IntValue i) \<Rightarrow> Inr (t\<lparr>to_device_key := i\<rparr>)
      | (DEVICE_LIST, IntValue i) \<Rightarrow> Inr (t\<lparr>device_list_key := i\<rparr>)
      | (UN_PARTIAL_STATED_ROOMS, IntValue i) \<Rightarrow> Inr (t\<lparr>un_partial_stated_rooms_key := i\<rparr>)
      | _ \<Rightarrow> Inl PyTypeError)"

definition copy_and_advance :: "stream_token \<Rightarrow> stream_key_type \<Rightarrow> token_value \<Rightarrow> stream_token result" where
  "copy_and_advance t key v =
     (case (key, v) of
        (ROOM, RoomValue r) \<Rightarrow>
          rbind (room_copy_and_advance (room_key t) r) (\<lambda>r'. copy_and_replace t ROOM (RoomValue r'))
      | (ROOM, _) \<Rightarrow>
          if truthy (tk_topological (room_key t)) then Inl (PyException ''Can't advance topological tokens'')
          else Inl PyAttributeError
      | (RECEIPT, ReceiptValue r) \<Rightarrow>
          copy_and_replace t RECEIPT (ReceiptValue (mw_copy_and_advance (receipt_key t) r))
      | (RECEIPT, RoomValue r) \<Rightarrow>
          copy_and_replace t RECEIPT (ReceiptValue (mw_copy_and_advance (receipt_key t) r))
      | (RECEIPT, IntValue _) \<Rightarrow> Inl PyAttributeError
      | _ \<Rightarrow>
          rbind (copy_and_replace t key v) (\<lambda>new_token.
          case (get_field t key, get_field new_token key) of
            (IntValue old_id, IntValue new_id) \<Rightarrow> Inr (if old_id < new_id then new_token else t)
          | _ \<Rightarrow> Inl PyTypeError))"

definition stream_token_START :: stream_token where
  "stream_token_START =
     \<lparr>room_key = \<lparr>tk_stream = 0, tk_instance_map = [], tk_topological = None\<rparr>, presence_key = 0, typing_key = 0,
      receipt_key = \<lparr>tk_stream = 0, tk_instance_map = []\<rparr>, account_data_key = 0, push_rules_key = 0,
      to_device_key = 0, device_list_key = 0, groups_key = 0, un_partial_stated_rooms_key = 0\<rparr>"

end
