(* ===== verification/Stream_Token_Props.thy ===== *)
theory Stream_Token_Props
  imports Stream_Tokens
begin

text \<open>
  Stream tokens: what a client gets back from the token it was sent, and how tokens divide
  a stream into ranges.
\<close>

section \<open>The table of instances\<close>

text \<open>The unique constraints of the table, and the sequence ahead of its IDs.\<close>

definition table_ok :: "instance_table \<Rightarrow> bool" where
  "table_ok t \<longleftrightarrow> distinct (map fst (it_rows t)) \<and> distinct (map snd (it_rows t)) \<and>
     (\<forall>(_, i) \<in> set (it_rows t). i \<le> it_seq t)"

lemma get_name_iff:
  assumes "table_ok t"
  shows "get_name_from_instance_id t i = Inr name \<longleftrightarrow> (name, i) \<in> set (it_rows t)"
proof
  assume "get_name_from_instance_id t i = Inr name"
  then obtain j ys where "filter (\<lambda>(_, j). j = i) (it_rows t) = (name, j) # ys"
    by (auto simp: get_name_from_instance_id_def split: list.splits)
  then have "(name, j) \<in> set (filter (\<lambda>(_, j). j = i) (it_rows t))" by simp
  then show "(name, i) \<in> set (it_rows t)" by auto
next
  assume r: "(name, i) \<in> set (it_rows t)"
  then have "filter (\<lambda>(_, j). j = i) (it_rows t) \<noteq> []" by (auto simp: filter_empty_conv)
  then obtain n j ys where f: "filter (\<lambda>(_, j). j = i) (it_rows t) = (n, j) # ys"
    by (metis neq_Nil_conv surj_pair)
  then have "(n, j) \<in> set (filter (\<lambda>(_, j). j = i) (it_rows t))" by simp
  then have "(n, i) \<in> set (it_rows t)" by auto
  moreover have "inj_on snd (set (it_rows t))" using assms by (simp add: table_ok_def distinct_map)
  ultimately have "n = name" using r by (metis inj_onD prod.inject snd_conv)
  with f show "get_name_from_instance_id t i = Inr name" by (simp add: get_name_from_instance_id_def)
qed

lemma get_id_for_instance_ok:
  assumes "table_ok t" and "get_id_for_instance name t = (i, t')"
  shows "table_ok t'" and "(name, i) \<in> set (it_rows t')" and "set (it_rows t) \<subseteq> set (it_rows t')"
  using assms
  by (fastforce simp: get_id_for_instance_def table_ok_def map_of_eq_None_iff split: option.splits
      dest: map_of_SomeD)+

section \<open>Vector tokens\<close>

definition ahead :: "'a mw_token_scheme \<Rightarrow> (string \<times> int) list" where
  "ahead t = filter (\<lambda>(_, pos). tk_stream t < pos) (tk_instance_map t)"


lemma parse_entry_printed:
  assumes "table_ok u" and "(name, i) \<in> set (it_rows u)"
  shows "parse_entry u (show_int i @ CHR ''.'' # show_int pos) acc = Inr (AList.update name pos acc)"
proof -
  have "split_all (CHR ''.'') (show_int i @ CHR ''.'' # show_int pos) = [show_int i, show_int pos]"
    by (simp add: split_all_sep split_all_no_sep)
  moreover have "get_name_from_instance_id u i = Inr name" using assms by (simp add: get_name_iff)
  ultimately show ?thesis by (simp add: parse_entry_def)
qed

lemma encode_entries_ok:
  assumes "encode_entries s m t = (es, t')" and "table_ok t"
  shows "table_ok t' \<and> set (it_rows t) \<subseteq> set (it_rows t') \<and>
    (\<forall>e \<in> set es. CHR ''~'' \<notin> set e \<and> CHR ''_'' \<notin> set e) \<and> length es = length (filter (\<lambda>(_, pos). s < pos) m) \<and>
    (\<forall>u acc. table_ok u \<longrightarrow> set (it_rows t') \<subseteq> set (it_rows u) \<longrightarrow>
       rfold (parse_entry u) es acc = Inr (dict_update acc (filter (\<lambda>(_, pos). s < pos) m)))"
  using assms
proof (induction m arbitrary: t es t')
  case Nil
  then show ?case by (simp add: dict_update_def)
next
  case (Cons e m)
  obtain name pos where e: "e = (name, pos)" by (cases e)
  show ?case
  proof (cases "pos \<le> s")
    case True
    with Cons.prems have "encode_entries s m t = (es, t')" by (simp add: e)
    from Cons.IH [OF this Cons.prems(2)] True show ?thesis by (simp add: e)
  next
    case False
    obtain i t1 where i: "get_id_for_instance name t = (i, t1)" by fastforce
    obtain es2 t2 where r: "encode_entries s m t1 = (es2, t2)" by fastforce
    note g = get_id_for_instance_ok [OF Cons.prems(2) i]
    note h = Cons.IH [OF r g(1)]
    have es: "es = (show_int i @ CHR ''.'' # show_int pos) # es2" "t' = t2"
      using Cons.prems(1) False by (simp_all add: e i r)
    have "rfold (parse_entry u) es acc = Inr (dict_update acc (filter (\<lambda>(_, pos). s < pos) (e # m)))"
      if "table_ok u" "set (it_rows t') \<subseteq> set (it_rows u)" for u acc
    proof -
      have "(name, i) \<in> set (it_rows u)" using g(2) h that(2) unfolding es by blast
      then show ?thesis using h that False by (simp add: es e parse_entry_printed dict_update_def)
    qed
    then show ?thesis using h g False by (auto simp: es e)
  qed
qed

lemma distinct_ahead: "distinct (map fst (tk_instance_map t)) \<Longrightarrow> distinct (map fst (ahead t))"
  unfolding ahead_def by (rule distinct_map_filter)

lemma vector_printed:
  assumes "encode_vector t tbl = (s, tbl')" and "table_ok tbl" and "ahead t \<noteq> []"
    and "distinct (map fst (tk_instance_map t))"
  shows "table_ok tbl' \<and> set (it_rows tbl) \<subseteq> set (it_rows tbl') \<and> CHR ''_'' \<notin> set s \<and>
    (\<exists>rest. s = CHR ''m'' # rest \<and> (\<forall>u. table_ok u \<longrightarrow> set (it_rows tbl') \<subseteq> set (it_rows u) \<longrightarrow>
      parse_vector u rest = Inr (tk_stream t, ahead t)))"
proof -
  obtain es where es: "encode_entries (tk_stream t) (tk_instance_map t) tbl = (es, tbl')"
    and s: "s = CHR ''m'' # show_int (tk_stream t) @ CHR ''~'' # join_with (CHR ''~'') es"
    using assms(1) by (auto simp: encode_vector_def split: prod.splits)
  note h = encode_entries_ok [OF es assms(2), folded ahead_def]
  have "es \<noteq> []" using h assms(3) by auto
  then have sp: "split_all (CHR ''~'') (show_int (tk_stream t) @ CHR ''~'' # join_with (CHR ''~'') es)
      = show_int (tk_stream t) # es"
    using h by (simp add: split_all_sep split_all_join_with)
  have "CHR ''_'' \<notin> set (join_with (CHR ''~'') es)" if "\<forall>e \<in> set es. CHR ''_'' \<notin> set e" for es
    using that by (induction "CHR ''~''" es rule: join_with.induct) auto
  then have "CHR ''_'' \<notin> set s" using h by (simp add: s)
  moreover have "parse_vector u (show_int (tk_stream t) @ CHR ''~'' # join_with (CHR ''~'') es) = Inr (tk_stream t, ahead t)"
    if "table_ok u" "set (it_rows tbl') \<subseteq> set (it_rows u)" for u
    using h that by (simp add: parse_vector_def sp dict_update_new [OF distinct_ahead [OF assms(4)]])
  ultimately show ?thesis using h s by blast
qed

section \<open>Round trips\<close>

text \<open>The token with what its text has: positions behind the default one are left out.\<close>

definition canonical :: "'a mw_token_scheme \<Rightarrow> 'a mw_token_scheme" where
  "canonical t = t\<lparr>tk_instance_map := ahead t\<rparr>"

definition room_canonical :: "room_token \<Rightarrow> room_token" where
  "room_canonical t = (if tk_topological t = None then canonical t else t\<lparr>tk_instance_map := []\<rparr>)"

definition vector_printable :: "'a mw_token_scheme \<Rightarrow> bool" where
  "vector_printable t \<longleftrightarrow> distinct (map fst (tk_instance_map t)) \<and> (tk_instance_map t \<noteq> [] \<longrightarrow> ahead t \<noteq> [])"

definition room_printable :: "room_token \<Rightarrow> bool" where
  "room_printable t \<longleftrightarrow> (case tk_topological t of None \<Rightarrow> vector_printable t | Some topo \<Rightarrow> 0 \<le> topo)"

definition printable :: "stream_token \<Rightarrow> bool" where
  "printable t \<longleftrightarrow> room_printable (room_key t) \<and> vector_printable (receipt_key t) \<and> 0 \<le> tk_stream (receipt_key t)"

lemma show_int_nonneg: "0 \<le> i \<Longrightarrow> \<exists>c cs. show_int i = c # cs \<and> is_digit c"
  using show_nat_digits [of "nat i"] show_nat_nonempty [of "nat i"]
  by (cases "show_nat (nat i)") (auto simp: show_int_def)

lemma room_printed:
  assumes "room_to_string t tbl = (s, tbl')" and "table_ok tbl" and "room_printable t"
  shows "table_ok tbl' \<and> set (it_rows tbl) \<subseteq> set (it_rows tbl') \<and> CHR ''_'' \<notin> set s \<and>
    (\<forall>u. table_ok u \<longrightarrow> set (it_rows tbl') \<subseteq> set (it_rows u) \<longrightarrow> room_parse u s = Inr (room_canonical t))"
proof (cases "tk_topological t")
  case (Some topo)
  then have s: "s = CHR ''t'' # show_int topo @ CHR ''-'' # show_int (tk_stream t)" "tbl' = tbl" and "0 \<le> topo"
    using assms by (auto simp: room_to_string_def room_printable_def)
  then have "CHR ''-'' \<notin> set (show_int topo)" by (simp add: show_int_def show_nat_no_minus)
  then show ?thesis
    using assms(2) Some by (simp add: s room_parse_def RoomStreamToken_def or_raise_def room_canonical_def)
next
  case None
  show ?thesis
  proof (cases "tk_instance_map t = []")
    case True
    then have s: "s = CHR ''s'' # show_int (tk_stream t)" "tbl' = tbl"
      using assms(1) None by (simp_all add: room_to_string_def)
    show ?thesis
      using assms(2) None True
      by (simp add: s room_parse_def RoomStreamToken_def or_raise_def room_canonical_def canonical_def ahead_def)
  next
    case False
    then have "encode_vector t tbl = (s, tbl')" using assms(1) None by (simp add: room_to_string_def)
    moreover have "ahead t \<noteq> []" "distinct (map fst (tk_instance_map t))"
      using assms(3) None False by (simp_all add: room_printable_def vector_printable_def)
    ultimately show ?thesis
      using vector_printed [of t tbl s tbl'] assms(2) None
      by (force simp: room_parse_def RoomStreamToken_def or_raise_def room_canonical_def canonical_def truthy_def)
  qed
qed

lemma mw_printed:
  assumes "mw_to_string t tbl = (s, tbl')" and "table_ok tbl" and "vector_printable t" and "0 \<le> tk_stream t"
  shows "table_ok tbl' \<and> set (it_rows tbl) \<subseteq> set (it_rows tbl') \<and> CHR ''_'' \<notin> set s \<and>
    (\<forall>u. table_ok u \<longrightarrow> set (it_rows tbl') \<subseteq> set (it_rows u) \<longrightarrow> mw_parse u s = Inr (canonical t))"
proof (cases "tk_instance_map t = []")
  case True
  then have s: "s = show_int (tk_stream t)" "tbl' = tbl" using assms(1) by (simp_all add: mw_to_string_def)
  obtain c cs where c: "show_int (tk_stream t) = c # cs" "is_digit c" using show_int_nonneg [OF assms(4)] by blast
  have "mw_parse u s = Inr (canonical t)" for u
    using py_int_of_str_show_int [of "tk_stream t"] c True
    by (simp add: s mw_parse_def or_raise_def canonical_def ahead_def)
  then show ?thesis using assms(2) by (simp add: s)
next
  case False
  then have "encode_vector t tbl = (s, tbl')" using assms(1) by (simp add: mw_to_string_def)
  moreover have "ahead t \<noteq> []" "distinct (map fst (tk_instance_map t))"
    using assms(3) False by (simp_all add: vector_printable_def)
  ultimately show ?thesis
    using vector_printed [of t tbl s tbl'] assms(2)
    by (force simp: mw_parse_def or_raise_def canonical_def is_digit_def)
qed

lemma stream_pos_canonical:
  assumes "distinct (map fst (tk_instance_map t))"
  shows "stream_pos (canonical t) name = max (tk_stream t) (stream_pos t name)"
proof -
  have "map_of (ahead t) name = (case map_of (tk_instance_map t) name of
      None \<Rightarrow> None | Some p \<Rightarrow> if tk_stream t < p then Some p else None)"
    using map_of_filter_snd [OF assms, of "\<lambda>p. tk_stream t < p" name]
    by (simp add: ahead_def case_prod_unfold split: option.splits)
  then show ?thesis by (auto simp: stream_pos_def canonical_def split: option.splits)
qed

lemma canonical_ahead:
  "\<forall>(_, pos) \<in> set (tk_instance_map t). tk_stream t < pos \<Longrightarrow> canonical t = t"
  by (simp add: canonical_def ahead_def cong: filter_cong)

text \<open>
  C23.  A printable \<^verbatim>\<open>/sync\<close> token survives being sent to a client and back: parsing the
  text of the token, with the instance table as printing left it, gives the token again,
  without the positions of writers that are not ahead of the default position, for which
  the returned token has the default position.  A token all of whose writers are ahead is
  given back unchanged.  Printable tokens have no negative topological or receipt position,
  distinct writers, and, when there are writers at all, one that is ahead: C26 shows that
  the text of the others is refused.
\<close>

theorem stream_token_roundtrip:
  assumes "table_ok tbl" and "printable t" and "stream_to_string t tbl = (s, tbl')"
  shows "stream_from_string tbl' s =
      Inr (t\<lparr>room_key := room_canonical (room_key t), receipt_key := canonical (receipt_key t)\<rparr>) \<and>
    table_ok tbl' \<and>
    (tk_topological (room_key t) = None \<longrightarrow>
      stream_pos (room_canonical (room_key t)) name = max (tk_stream (room_key t)) (stream_pos (room_key t) name)) \<and>
    ((tk_topological (room_key t) \<noteq> None \<longrightarrow> tk_instance_map (room_key t) = []) \<and>
     (\<forall>(_, pos) \<in> set (tk_instance_map (room_key t)). tk_stream (room_key t) < pos) \<and>
     (\<forall>(_, pos) \<in> set (tk_instance_map (receipt_key t)). tk_stream (receipt_key t) < pos) \<longrightarrow>
       stream_from_string tbl' s = Inr t)"
proof -
  obtain room tbl1 where room: "room_to_string (room_key t) tbl = (room, tbl1)" by fastforce
  obtain receipt where receipt: "mw_to_string (receipt_key t) tbl1 = (receipt, tbl')"
    and s: "s = join_with (CHR ''_'') [room, show_int (presence_key t), show_int (typing_key t), receipt,
      show_int (account_data_key t), show_int (push_rules_key t), show_int (to_device_key t),
      show_int (device_list_key t), show_int (groups_key t), show_int (un_partial_stated_rooms_key t)]"
    using assms(3) by (auto simp: stream_to_string_def room split: prod.splits)
  have p: "room_printable (room_key t)" "vector_printable (receipt_key t)" "0 \<le> tk_stream (receipt_key t)"
    using assms(2) by (simp_all add: printable_def)
  note r = room_printed [OF room assms(1) p(1)]
  note m = mw_printed [OF receipt conjunct1 [OF r] p(2,3)]
  have "split_all (CHR ''_'') s = [room, show_int (presence_key t), show_int (typing_key t), receipt,
      show_int (account_data_key t), show_int (push_rules_key t), show_int (to_device_key t),
      show_int (device_list_key t), show_int (groups_key t), show_int (un_partial_stated_rooms_key t)]"
    unfolding s by (rule split_all_join_with) (use r m in auto)
  moreover have "room_parse tbl' room = Inr (room_canonical (room_key t))"
    "mw_parse tbl' receipt = Inr (canonical (receipt_key t))"
    using r m by blast+
  ultimately have "stream_from_string tbl' s =
      Inr (t\<lparr>room_key := room_canonical (room_key t), receipt_key := canonical (receipt_key t)\<rparr>)"
    by (simp add: stream_from_string_def or_raise_def Let_def)
  moreover have "stream_pos (room_canonical (room_key t)) name = max (tk_stream (room_key t)) (stream_pos (room_key t) name)"
    if "tk_topological (room_key t) = None"
    using p(1) that stream_pos_canonical [of "room_key t"]
    by (simp add: room_printable_def room_canonical_def vector_printable_def)
  moreover have "room_canonical (room_key t) = room_key t"
    if "tk_topological (room_key t) \<noteq> None \<longrightarrow> tk_instance_map (room_key t) = []"
      "\<forall>(_, pos) \<in> set (tk_instance_map (room_key t)). tk_stream (room_key t) < pos"
    using that canonical_ahead [of "room_key t"] by (simp add: room_canonical_def)
  ultimately show ?thesis using m canonical_ahead [of "receipt_key t"] by auto
qed

text \<open>
  C26.  A vector token none of whose writers is ahead of the default position is printed
  as a text that the parser rejects.  Such tokens arise from \<^verbatim>\<open>copy_and_advance\<close>.
\<close>

theorem stale_vector_token_rejected:
  assumes "tk_topological t = None" and "tk_instance_map t \<noteq> []" and "ahead t = []"
    and "room_to_string t tbl = (s, tbl')"
  shows "room_parse u s = Inl (SynapseError 400 ''Invalid room stream token %r'' UNKNOWN)"
proof -
  have "encode_entries (tk_stream t) m tbl = ([], tbl)" if "filter (\<lambda>(_, pos). tk_stream t < pos) m = []" for m
    using that by (induction m) (auto split: if_splits)
  then have "encode_entries (tk_stream t) (tk_instance_map t) tbl = ([], tbl)"
    using assms(3) by (simp add: ahead_def)
  then have s: "s = CHR ''m'' # show_int (tk_stream t) @ [CHR ''~'']"
    using assms by (simp add: room_to_string_def encode_vector_def)
  have "split_all (CHR ''~'') (show_int (tk_stream t) @ [CHR ''~'']) = [show_int (tk_stream t), []]"
    by (simp add: split_all_sep split_all_no_sep)
  moreover have "parse_entry u [] [] = Inl PyValueError" by (simp add: parse_entry_def split_all_no_sep)
  ultimately show ?thesis by (simp add: s room_parse_def parse_vector_def or_raise_def)
qed

section \<open>Ranges\<close>

lemma stream_pos_advance [simp]:
  "stream_pos (mw_copy_and_advance t u) name = max (stream_pos t name) (stream_pos u name)"
proof -
  have "map_of (map (\<lambda>name. (name, f name)) ns) name = (if name \<in> set ns then Some (f name) else None)"
    for f :: "string \<Rightarrow> int" and ns by (induction ns) auto
  moreover have "name \<in> fst ` set m \<longleftrightarrow> map_of m name \<noteq> None" for m :: "(string \<times> int) list"
    by (metis map_of_eq_None_iff)
  ultimately show ?thesis by (auto simp: mw_copy_and_advance_def stream_pos_def split: option.splits)
qed

lemma tk_stream_advance [simp]: "tk_stream (mw_copy_and_advance t u) = max (tk_stream t) (tk_stream u)"
  by (simp add: mw_copy_and_advance_def)

lemma bound_for_advance [simp]:
  "bound_for (mw_copy_and_advance t u) name = max (bound_for t name) (bound_for u name)"
  by (cases name) (simp_all add: bound_for_def)

text \<open>
  C24.  Advancing a token by another gives the least upper bound: a row is after the new
  token exactly if it is after both.  When a stream is read from \<open>a\<close> to \<open>b\<close> and then from
  \<open>b\<close> to \<open>c\<close>, each token an advance of the one before, every row between \<open>a\<close> and \<open>c\<close> is read
  in exactly one of the two steps, whichever writer wrote it and in whatever order the
  writers move.
\<close>

theorem token_ranges_partition:
  fixes a x y :: "'a mw_token_scheme"
  defines "b \<equiv> mw_copy_and_advance a x"
  defines "c \<equiv> mw_copy_and_advance b y"
  shows "(persisted_after n p b \<longleftrightarrow> persisted_after n p a \<and> persisted_after n p x) \<and>
    (is_stream_position_in_range (Some a) (Some c) name pos \<longleftrightarrow>
      is_stream_position_in_range (Some a) (Some b) name pos \<noteq>
      is_stream_position_in_range (Some b) (Some c) name pos)"
  by (auto simp: b_def c_def persisted_after_def is_stream_position_in_range_def)

text \<open>The order of values of a field.\<close>

fun value_le :: "token_value \<Rightarrow> token_value \<Rightarrow> bool" where
  "value_le (IntValue i) (IntValue j) = (i \<le> j)"
| "value_le (RoomValue t) (RoomValue u) = (tk_stream t \<le> tk_stream u \<and> (\<forall>n. stream_pos t n \<le> stream_pos u n))"
| "value_le (ReceiptValue t) (ReceiptValue u) = (tk_stream t \<le> tk_stream u \<and> (\<forall>n. stream_pos t n \<le> stream_pos u n))"
| "value_le _ _ = False"

text \<open>
  Advancing one key of a \<^verbatim>\<open>/sync\<close> token leaves the other keys as they were
  and never moves that key backwards, nor behind the value it is advanced to.
\<close>

lemma sync_token_advances:
  assumes "copy_and_advance t key v = Inr t'"
    and "case v of RoomValue _ \<Rightarrow> key = ROOM | ReceiptValue _ \<Rightarrow> key = RECEIPT | IntValue _ \<Rightarrow> key \<noteq> ROOM \<and> key \<noteq> RECEIPT"
  shows "(\<forall>k. k \<noteq> key \<longrightarrow> get_field t' k = get_field t k) \<and> groups_key t' = groups_key t \<and>
    value_le (get_field t key) (get_field t' key) \<and> value_le v (get_field t' key)"
proof (cases v)
  case (RoomValue r)
  with assms have "key = ROOM" "t' = t\<lparr>room_key := mw_copy_and_advance (room_key t) r\<rparr>"
    by (simp_all add: copy_and_advance_def copy_and_replace_def room_copy_and_advance_def split: if_splits)
  then show ?thesis by (simp add: RoomValue get_field_def split: stream_key_type.split)
next
  case (ReceiptValue r)
  with assms have "key = RECEIPT" "t' = t\<lparr>receipt_key := mw_copy_and_advance (receipt_key t) r\<rparr>"
    by (simp_all add: copy_and_advance_def copy_and_replace_def)
  then show ?thesis by (simp add: ReceiptValue get_field_def split: stream_key_type.split)
next
  case (IntValue i)
  show ?thesis
    using assms(1) [symmetric] assms(2)
    by (cases key)
      (simp_all add: IntValue copy_and_advance_def copy_and_replace_def get_field_def split: stream_key_type.split if_splits)
qed

section \<open>Well-formed tokens\<close>

text \<open>
  What the constructors promise: an instance has one position, and a token has not both a
  topological part and an instance map.
\<close>

definition room_token_ok :: "room_token \<Rightarrow> bool" where
  "room_token_ok t \<longleftrightarrow> distinct (map fst (tk_instance_map t)) \<and> (tk_instance_map t \<noteq> [] \<longrightarrow> \<not> truthy (tk_topological t))"

definition mw_token_ok :: "mw_token \<Rightarrow> bool" where
  "mw_token_ok t \<longleftrightarrow> distinct (map fst (tk_instance_map t))"

definition token_ok :: "stream_token \<Rightarrow> bool" where
  "token_ok t \<longleftrightarrow> room_token_ok (room_key t) \<and> mw_token_ok (receipt_key t)"

fun value_ok :: "token_value \<Rightarrow> bool" where
  "value_ok (RoomValue r) = room_token_ok r"
| "value_ok (ReceiptValue r) = mw_token_ok r"
| "value_ok (IntValue i) = True"

lemma parse_vector_distinct:
  assumes "parse_vector tbl s = Inr (stream, m)"
  shows "distinct (map fst m)"
proof -
  obtain parts where "rfold (parse_entry tbl) parts [] = Inr m"
    using assms by (auto simp: parse_vector_def Let_def rbind_Inr_iff)
  then show ?thesis
    by (rule rfold_invariant [where P = "\<lambda>m. distinct (map fst m)"])
      (auto simp: parse_entry_def rbind_Inr_iff distinct_update split: list.splits)
qed

lemma or_raise_Inr: "or_raise r msg = Inr a \<longleftrightarrow> r = Inr a"
  by (cases r) (simp_all add: or_raise_def)

lemma room_parse_ok: "room_parse tbl s = Inr t \<Longrightarrow> room_token_ok t"
  by (auto simp: room_parse_def or_raise_Inr rbind_Inr_iff RoomStreamToken_def room_token_ok_def
      split: list.splits if_splits option.splits dest: parse_vector_distinct)

lemma mw_parse_ok: "mw_parse tbl s = Inr t \<Longrightarrow> mw_token_ok t"
  by (auto simp: mw_parse_def or_raise_Inr rbind_Inr_iff mw_token_ok_def
      split: list.splits if_splits dest: parse_vector_distinct)

lemma distinct_advance: "distinct (map fst (tk_instance_map (mw_copy_and_advance t u)))"
  by (simp add: mw_copy_and_advance_def comp_def)

lemma stream_from_string_ok: "stream_from_string tbl s = Inr t \<Longrightarrow> token_ok t"
  by (auto simp: stream_from_string_def or_raise_Inr Let_def rbind_Inr_iff token_ok_def
      split: list.splits dest: room_parse_ok mw_parse_ok)

lemma copy_and_replace_ok: "token_ok t \<Longrightarrow> value_ok v \<Longrightarrow> copy_and_replace t key v = Inr t' \<Longrightarrow> token_ok t'"
  by (cases key; cases v) (auto simp: copy_and_replace_def token_ok_def)

lemma room_copy_and_advance_ok: "room_copy_and_advance t u = Inr r \<Longrightarrow> room_token_ok r"
  by (auto simp: room_copy_and_advance_def room_token_ok_def distinct_advance split: if_splits)
    (simp add: mw_copy_and_advance_def)

text \<open>
  C25.  Parsing any text gives a well-formed token or the error that the client is sent, a
  400; no other exception leaves the parser.  Advancing or replacing a key of a well-formed
  token by a well-formed value gives a well-formed token.
\<close>

theorem tokens_well_formed:
  "(case stream_from_string tbl s of Inr t \<Rightarrow> token_ok t | Inl e \<Rightarrow> e = SynapseError 400 ''Invalid stream token'' UNKNOWN) \<and>
   (token_ok t \<and> value_ok v \<longrightarrow>
     (\<forall>t'. copy_and_advance t key v = Inr t' \<or> copy_and_replace t key v = Inr t' \<longrightarrow> token_ok t'))"
proof (intro conjI impI allI)
  show "case stream_from_string tbl s of Inr t \<Rightarrow> token_ok t | Inl e \<Rightarrow> e = SynapseError 400 ''Invalid stream token'' UNKNOWN"
    using stream_from_string_ok [of tbl s] by (auto simp: stream_from_string_def or_raise_def split: sum.splits)
next
  fix t'
  assume ok: "token_ok t \<and> value_ok v" and "copy_and_advance t key v = Inr t' \<or> copy_and_replace t key v = Inr t'"
  then consider "copy_and_advance t key v = Inr t'" | "copy_and_replace t key v = Inr t'" by blast
  then show "token_ok t'"
  proof cases
    case 2
    then show ?thesis using copy_and_replace_ok ok by blast
  next
    case 1
    show ?thesis
    proof (cases "key = ROOM \<or> key = RECEIPT")
      case True
      then show ?thesis
        using 1 ok room_copy_and_advance_ok
        by (cases v) (auto simp: copy_and_advance_def copy_and_replace_def rbind_Inr_iff token_ok_def mw_token_ok_def
            distinct_advance split: if_splits)
    next
      case False
      then have "copy_and_replace t key v = Inr t' \<or> t' = t"
        using 1 by (cases key) (auto simp: copy_and_advance_def get_field_def rbind_Inr_iff split: if_splits)
      then show ?thesis using copy_and_replace_ok ok by blast
    qed
  qed
qed

section \<open>A sample\<close>

definition sample_table :: instance_table where
  "sample_table = \<lparr>it_rows = [(''main'', 1)], it_seq = 1\<rparr>"

definition sample_room_token :: room_token where
  "sample_room_token = \<lparr>tk_stream = 56, tk_instance_map = [(''w1'', 58), (''main'', 50)], tk_topological = None\<rparr>"

definition sample_token :: stream_token where
  "sample_token = stream_token_START\<lparr>room_key := sample_room_token, to_device_key := 7\<rparr>"

lemma sample_table_ok: "table_ok sample_table"
  by (simp add: sample_table_def table_ok_def)

lemma sample_printable: "printable sample_token"
  by (simp add: sample_token_def stream_token_START_def printable_def room_printable_def vector_printable_def
      sample_room_token_def ahead_def)

theorem stream_token_roundtrip_witness:
  "stream_from_string (snd (stream_to_string sample_token sample_table)) (fst (stream_to_string sample_token sample_table)) =
     Inr (sample_token\<lparr>room_key := sample_room_token\<lparr>tk_instance_map := [(''w1'', 58)]\<rparr>\<rparr>)"
proof -
  have "room_canonical (room_key sample_token) = sample_room_token\<lparr>tk_instance_map := [(''w1'', 58)]\<rparr>"
    "canonical (receipt_key sample_token) = receipt_key sample_token"
    by (simp_all add: sample_token_def stream_token_START_def room_canonical_def canonical_def ahead_def
        sample_room_token_def)
  then show ?thesis
    using stream_token_roundtrip [OF sample_table_ok sample_printable prod.collapse [symmetric]] by simp
qed

text \<open>The token in the witness is \<^verbatim>\<open>m5~w1.7\<close> advanced to \<^verbatim>\<open>s9\<close>.\<close>

theorem stale_vector_token_rejected_witness:
  "\<exists>t. room_copy_and_advance \<lparr>tk_stream = 5, tk_instance_map = [(''w1'', 7)], tk_topological = None\<rparr>
       \<lparr>tk_stream = 9, tk_instance_map = [], tk_topological = None\<rparr> = Inr t \<and>
     room_parse sample_table (fst (room_to_string t sample_table)) =
       Inl (SynapseError 400 ''Invalid room stream token %r'' UNKNOWN)"
proof -
  let ?t = "\<lparr>tk_stream = 9, tk_instance_map = [(''w1'', 9)], tk_topological = None\<rparr> :: room_token"
  have "room_copy_and_advance \<lparr>tk_stream = 5, tk_instance_map = [(''w1'', 7)], tk_topological = None\<rparr>
      \<lparr>tk_stream = 9, tk_instance_map = [], tk_topological = None\<rparr> = Inr ?t"
    by (simp add: room_copy_and_advance_def truthy_def mw_copy_and_advance_def stream_pos_def)
  moreover have "room_parse sample_table (fst (room_to_string ?t sample_table)) =
      Inl (SynapseError 400 ''Invalid room stream token %r'' UNKNOWN)"
    by (rule stale_vector_token_rejected [of ?t sample_table _ "snd (room_to_string ?t sample_table)"]) (simp_all add: ahead_def)
  ultimately show ?thesis by blast
qed

theorem tokens_well_formed_witness:
  "token_ok sample_token \<and> (\<exists>t'. copy_and_replace sample_token TO_DEVICE (IntValue 9) = Inr t' \<and> token_ok t')"
proof -
  have ok: "token_ok sample_token"
    by (simp add: token_ok_def sample_token_def stream_token_START_def sample_room_token_def room_token_ok_def
        mw_token_ok_def truthy_def)
  moreover have r: "copy_and_replace sample_token TO_DEVICE (IntValue 9) = Inr (sample_token\<lparr>to_device_key := 9\<rparr>)"
    by (simp add: copy_and_replace_def)
  ultimately show ?thesis
    using tokens_well_formed [of sample_table "[]" sample_token "IntValue 9" TO_DEVICE] by (metis value_ok.simps(3))
qed

end
