(* ===== verification/Filtering.thy ===== *)
theory Filtering
  imports Events
begin

text \<open>
  \<^verbatim>\<open>synapse/api/filtering.py\<close>: the filters a client gives to
  \<^verbatim>\<open>/sync\<close> and \<^verbatim>\<open>/messages\<close>, applied in Python.  The fields have
  the types that the JSON schema of the file requires of a filter.  What is filtered is an
  event, a presence state or a JSON object of unchecked shape (ephemeral events, account
  data).
\<close>

record event_filter =
  f_limit :: int
  f_lazy_load_members :: bool
  f_include_redundant_members :: bool
  f_types :: "string list option"
  f_not_types :: "string list"
  f_rooms :: "string list option"
  f_not_rooms :: "string list"
  f_senders :: "string list option"
  f_not_senders :: "string list"
  f_contains_url :: "bool option"
  f_labels :: "string list option"
  f_not_labels :: "string list"
  f_related_by_senders :: "string list option"
  f_related_by_rel_types :: "string list option"
  f_rel_types :: "string list option"
  f_not_rel_types :: "string list"

definition filters_all_types :: "event_filter \<Rightarrow> bool" where
  "filters_all_types f \<longleftrightarrow> f_types f = Some [] \<or> ''*'' \<in> set (f_not_types f)"

definition filters_all_senders :: "event_filter \<Rightarrow> bool" where
  "filters_all_senders f \<longleftrightarrow> f_senders f = Some [] \<or> ''*'' \<in> set (f_not_senders f)"

definition filters_all_rooms :: "event_filter \<Rightarrow> bool" where
  "filters_all_rooms f \<longleftrightarrow> f_rooms f = Some [] \<or> ''*'' \<in> set (f_not_rooms f)"

definition matches_wildcard :: "json \<Rightarrow> string \<Rightarrow> bool" where
  "matches_wildcard actual fv =
     (case actual of
        JStr a \<Rightarrow> if suffix ''*'' fv then prefix (butlast fv) a else a = fv
      | _ \<Rightarrow> False)"

text \<open>\<^verbatim>\<open>any(map(match_func, values))\<close>.\<close>

fun any_match :: "(string \<Rightarrow> bool result) \<Rightarrow> string list \<Rightarrow> bool result" where
  "any_match m [] = Inr False"
| "any_match m (v # vs) = rbind (m v) (\<lambda>b. if b then Inr True else any_match m vs)"

text \<open>The matchers of a field, with the allowed and the disallowed values of the filter.\<close>

type_synonym field_matcher = "(string \<Rightarrow> bool result) \<times> string list option \<times> string list"

fun check_fields :: "field_matcher list \<Rightarrow> bool result" where
  "check_fields [] = Inr True"
| "check_fields ((m, allowed, disallowed) # rest) =
     rbind (any_match m disallowed) (\<lambda>bad.
       if bad then Inr False
       else case allowed of
              None \<Rightarrow> check_fields rest
            | Some vs \<Rightarrow> rbind (any_match m vs) (\<lambda>good. if good then check_fields rest else Inr False))"

text \<open>\<^verbatim>\<open>not sender\<close>.\<close>

fun json_falsy :: "json \<Rightarrow> bool" where
  "json_falsy JNull = True"
| "json_falsy (JBool b) = (\<not> b)"
| "json_falsy (JInt i) = (i = 0)"
| "json_falsy (JFloat m e) = (m = 0)"
| "json_falsy (JStr s) = (s = [])"
| "json_falsy (JList xs) = (xs = [])"
| "json_falsy (JObj d) = (d = [])"

text \<open>\<^verbatim>\<open>_check\<close> of an object, with the type of its relation if it is an event.\<close>

definition check_json :: "event_filter \<Rightarrow> string option \<Rightarrow> json_obj \<Rightarrow> bool result" where
  "check_json f rel ev =
     (let content = (case jget ev ''content'' JNull of JObj c \<Rightarrow> c | _ \<Rightarrow> []);
          sender0 = jget ev ''sender'' JNull;
          sender = (if json_falsy sender0 then jget content ''user_id'' JNull else sender0);
          room_id = jget ev ''room_id'' JNull;
          etype = jget ev ''type'' JNull;
          labels = jget content ''org.matrix.labels'' (JList [])
      in rbind (check_fields
            [(\<lambda>v. Inr (room_id = JStr v), f_rooms f, f_not_rooms f),
             (\<lambda>v. Inr (sender = JStr v), f_senders f, f_not_senders f),
             (\<lambda>v. Inr (matches_wildcard etype v), f_types f, f_not_types f),
             (\<lambda>v. py_contains (JStr v) labels, f_labels f, f_not_labels f),
             (\<lambda>v. Inr (rel = Some v), f_rel_types f, f_not_rel_types f)]) (\<lambda>ok.
         if \<not> ok then Inr False
         else case f_contains_url f of
                None \<Rightarrow> Inr True
              | Some want \<Rightarrow>
                  Inr (want = (case jget content ''url'' JNull of JStr _ \<Rightarrow> True | _ \<Rightarrow> False))))"

text \<open>The entries of an event that the filter reads.\<close>

definition event_dict :: "event \<Rightarrow> json_obj" where
  "event_dict e = [(''content'', JObj (ev_content e)), (''sender'', JStr (ev_sender e)),
     (''room_id'', JStr (ev_room_id e)), (''type'', JStr (ev_type e))]"

definition check_event :: "event_filter \<Rightarrow> event \<Rightarrow> bool result" where
  "check_event f e = check_json f (map_option rel_type (relation_from_event e)) (event_dict e)"

definition check_presence :: "event_filter \<Rightarrow> string \<Rightarrow> bool result" where
  "check_presence f user_id =
     check_fields
       [(\<lambda>v. Inr (user_id = v), f_senders f, f_not_senders f),
        (\<lambda>v. Inr (''m.presence'' = v), f_types f, f_not_types f)]"

definition filter_rooms :: "event_filter \<Rightarrow> string list \<Rightarrow> string list" where
  "filter_rooms f room_ids =
     (let ids = filter (\<lambda>r. r \<notin> set (f_not_rooms f)) (remdups room_ids)
      in case f_rooms f of None \<Rightarrow> ids | Some allowed \<Rightarrow> filter (\<lambda>r. r \<in> set allowed) ids)"

text \<open>
  \<^verbatim>\<open>events_have_relations\<close> of the store: the rows of
  \<^verbatim>\<open>event_relations\<close> joined with the events they belong to, each a parent, the
  sender and the type of the relation.
\<close>

definition events_have_relations ::
  "(string \<times> string \<times> string) list \<Rightarrow> string list \<Rightarrow> string list option \<Rightarrow> string list option \<Rightarrow> string list" where
  "events_have_relations rows parent_ids senders rtypes =
     (let given = (\<lambda>x. x \<noteq> None \<and> x \<noteq> Some [])
      in if \<not> given senders \<and> \<not> given rtypes then parent_ids
         else map fst (filter (\<lambda>(parent, sender, rtype).
           parent \<in> set parent_ids \<and>
           (given senders \<longrightarrow> sender \<in> set (the senders)) \<and>
           (given rtypes \<longrightarrow> rtype \<in> set (the rtypes))) rows))"

text \<open>\<^verbatim>\<open>Filter.filter\<close> on events.\<close>

fun rfilter :: "('a \<Rightarrow> bool result) \<Rightarrow> 'a list \<Rightarrow> 'a list result" where
  "rfilter p [] = Inr []"
| "rfilter p (x # xs) = rbind (p x) (\<lambda>b. rbind (rfilter p xs) (\<lambda>ys. Inr (if b then x # ys else ys)))"

definition filter_events ::
  "(string \<times> string \<times> string) list \<Rightarrow> event_filter \<Rightarrow> event list \<Rightarrow> event list result" where
  "filter_events rows f events =
     rbind (rfilter (check_event f) events) (\<lambda>result.
       Inr (if (f_related_by_senders f \<noteq> None \<and> f_related_by_senders f \<noteq> Some [])
             \<or> (f_related_by_rel_types f \<noteq> None \<and> f_related_by_rel_types f \<noteq> Some [])
            then
              let keep = events_have_relations rows (map ev_event_id result)
                    (f_related_by_senders f) (f_related_by_rel_types f)
              in filter (\<lambda>e. ev_event_id e \<in> set keep) result
            else result))"

section \<open>What a filter accepts\<close>

lemma any_match_Inr: "any_match (\<lambda>v. Inr (P v)) vs = Inr (\<exists>v \<in> set vs. P v)"
  by (induction vs) auto

lemma any_match_False: "any_match m vs = Inr False \<longleftrightarrow> (\<forall>v \<in> set vs. m v = Inr False)"
  by (induction vs) (auto simp: rbind_Inr_iff)

lemma any_match_True: "any_match m vs = Inr True \<Longrightarrow> \<exists>v \<in> set vs. m v = Inr True"
  by (induction vs) (auto simp: rbind_Inr_iff split: if_splits)

lemma check_fields_True:
  "check_fields fs = Inr True \<longleftrightarrow>
     (\<forall>(m, allowed, disallowed) \<in> set fs. any_match m disallowed = Inr False \<and>
        (case allowed of None \<Rightarrow> True | Some vs \<Rightarrow> any_match m vs = Inr True))"
  by (induction fs rule: check_fields.induct) (auto simp: rbind_Inr_iff split: option.splits if_splits)

end
