(* ===== verification/Pagination.thy ===== *)
theory Pagination
  imports Stream_Tokens Filtering Id_Generators
begin

text \<open>
  Reading ranges of events (\<^verbatim>\<open>synapse/storage/databases/main/stream.py\<close>).  The
  SQL that the functions build is kept as an expression tree with the semantics of the two
  database engines: a comparison with \<^verbatim>\<open>NULL\<close> is not true, a left join keeps
  rows without a partner, \<^verbatim>\<open>ORDER BY\<close> and \<^verbatim>\<open>LIMIT\<close> apply last.  The
  values bound to the placeholders stand in the tree.  Limits are natural numbers.
\<close>

section \<open>The tables\<close>

text \<open>
  A row of \<^verbatim>\<open>events\<close>: the event, the writer that persisted it and its place in
  the stream.  With it are the labels of \<^verbatim>\<open>event_labels\<close>, the type of its own
  row of \<^verbatim>\<open>event_relations\<close> and, for the events that relate to it, their sender
  (if they are in \<^verbatim>\<open>events\<close>) and relation type.
\<close>

record event_row =
  er_event :: event
  er_instance_name :: "string option"
  er_stream :: int
  er_outlier :: bool
  er_labels :: "string list"
  er_relation :: "string option"
  er_related :: "(string option \<times> string) list"

definition contains_url_column :: "event \<Rightarrow> bool" where
  "contains_url_column e = (case jget (ev_content e) ''url'' JNull of JStr _ \<Rightarrow> True | _ \<Rightarrow> False)"

definition row_order :: "event_row \<Rightarrow> int \<times> int" where
  "row_order r = (ev_depth (er_event r), er_stream r)"

text \<open>A row of the joined tables.\<close>

record joined_row =
  jr_row :: event_row
  jr_label :: "string option"
  jr_relation :: "(string option \<times> string) option"

section \<open>SQL expressions\<close>

datatype sql_bound = SqlLT | SqlLE | SqlGT | SqlGE

datatype sql_column = C_topological_ordering | C_stream_ordering

datatype sql_text_column = C_type | C_sender | C_room_id | C_label | C_related_sender
  | C_related_type | C_relation_type

datatype sql_expr =
    SqlCmp int sql_bound sql_column
  | SqlEqInt int sql_column
  | SqlTupleCmp int int sql_bound
  | SqlEqText sql_text_column string
  | SqlNeText sql_text_column string
  | SqlIsNull sql_text_column
  | SqlContainsUrl bool
  | SqlOr "sql_expr list"
  | SqlAnd "sql_expr list"

fun holds :: "sql_bound \<Rightarrow> 'a::linorder \<Rightarrow> 'a \<Rightarrow> bool" where
  "holds SqlLT x y = (x < y)"
| "holds SqlLE x y = (x \<le> y)"
| "holds SqlGT x y = (y < x)"
| "holds SqlGE x y = (y \<le> x)"

fun int_column :: "event_row \<Rightarrow> sql_column \<Rightarrow> int" where
  "int_column r C_topological_ordering = ev_depth (er_event r)"
| "int_column r C_stream_ordering = er_stream r"

fun text_column :: "joined_row \<Rightarrow> sql_text_column \<Rightarrow> string option" where
  "text_column j C_type = Some (ev_type (er_event (jr_row j)))"
| "text_column j C_sender = Some (ev_sender (er_event (jr_row j)))"
| "text_column j C_room_id = Some (ev_room_id (er_event (jr_row j)))"
| "text_column j C_label = jr_label j"
| "text_column j C_related_sender = Option.bind (jr_relation j) fst"
| "text_column j C_related_type = map_option snd (jr_relation j)"
| "text_column j C_relation_type = er_relation (jr_row j)"

fun sql_true :: "joined_row \<Rightarrow> sql_expr \<Rightarrow> bool" where
  "sql_true j (SqlCmp v b c) = holds b v (int_column (jr_row j) c)"
| "sql_true j (SqlEqInt v c) = (v = int_column (jr_row j) c)"
| "sql_true j (SqlTupleCmp v w b) = holds b (v, w) (row_order (jr_row j))"
| "sql_true j (SqlEqText c v) = (text_column j c = Some v)"
| "sql_true j (SqlNeText c v) = (text_column j c \<noteq> None \<and> text_column j c \<noteq> Some v)"
| "sql_true j (SqlIsNull c) = (text_column j c = None)"
| "sql_true j (SqlContainsUrl b) = (contains_url_column (er_event (jr_row j)) = b)"
| "sql_true j (SqlOr es) = list_ex (sql_true j) es"
| "sql_true j (SqlAnd es) = list_all (sql_true j) es"

section \<open>Bounds\<close>

datatype database_engine = PostgresEngine | Sqlite3Engine

datatype direction = FORWARDS | BACKWARDS

text \<open>\<^verbatim>\<open>bound[0]\<close>: the comparison without equality.\<close>

fun strict_bound :: "sql_bound \<Rightarrow> sql_bound" where
  "strict_bound SqlLT = SqlLT"
| "strict_bound SqlLE = SqlLT"
| "strict_bound SqlGT = SqlGT"
| "strict_bound SqlGE = SqlGT"

definition make_generic_sql_bound :: "sql_bound \<Rightarrow> int option \<times> int \<Rightarrow> database_engine \<Rightarrow> sql_expr" where
  "make_generic_sql_bound bound vals engine =
     (case vals of
        (None, val2) \<Rightarrow> SqlCmp val2 bound C_stream_ordering
      | (Some val1, val2) \<Rightarrow>
          if engine = PostgresEngine then SqlTupleCmp val1 val2 bound
          else SqlOr [SqlCmp val1 (strict_bound bound) C_topological_ordering,
                 SqlAnd [SqlEqInt val1 C_topological_ordering, SqlCmp val2 bound C_stream_ordering]])"

definition generate_pagination_where_clause ::
  "direction \<Rightarrow> (int option \<times> int) option \<Rightarrow> (int option \<times> int) option \<Rightarrow> database_engine \<Rightarrow> sql_expr" where
  "generate_pagination_where_clause dir from_token to_token engine =
     SqlAnd
       ((case from_token of None \<Rightarrow> [] | Some v \<Rightarrow>
           [make_generic_sql_bound (if dir = BACKWARDS then SqlGE else SqlLT) v engine]) @
        (case to_token of None \<Rightarrow> [] | Some v \<Rightarrow>
           [make_generic_sql_bound (if dir = BACKWARDS then SqlLT else SqlGE) v engine]))"

text \<open>One token as a bound: its most recent position where \<open>widest\<close>, its default one otherwise.\<close>

definition token_bound :: "bool \<Rightarrow> room_token \<Rightarrow> int option \<times> int" where
  "token_bound widest t =
     (case tk_topological t of
        Some topo \<Rightarrow> (Some topo, tk_stream t)
      | None \<Rightarrow> (None, if widest then get_max_stream_pos t else tk_stream t))"

definition generate_pagination_bounds ::
  "direction \<Rightarrow> room_token option \<Rightarrow> room_token option
     \<Rightarrow> direction \<times> (int option \<times> int) option \<times> (int option \<times> int) option" where
  "generate_pagination_bounds dir from_token to_token =
     (dir, map_option (token_bound (dir = BACKWARDS)) from_token,
           map_option (token_bound (dir = FORWARDS)) to_token)"

definition generate_next_token :: "direction \<Rightarrow> int \<Rightarrow> int \<Rightarrow> room_token" where
  "generate_next_token dir last_topo_ordering last_stream_ordering =
     \<lparr>tk_stream = (if dir = BACKWARDS then last_stream_ordering - 1 else last_stream_ordering),
      tk_instance_map = [], tk_topological = Some last_topo_ordering\<rparr>"

text \<open>The position of a writer at a live token; a missing name reads the default.\<close>

definition instance_pos :: "room_token \<Rightarrow> string option \<Rightarrow> int" where
  "instance_pos t name = (case name of None \<Rightarrow> tk_stream t | Some n \<Rightarrow> stream_pos t n)"

definition filter_results ::
  "room_token option \<Rightarrow> room_token option \<Rightarrow> string option \<Rightarrow> int \<Rightarrow> int \<Rightarrow> bool" where
  "filter_results lower_token upper_token name topological_ordering stream_ordering =
     (if (case lower_token of
            None \<Rightarrow> False
          | Some t \<Rightarrow>
              (case tk_topological t of
                 Some topo \<Rightarrow> (topological_ordering, stream_ordering) \<le> (topo, tk_stream t)
               | None \<Rightarrow> stream_ordering \<le> instance_pos t name))
      then False
      else if (case upper_token of
            None \<Rightarrow> False
          | Some t \<Rightarrow>
              (case tk_topological t of
                 Some topo \<Rightarrow> (topo, tk_stream t) < (topological_ordering, stream_ordering)
               | None \<Rightarrow> instance_pos t name < stream_ordering))
      then False
      else True)"

section \<open>The filter as SQL\<close>

definition given :: "string list option \<Rightarrow> bool" where
  "given x \<longleftrightarrow> x \<noteq> None \<and> x \<noteq> Some []"

definition eq_any :: "sql_text_column \<Rightarrow> string list option \<Rightarrow> sql_expr list" where
  "eq_any c vs = (if given vs then [SqlOr (map (SqlEqText c) (the vs))] else [])"

definition filter_to_clause :: "event_filter option \<Rightarrow> sql_expr list" where
  "filter_to_clause flt =
     (case flt of
        None \<Rightarrow> []
      | Some f \<Rightarrow>
          eq_any C_type (f_types f) @ map (SqlNeText C_type) (f_not_types f) @
          eq_any C_sender (f_senders f) @ map (SqlNeText C_sender) (f_not_senders f) @
          eq_any C_room_id (f_rooms f) @ map (SqlNeText C_room_id) (f_not_rooms f) @
          (if f_contains_url f = Some True then [SqlContainsUrl True] else []) @
          eq_any C_label (f_labels f) @
          eq_any C_related_sender (f_related_by_senders f) @
          eq_any C_related_type (f_related_by_rel_types f) @
          eq_any C_relation_type (f_rel_types f) @
          (if f_not_rel_types f \<noteq> []
           then [SqlOr [SqlAnd (map (SqlNeText C_relation_type) (f_not_rel_types f)), SqlIsNull C_relation_type]]
           else []))"

section \<open>Paginating\<close>

text \<open>A left join: the partners of a row, or none.\<close>

definition partners :: "bool \<Rightarrow> 'a list \<Rightarrow> 'a option list" where
  "partners joined xs = (if joined \<and> xs \<noteq> [] then map Some xs else [None])"

definition joins_labels :: "event_filter option \<Rightarrow> bool" where
  "joins_labels flt = (case flt of None \<Rightarrow> False | Some f \<Rightarrow> given (f_labels f))"

definition joins_relations :: "event_filter option \<Rightarrow> bool" where
  "joins_relations flt = (case flt of None \<Rightarrow> False | Some f \<Rightarrow>
     given (f_related_by_senders f) \<or> given (f_related_by_rel_types f))"

definition needs_distinct :: "event_filter option \<Rightarrow> bool" where
  "needs_distinct flt = (case flt of None \<Rightarrow> False | Some f \<Rightarrow>
     (given (f_labels f) \<and> 1 < length (the (f_labels f))) \<or> joins_relations flt)"

definition joined_rows :: "event_filter option \<Rightarrow> event_row \<Rightarrow> joined_row list" where
  "joined_rows flt r =
     [\<lparr>jr_row = r, jr_label = l, jr_relation = rel\<rparr>.
        l \<leftarrow> partners (joins_labels flt) (er_labels r),
        rel \<leftarrow> partners (joins_relations flt) (er_related r)]"

text \<open>
  The query.  A filter on the relations of an event and on the relations to it at once
  joins \<^verbatim>\<open>event_relations\<close> twice.  PostgreSQL then rejects
  \<^verbatim>\<open>USING (event_id)\<close>, since the tables on the left have that column more than once;
  SQLite takes the column of the first table, and rejects the query if it has the
  unqualified \<^verbatim>\<open>relation_type\<close>.
\<close>

definition ambiguous_columns :: "database_engine \<Rightarrow> event_filter option \<Rightarrow> bool" where
  "ambiguous_columns engine flt = (case flt of None \<Rightarrow> False | Some f \<Rightarrow>
     joins_relations flt \<and> (given (f_rel_types f) \<or> f_not_rel_types f \<noteq> []) \<and>
     (engine = PostgresEngine \<or> given (f_related_by_rel_types f)))"

definition in_order :: "direction \<Rightarrow> event_row list \<Rightarrow> event_row list" where
  "in_order dir rows = (let asc = sort_key row_order rows in if dir = BACKWARDS then rev asc else asc)"

definition select_page ::
  "event_row list \<Rightarrow> string \<Rightarrow> direction \<Rightarrow> sql_expr list \<Rightarrow> event_filter option \<Rightarrow> nat \<Rightarrow> event_row list" where
  "select_page events room_id order conditions flt limit =
     (let matched = map jr_row
            (filter (\<lambda>j. \<not> er_outlier (jr_row j) \<and> ev_room_id (er_event (jr_row j)) = room_id
                \<and> list_all (sql_true j) conditions)
              (concat (map (joined_rows flt) events)))
      in take limit (in_order order (if needs_distinct flt then remdups matched else matched)))"

definition paginate_room_events_txn ::
  "database_engine \<Rightarrow> event_row list \<Rightarrow> string \<Rightarrow> room_token \<Rightarrow> room_token option \<Rightarrow> direction \<Rightarrow> nat
     \<Rightarrow> event_filter option \<Rightarrow> (event_row list \<times> room_token) result" where
  "paginate_room_events_txn engine events room_id from_token to_token dir limit flt =
     (case generate_pagination_bounds dir (Some from_token) to_token of (order, from_bound, to_bound) \<Rightarrow>
        let bounds = generate_pagination_where_clause dir from_bound to_bound engine;
            fetched = select_page events room_id order (bounds # filter_to_clause flt) flt (limit * 2);
            rows = take limit
              (filter (\<lambda>r. filter_results
                 (if dir = BACKWARDS then to_token else Some from_token)
                 (if dir = BACKWARDS then Some from_token else to_token)
                 (er_instance_name r) (ev_depth (er_event r)) (er_stream r)) fetched)
        in if ambiguous_columns engine flt then Inl (PyException ''column reference is ambiguous'')
           else Inr (rows,
             if rows \<noteq> []
             then generate_next_token dir (ev_depth (er_event (last rows))) (er_stream (last rows))
             else (case to_token of Some t \<Rightarrow> t | None \<Rightarrow> from_token)))"

text \<open>\<^verbatim>\<open>_get_events_around_txn\<close>: a page before and a page after an event.\<close>

definition get_events_around_txn ::
  "database_engine \<Rightarrow> event_row list \<Rightarrow> string \<Rightarrow> string \<Rightarrow> nat \<Rightarrow> nat \<Rightarrow> event_filter option
     \<Rightarrow> ((event_row list \<times> room_token) \<times> (event_row list \<times> room_token)) result" where
  "get_events_around_txn engine events room_id event_id before_limit after_limit flt =
     (case filter (\<lambda>r. ev_event_id (er_event r) = event_id \<and> ev_room_id (er_event r) = room_id) events of
        [] \<Rightarrow> Inl (SynapseError 404 ''No row found (%s)'' UNKNOWN)
      | r # _ \<Rightarrow>
          let topo = ev_depth (er_event r);
              before_token = \<lparr>tk_stream = er_stream r, tk_instance_map = [], tk_topological = Some (topo - 1)\<rparr>;
              after_token = \<lparr>tk_stream = er_stream r, tk_instance_map = [], tk_topological = Some topo\<rparr>
          in rbind (paginate_room_events_txn engine events room_id before_token None BACKWARDS before_limit flt) (\<lambda>before.
             rbind (paginate_room_events_txn engine events room_id after_token None FORWARDS after_limit flt) (\<lambda>after.
             Inr (before, after))))"

section \<open>Reading the live stream\<close>

text \<open>The current position of the events stream, from the generator of its IDs.\<close>

definition get_room_max_token :: "mw_gen \<Rightarrow> room_token result" where
  "get_room_max_token g =
     (let min_pos = get_current_token g
      in RoomStreamToken None min_pos (filter (\<lambda>(_, p). min_pos < p) (get_positions g)))"

text \<open>
  \<^verbatim>\<open>get_all_new_event_ids_stream\<close>; the rows stand for the dictionary from event
  IDs to the time the event was received.
\<close>

definition get_all_new_event_ids_stream ::
  "event_row list \<Rightarrow> int \<Rightarrow> int \<Rightarrow> nat \<Rightarrow> (int \<times> event_row list) result" where
  "get_all_new_event_ids_stream events from_id current_id limit =
     (let rows = take limit (sort_key er_stream
            (filter (\<lambda>r. from_id < er_stream r \<and> er_stream r \<le> current_id) events))
      in if length rows = limit
         then (if rows = [] then Inl PyIndexError else Inr (er_stream (last rows), rows))
         else Inr (current_id, rows))"

text \<open>\<^verbatim>\<open>persisted_after\<close> with a room token asserts that the token is live.\<close>

definition room_persisted_after :: "string \<times> int \<Rightarrow> room_token \<Rightarrow> bool result" where
  "room_persisted_after p t = rbind (get_stream_pos_for_instance t (fst p)) (\<lambda>pos. Inr (pos < snd p))"

definition get_timeline_gaps ::
  "(string \<times> string \<times> int) list \<Rightarrow> string \<Rightarrow> room_token option \<Rightarrow> room_token \<Rightarrow> room_token option result" where
  "get_timeline_gaps gaps room_id from_token to_token =
     (let lo = (case from_token of Some t \<Rightarrow> tk_stream t | None \<Rightarrow> 0);
          rows = sort_key snd (map snd (filter (\<lambda>(room, _, s). room = room_id \<and> lo < s \<and> s \<le> get_max_stream_pos to_token) gaps))
      in rbind (case from_token of Some t \<Rightarrow> rfilter (\<lambda>p. room_persisted_after p t) rows | None \<Rightarrow> Inr rows) (\<lambda>after.
         rbind (rfilter (\<lambda>p. rbind (room_persisted_after p to_token) (\<lambda>b. Inr (\<not> b))) after) (\<lambda>positions.
         Inr (if positions = [] then None
              else Some \<lparr>tk_stream = snd (last positions) - 1, tk_instance_map = [], tk_topological = None\<rparr>))))"

end
