(* ===== verification/Pagination_Props.thy ===== *)
theory Pagination_Props
  imports Pagination
begin

text \<open>
  Paging through the events of a room: the SQL bounds fetch every row that the tokens
  admit, a page is the beginning of what is left to read, and a client that follows the
  tokens it is given reads everything once and in order.
\<close>

section \<open>Bounds\<close>

text \<open>The two ways to write a bound for the engines mean the same.\<close>

lemma sql_bound_meaning:
  "sql_true j (make_generic_sql_bound b v engine) \<longleftrightarrow>
     (case v of (None, s) \<Rightarrow> holds b s (er_stream (jr_row j)) | (Some t, s) \<Rightarrow> holds b (t, s) (row_order (jr_row j)))"
  by (cases v; cases "fst v"; cases b) (auto simp: make_generic_sql_bound_def row_order_def)

text \<open>Writers are never behind the default position of a token, and tokens whose bound is exact.\<close>

definition vector_ok :: "room_token \<Rightarrow> bool" where
  "vector_ok t \<longleftrightarrow> (\<forall>(_, p) \<in> set (tk_instance_map t). tk_stream t \<le> p)"

definition exact :: "room_token \<Rightarrow> bool" where
  "exact t \<longleftrightarrow> tk_topological t \<noteq> None \<or> tk_instance_map t = []"

lemma fold_max_upper: "x \<in> set (p # ps) \<Longrightarrow> x \<le> fold max ps (p :: int)"
  by (metis Max.set_eq_fold Max_ge finite_set)

lemma instance_pos_bounds:
  assumes "vector_ok t"
  shows "tk_stream t \<le> instance_pos t name" and "instance_pos t name \<le> get_max_stream_pos t"
proof -
  have le: "tk_stream t \<le> p" if "map_of (tk_instance_map t) n = Some p" for n p
    using assms map_of_SomeD [OF that] by (auto simp: vector_ok_def)
  then show "tk_stream t \<le> instance_pos t name"
    by (auto simp: instance_pos_def stream_pos_def split: option.splits)
  have mx: "p \<le> get_max_stream_pos t" if "p \<in> snd ` set (tk_instance_map t)" for p
  proof (cases "map snd (tk_instance_map t)")
    case (Cons q qs)
    then have "p \<in> set (q # qs)" using that by (metis set_map)
    then show ?thesis using Cons fold_max_upper by (simp add: get_max_stream_pos_def)
  qed (use that in simp)
  have "tk_stream t \<le> get_max_stream_pos t"
  proof (cases "tk_instance_map t")
    case Nil
    then show ?thesis by (simp add: get_max_stream_pos_def)
  next
    case (Cons e es)
    then have "snd e \<le> get_max_stream_pos t" by (intro mx) simp
    moreover have "tk_stream t \<le> snd e" using assms Cons by (auto simp: vector_ok_def)
    ultimately show ?thesis by simp
  qed
  then show "instance_pos t name \<le> get_max_stream_pos t"
    using mx by (force simp: instance_pos_def stream_pos_def split: option.splits dest: map_of_SomeD)
qed

lemma exact_pos:
  "exact t \<Longrightarrow> tk_topological t = None \<Longrightarrow> instance_pos t name = tk_stream t"
  "exact t \<Longrightarrow> tk_topological t = None \<Longrightarrow> get_max_stream_pos t = tk_stream t"
  by (simp_all add: exact_def instance_pos_def stream_pos_def get_max_stream_pos_def split: option.splits)

text \<open>The rows on the right side of one token.\<close>

definition after_token :: "room_token \<Rightarrow> event_row \<Rightarrow> bool" where
  "after_token t r \<longleftrightarrow> (case tk_topological t of
     Some topo \<Rightarrow> (topo, tk_stream t) < row_order r | None \<Rightarrow> instance_pos t (er_instance_name r) < er_stream r)"

definition in_page_range :: "direction \<Rightarrow> room_token \<Rightarrow> room_token option \<Rightarrow> event_row \<Rightarrow> bool" where
  "in_page_range dir from_token to_token r \<longleftrightarrow>
     (if dir = BACKWARDS
      then \<not> after_token from_token r \<and> (case to_token of None \<Rightarrow> True | Some t \<Rightarrow> after_token t r)
      else after_token from_token r \<and> (case to_token of None \<Rightarrow> True | Some t \<Rightarrow> \<not> after_token t r))"

lemma in_page_range_alt:
  "in_page_range dir from_token to_token r \<longleftrightarrow>
     (if dir = BACKWARDS then \<not> after_token from_token r \<and> (\<forall>t. to_token = Some t \<longrightarrow> after_token t r)
      else after_token from_token r \<and> (\<forall>t. to_token = Some t \<longrightarrow> \<not> after_token t r))"
  by (auto simp: in_page_range_def split: option.splits)

lemma filter_results_range:
  "filter_results (if dir = BACKWARDS then to_token else Some from_token)
     (if dir = BACKWARDS then Some from_token else to_token)
     (er_instance_name r) (ev_depth (er_event r)) (er_stream r) \<longleftrightarrow> in_page_range dir from_token to_token r"
  by (auto simp: filter_results_def in_page_range_alt after_token_def row_order_def not_le not_less
      split: option.splits)

definition bound_ok :: "sql_bound \<Rightarrow> int option \<times> int \<Rightarrow> event_row \<Rightarrow> bool" where
  "bound_ok b v r \<longleftrightarrow> (case v of (None, s) \<Rightarrow> holds b s (er_stream r) | (Some t, s) \<Rightarrow> holds b (t, s) (row_order r))"

lemma bound_after:
  assumes "vector_ok t" and "after_token t r"
  shows "bound_ok SqlLT (token_bound False t) r"
  using assms instance_pos_bounds(1) [OF assms(1), of "er_instance_name r"]
  by (auto simp: bound_ok_def token_bound_def after_token_def split: option.splits)

lemma bound_not_after:
  assumes "vector_ok t" and "\<not> after_token t r"
  shows "bound_ok SqlGE (token_bound True t) r"
  using assms instance_pos_bounds(2) [OF assms(1), of "er_instance_name r"]
  by (auto simp: bound_ok_def token_bound_def after_token_def split: option.splits)

lemma exact_bound:
  assumes "exact t"
  shows "bound_ok SqlLT (token_bound False t) r \<longleftrightarrow> after_token t r"
    and "bound_ok SqlGE (token_bound True t) r \<longleftrightarrow> \<not> after_token t r"
  using exact_pos [OF assms]
  by (auto simp: bound_ok_def token_bound_def after_token_def split: option.splits)

definition page_bounds :: "database_engine \<Rightarrow> direction \<Rightarrow> room_token \<Rightarrow> room_token option \<Rightarrow> sql_expr" where
  "page_bounds engine dir from_token to_token =
     (case generate_pagination_bounds dir (Some from_token) to_token of (_, from_bound, to_bound) \<Rightarrow>
        generate_pagination_where_clause dir from_bound to_bound engine)"

lemma page_bounds_meaning:
  "sql_true j (page_bounds engine dir f t) \<longleftrightarrow>
     (if dir = BACKWARDS
      then bound_ok SqlGE (token_bound True f) (jr_row j) \<and> (\<forall>u. t = Some u \<longrightarrow> bound_ok SqlLT (token_bound False u) (jr_row j))
      else bound_ok SqlLT (token_bound False f) (jr_row j) \<and> (\<forall>u. t = Some u \<longrightarrow> bound_ok SqlGE (token_bound True u) (jr_row j)))"
  by (cases dir; cases t)
    (simp_all add: page_bounds_def generate_pagination_bounds_def generate_pagination_where_clause_def
      sql_bound_meaning bound_ok_def)

lemma page_bounds_wide:
  assumes "vector_ok f" and "\<forall>u. t = Some u \<longrightarrow> vector_ok u" and "in_page_range dir f t (jr_row j)"
  shows "sql_true j (page_bounds engine dir f t)"
  using assms bound_after bound_not_after
  by (auto simp: page_bounds_meaning in_page_range_alt split: if_splits)

lemma page_bounds_exact:
  assumes "exact f" and "\<forall>u. t = Some u \<longrightarrow> exact u"
  shows "sql_true j (page_bounds engine dir f t) \<longleftrightarrow> in_page_range dir f t (jr_row j)"
  using assms by (auto simp: page_bounds_meaning in_page_range_alt exact_bound)


section \<open>The rows of a page\<close>

text \<open>
  What the schema guarantees: \<^verbatim>\<open>stream_ordering\<close> is unique, and so is a label
  of an event.
\<close>

definition table_keys :: "event_row list \<Rightarrow> bool" where
  "table_keys events \<longleftrightarrow> distinct (map er_stream events) \<and> (\<forall>r \<in> set events. distinct (er_labels r))"

definition row_matches :: "event_filter option \<Rightarrow> event_row \<Rightarrow> bool" where
  "row_matches flt r \<longleftrightarrow> (\<exists>j \<in> set (joined_rows flt r). list_all (sql_true j) (filter_to_clause flt))"

text \<open>All that there is to read between two tokens, in the order of reading.\<close>

definition to_read ::
  "event_row list \<Rightarrow> string \<Rightarrow> event_filter option \<Rightarrow> direction \<Rightarrow> room_token \<Rightarrow> room_token option \<Rightarrow> event_row list" where
  "to_read events room_id flt dir from_token to_token =
     in_order dir (filter (\<lambda>r. \<not> er_outlier r \<and> ev_room_id (er_event r) = room_id \<and> row_matches flt r \<and>
       in_page_range dir from_token to_token r) events)"

lemma jr_row_joined [simp]: "j \<in> set (joined_rows flt r) \<Longrightarrow> jr_row j = r"
  by (auto simp: joined_rows_def)

lemma filter_at_most_one:
  assumes "distinct xs" and "\<forall>x \<in> set xs. \<forall>y \<in> set xs. P x \<longrightarrow> P y \<longrightarrow> x = y"
  shows "length (filter P xs) \<le> 1"
proof (rule ccontr)
  assume "\<not> ?thesis"
  then obtain x y zs where f: "filter P xs = x # y # zs"
    by (metis One_nat_def Suc_le_mono list.exhaust list.size(3,4) plus_1_eq_Suc zero_le add.commute)
  moreover have "distinct (filter P xs)" using assms(1) by simp
  ultimately have "x \<noteq> y" by simp
  moreover have "x \<in> set (filter P xs)" "y \<in> set (filter P xs)" by (simp_all add: f)
  ultimately show False using assms(2) by (simp del: f)
qed

lemma joined_rows_labels:
  "\<not> joins_relations flt \<Longrightarrow>
     joined_rows flt r = map (\<lambda>l. \<lparr>jr_row = r, jr_label = l, jr_relation = None\<rparr>) (partners (joins_labels flt) (er_labels r))"
  by (simp add: joined_rows_def partners_def [of False] concat_map_singleton)

lemma needs_distinct_labels:
  assumes "\<not> needs_distinct flt" and "joins_labels flt"
  obtains f l where "flt = Some f" and "f_labels f = Some [l]"
proof -
  obtain f where f: "flt = Some f" "given (f_labels f)"
    using assms(2) by (auto simp: joins_labels_def split: option.splits)
  then obtain ls where ls: "f_labels f = Some ls" "ls \<noteq> []" by (auto simp: given_def)
  moreover have "length ls \<le> 1" using assms(1) f ls by (simp add: needs_distinct_def)
  ultimately obtain l where "ls = [l]" by (cases ls) auto
  with f ls that show thesis by blast
qed

lemma one_joined_row:
  assumes "distinct (er_labels r)" and "\<not> needs_distinct flt"
  shows "length (filter (\<lambda>j. list_all (sql_true j) (filter_to_clause flt)) (joined_rows flt r)) \<le> 1"
proof -
  have nr: "\<not> joins_relations flt"
    using assms(2) by (cases flt) (simp_all add: needs_distinct_def joins_relations_def)
  note rows = joined_rows_labels [OF nr, of r]
  show ?thesis
  proof (cases "joins_labels flt")
    case False
    then have "length (joined_rows flt r) = 1" unfolding rows by (simp add: partners_def)
    then show ?thesis using length_filter_le [of _ "joined_rows flt r"] by simp
  next
    case True
    obtain f l where f: "flt = Some f" "f_labels f = Some [l]" using needs_distinct_labels [OF assms(2) True] .
    have "distinct (partners (joins_labels flt) (er_labels r))"
      using assms(1) by (simp add: partners_def distinct_map)
    then have d: "distinct (joined_rows flt r)" unfolding rows by (simp add: distinct_map inj_on_def)
    have "SqlOr [SqlEqText C_label l] \<in> set (filter_to_clause flt)"
      by (simp add: filter_to_clause_def f eq_any_def given_def)
    then have lab: "jr_label j = Some l" if "list_all (sql_true j) (filter_to_clause flt)" for j
      using that by (force simp: list_all_iff)
    show ?thesis
    proof (rule filter_at_most_one [OF d], intro ballI impI)
      fix j k
      assume "j \<in> set (joined_rows flt r)" "k \<in> set (joined_rows flt r)"
        and t: "list_all (sql_true j) (filter_to_clause flt)" "list_all (sql_true k) (filter_to_clause flt)"
      then obtain a b where "j = \<lparr>jr_row = r, jr_label = a, jr_relation = None\<rparr>"
        "k = \<lparr>jr_row = r, jr_label = b, jr_relation = None\<rparr>" unfolding rows by force
      with lab [OF t(1)] lab [OF t(2)] show "j = k" by simp
    qed
  qed
qed


text \<open>The query selects each matching row once.\<close>

lemma sort_key_unique:
  assumes "distinct xs" and "distinct ys" and "set xs = set ys" and "inj_on f (set xs)"
  shows "sort_key f xs = sort_key f ys"
proof -
  have "distinct (map f (sort_key f xs))" "distinct (map f (sort_key f ys))"
    using assms by (simp_all add: distinct_map)
  moreover have "set (map f (sort_key f xs)) = set (map f (sort_key f ys))" using assms(3) by simp
  ultimately have "map f (sort_key f xs) = map f (sort_key f ys)"
    by (intro sorted_distinct_set_unique) simp_all
  then show ?thesis by (rule map_inj_on) (use assms in simp)
qed

lemma row_order_inj: "table_keys events \<Longrightarrow> inj_on row_order (set events)"
  by (auto simp: table_keys_def distinct_map row_order_def inj_on_def)

lemma table_keys_distinct: "table_keys events \<Longrightarrow> distinct events"
  by (auto simp: table_keys_def distinct_map)

lemma distinct_joined:
  assumes "distinct events"
    and "\<And>r. r \<in> set events \<Longrightarrow> length (filter P (joined_rows flt r)) \<le> 1"
  shows "distinct (map jr_row (filter P (concat (map (joined_rows flt) events))))"
  using assms
proof (induction events)
  case (Cons r events)
  have "\<exists>j. set (filter P (joined_rows flt r)) \<subseteq> {j} \<and> distinct (filter P (joined_rows flt r))"
    using Cons.prems(2) [of r] by (cases "filter P (joined_rows flt r)") (auto simp: le_Suc_eq)
  then have "distinct (map jr_row (filter P (joined_rows flt r)))"
    using Cons.prems(2) [of r] by (cases "filter P (joined_rows flt r)") auto
  then show ?case using Cons by auto
qed simp

lemma length_filter_imp: "(\<And>x. P x \<Longrightarrow> Q x) \<Longrightarrow> length (filter P xs) \<le> length (filter Q xs)"
  by (induction xs) auto

lemma select_page_rows:
  assumes "table_keys events"
    and "\<And>j. sql_true j b \<longleftrightarrow> B (jr_row j)"
  shows "select_page events room_id dir (b # filter_to_clause flt) flt n =
    take n (in_order dir (filter (\<lambda>r. \<not> er_outlier r \<and> ev_room_id (er_event r) = room_id \<and> B r \<and> row_matches flt r) events))"
proof -
  let ?P = "\<lambda>j. \<not> er_outlier (jr_row j) \<and> ev_room_id (er_event (jr_row j)) = room_id \<and>
    list_all (sql_true j) (b # filter_to_clause flt)"
  let ?m = "map jr_row (filter ?P (concat (map (joined_rows flt) events)))"
  let ?d = "if needs_distinct flt then remdups ?m else ?m"
  let ?f = "filter (\<lambda>r. \<not> er_outlier r \<and> ev_room_id (er_event r) = room_id \<and> B r \<and> row_matches flt r) events"
  have "distinct ?m" if n: "\<not> needs_distinct flt"
  proof (rule distinct_joined [OF table_keys_distinct [OF assms(1)]])
    fix r assume "r \<in> set events"
    then have "distinct (er_labels r)" using assms(1) by (simp add: table_keys_def)
    from one_joined_row [OF this n]
    show "length (filter ?P (joined_rows flt r)) \<le> 1"
      by (rule order_trans [rotated]) (rule length_filter_imp, simp)
  qed
  then have "distinct ?d" by simp
  moreover have "set ?d = set ?f"
    by (force simp: assms(2) row_matches_def)
  moreover have "distinct ?f" using table_keys_distinct [OF assms(1)] by simp
  moreover have "inj_on row_order (set ?f)" using row_order_inj [OF assms(1)] by (rule inj_on_subset) auto
  ultimately have "sort_key row_order ?d = sort_key row_order ?f" by (intro sort_key_unique) simp_all
  then show ?thesis by (simp only: select_page_def in_order_def Let_def)
qed


definition next_of :: "direction \<Rightarrow> room_token \<Rightarrow> room_token option \<Rightarrow> event_row list \<Rightarrow> room_token" where
  "next_of dir from_token to_token rows =
     (if rows \<noteq> [] then generate_next_token dir (ev_depth (er_event (last rows))) (er_stream (last rows))
      else (case to_token of Some t \<Rightarrow> t | None \<Rightarrow> from_token))"

definition bounded :: "database_engine \<Rightarrow> direction \<Rightarrow> room_token \<Rightarrow> room_token option \<Rightarrow> event_row \<Rightarrow> bool" where
  "bounded engine dir f t r = sql_true \<lparr>jr_row = r, jr_label = None, jr_relation = None\<rparr> (page_bounds engine dir f t)"

definition fetched ::
  "database_engine \<Rightarrow> event_row list \<Rightarrow> string \<Rightarrow> event_filter option \<Rightarrow> direction \<Rightarrow> room_token \<Rightarrow> room_token option
     \<Rightarrow> event_row list" where
  "fetched engine events room_id flt dir f t = in_order dir (filter (\<lambda>r. \<not> er_outlier r \<and>
     ev_room_id (er_event r) = room_id \<and> bounded engine dir f t r \<and> row_matches flt r) events)"

lemma paginate_rows:
  assumes "table_keys events" and "\<not> ambiguous_columns engine flt"
  shows "paginate_room_events_txn engine events room_id f t dir limit flt =
    (let rows = take limit (filter (in_page_range dir f t) (take (limit * 2) (fetched engine events room_id flt dir f t)))
     in Inr (rows, next_of dir f t rows))"
proof -
  have "sql_true j (page_bounds engine dir f t) \<longleftrightarrow> bounded engine dir f t (jr_row j)" for j
    by (simp add: bounded_def page_bounds_meaning)
  note sel = select_page_rows [OF assms(1) this, folded fetched_def]
  obtain fb tb where b: "generate_pagination_bounds dir (Some f) t = (dir, fb, tb)"
    by (simp add: generate_pagination_bounds_def)
  then have pb: "generate_pagination_where_clause dir fb tb engine = page_bounds engine dir f t"
    by (simp add: page_bounds_def)
  show ?thesis
    using assms(2)
    by (simp only: paginate_room_events_txn_def b prod.case Let_def pb sel filter_results_range next_of_def
        fetched_def if_False simp_thms)
qed

lemma filter_in_order: "filter P (in_order dir xs) = in_order dir (filter P xs)"
  by (simp add: in_order_def Let_def filter_sort rev_filter [symmetric])

lemma fetched_in_range:
  assumes "\<And>r. in_page_range dir f t r \<Longrightarrow> bounded engine dir f t r"
  shows "filter (in_page_range dir f t) (fetched engine events room_id flt dir f t) = to_read events room_id flt dir f t"
proof -
  have "filter (in_page_range dir f t) (filter (\<lambda>r. \<not> er_outlier r \<and>
      ev_room_id (er_event r) = room_id \<and> bounded engine dir f t r \<and> row_matches flt r) events) =
    filter (\<lambda>r. \<not> er_outlier r \<and> ev_room_id (er_event r) = room_id \<and> row_matches flt r \<and>
       in_page_range dir f t r) events"
    unfolding filter_filter by (rule filter_cong [OF refl]) (use assms in blast)
  then show ?thesis by (simp only: fetched_def to_read_def filter_in_order)
qed

lemma range_bounded:
  assumes "vector_ok f" and "\<forall>u. t = Some u \<longrightarrow> vector_ok u" and "in_page_range dir f t r"
  shows "bounded engine dir f t r"
  unfolding bounded_def by (rule page_bounds_wide [OF assms(1,2)]) (simp add: assms(3))

text \<open>With tokens whose bounds are exact, a page is full unless there is less to read.\<close>

lemma page_exact:
  assumes "table_keys events" and "\<not> ambiguous_columns engine flt" and "exact f" and "\<forall>u. t = Some u \<longrightarrow> exact u"
  shows "paginate_room_events_txn engine events room_id f t dir limit flt =
    (let rows = take limit (to_read events room_id flt dir f t) in Inr (rows, next_of dir f t rows))"
proof -
  let ?F = "fetched engine events room_id flt dir f t" and ?R = "in_page_range dir f t"
  have b: "bounded engine dir f t r \<longleftrightarrow> ?R r" for r
    by (simp add: bounded_def page_bounds_exact [OF assms(3,4)])
  then have "\<forall>r \<in> set ?F. ?R r" by (auto simp: fetched_def in_order_def Let_def split: if_splits)
  then have "filter ?R (take (limit * 2) ?F) = take (limit * 2) ?F" "filter ?R ?F = ?F"
    by (auto simp: filter_id_conv dest: in_set_takeD)
  then have "take limit (filter ?R (take (limit * 2) ?F)) = take limit (to_read events room_id flt dir f t)"
    using fetched_in_range [of dir f t engine events room_id flt] b by simp
  then show ?thesis using paginate_rows [OF assms(1,2), of room_id f t dir limit] by simp
qed

text \<open>
  C32.  A page is the beginning of what there is to read between the tokens: in order, each
  event at most once although the filter may join several rows to it, nothing skipped, at
  most \<open>limit\<close> events; and if the tokens have no vector part, \<open>limit\<close> events unless there are
  fewer.  The tokens have no writer behind the default position, and the filter is one that
  the database accepts.
\<close>

theorem page_is_beginning:
  assumes "table_keys events" and "\<not> ambiguous_columns engine flt"
    and "vector_ok f" and "\<forall>u. t = Some u \<longrightarrow> vector_ok u"
  shows "\<exists>k \<le> limit. paginate_room_events_txn engine events room_id f t dir limit flt =
      (let rows = take k (to_read events room_id flt dir f t) in Inr (rows, next_of dir f t rows)) \<and>
    (exact f \<and> (\<forall>u. t = Some u \<longrightarrow> exact u) \<longrightarrow> k = limit)"
proof (cases "exact f \<and> (\<forall>u. t = Some u \<longrightarrow> exact u)")
  case True
  then show ?thesis using page_exact [OF assms(1,2), of f t room_id dir limit] by blast
next
  case False
  let ?F = "fetched engine events room_id flt dir f t" and ?R = "in_page_range dir f t"
  let ?k = "min limit (length (filter ?R (take (limit * 2) ?F)))"
  have "filter ?R ?F = filter ?R (take (limit * 2) ?F) @ filter ?R (drop (limit * 2) ?F)"
    by (metis append_take_drop_id filter_append)
  then have "to_read events room_id flt dir f t = filter ?R (take (limit * 2) ?F) @ filter ?R (drop (limit * 2) ?F)"
    using fetched_in_range [OF range_bounded [OF assms(3,4)], of dir engine events room_id flt] by simp
  then have "take limit (filter ?R (take (limit * 2) ?F)) = take ?k (to_read events room_id flt dir f t)"
    by (simp add: min_def)
  then show ?thesis
    using False paginate_rows [OF assms(1,2), of room_id f t dir limit] by (intro exI [of _ ?k]) auto
qed

section \<open>Following the tokens\<close>

text \<open>
  A client that asks for page after page, each from the token that came with the one
  before, until a page is empty.
\<close>

fun read_pages ::
  "nat \<Rightarrow> (room_token \<Rightarrow> (event_row list \<times> room_token) result) \<Rightarrow> room_token \<Rightarrow> event_row list list option" where
  "read_pages 0 page token = None"
| "read_pages (Suc n) page token =
     (case page token of
        Inl _ \<Rightarrow> None
      | Inr (rows, next_token) \<Rightarrow>
          if rows = [] then Some [] else map_option ((#) rows) (read_pages n page next_token))"

lemma read_pages_page:
  "page token = Inr (rows, next_token) \<Longrightarrow>
     read_pages (Suc n) page token = (if rows = [] then Some [] else map_option ((#) rows) (read_pages n page next_token))"
  by simp

declare read_pages.simps [simp del]

definition before :: "direction \<Rightarrow> event_row \<Rightarrow> event_row \<Rightarrow> bool" where
  "before dir x y \<longleftrightarrow> (if dir = BACKWARDS then row_order y < row_order x else row_order x < row_order y)"

lemma sorted_wrt_in_order:
  assumes "distinct xs" and "inj_on row_order (set xs)"
  shows "sorted_wrt (before dir) (in_order dir xs)"
proof -
  have "sorted_wrt (<) (map row_order (sort_key row_order xs))"
    using assms by (simp add: strict_sorted_iff distinct_map)
  then have asc: "sorted_wrt (\<lambda>x y. row_order x < row_order y) (sort_key row_order xs)"
    by (simp only: sorted_wrt_map)
  show ?thesis
    using asc by (cases dir) (simp_all add: in_order_def before_def [abs_def] sorted_wrt_rev)
qed

lemma filter_rest:
  assumes "sorted_wrt R xs" and "\<And>x. \<not> R x x" and "\<And>x y. R x y \<Longrightarrow> \<not> R y x" and "0 < k" and "k \<le> length xs"
  shows "filter (R (last (take k xs))) xs = drop k xs"
proof -
  obtain ys z zs where xs: "xs = ys @ z # zs" and k: "length ys = k - 1"
    using assms(4,5) by (metis Suc_pred' Suc_le_lessD id_take_nth_drop length_take min.absorb4 less_or_eq_imp_le)
  then have tk: "take k xs = ys @ [z]" and dr: "drop k xs = zs" using assms(4) by (cases k; simp)+
  have "\<forall>y \<in> set ys. \<not> R z y" using assms(1,3) by (auto simp: xs sorted_wrt_append)
  moreover have "\<forall>y \<in> set zs. R z y" using assms(1) by (auto simp: xs sorted_wrt_append)
  ultimately show ?thesis using assms(2) by (simp add: tk dr) (simp add: xs)
qed

lemma range_next:
  "in_page_range dir (generate_next_token dir (ev_depth (er_event x)) (er_stream x)) t r \<longleftrightarrow>
     before dir x r \<and> (\<forall>u. t = Some u \<longrightarrow> (if dir = BACKWARDS then after_token u r else \<not> after_token u r))"
  by (auto simp: in_page_range_alt after_token_def generate_next_token_def before_def row_order_def)

lemma to_read_next:
  assumes "table_keys events" and "tk_topological f \<noteq> None"
    and "0 < k" and "k \<le> length (to_read events room_id flt dir f t)"
  shows "to_read events room_id flt dir (next_of dir f t (take k (to_read events room_id flt dir f t))) t =
    drop k (to_read events room_id flt dir f t)"
proof -
  let ?L = "to_read events room_id flt dir f t"
  let ?x = "last (take k ?L)"
  let ?C = "\<lambda>r. \<not> er_outlier r \<and> ev_room_id (er_event r) = room_id \<and> row_matches flt r"
  have ne: "take k ?L \<noteq> []" using assms(3,4) by auto
  then have x: "?x \<in> set ?L" by (metis in_set_takeD last_in_set)
  have sorted: "sorted_wrt (before dir) ?L"
    unfolding to_read_def
    using table_keys_distinct [OF assms(1)] row_order_inj [OF assms(1)]
    by (intro sorted_wrt_in_order) (auto simp: inj_on_def)
  have "in_page_range dir f t ?x" using x by (simp add: to_read_def in_order_def Let_def split: if_splits)
  then have "in_page_range dir f t r \<and> before dir ?x r \<longleftrightarrow>
      in_page_range dir (generate_next_token dir (ev_depth (er_event ?x)) (er_stream ?x)) t r" for r
    using assms(2) unfolding range_next
    by (auto simp: in_page_range_alt after_token_def before_def not_less split: option.splits if_splits)
  then have "to_read events room_id flt dir (next_of dir f t (take k ?L)) t =
      in_order dir (filter (before dir ?x) (filter (\<lambda>r. ?C r \<and> in_page_range dir f t r) events))"
    using ne by (simp add: next_of_def to_read_def conj_ac)
  also have "\<dots> = filter (before dir ?x) ?L" by (simp add: to_read_def filter_in_order)
  also have "\<dots> = drop k ?L"
    by (rule filter_rest [OF sorted _ _ assms(3,4)]) (auto simp: before_def split: if_splits)
  finally show ?thesis .
qed


lemma next_of_topological: "rows \<noteq> [] \<Longrightarrow> tk_topological (next_of dir f t rows) \<noteq> None"
  by (simp add: next_of_def generate_next_token_def)

lemma read_pages_complete:
  assumes "table_keys events" and "\<not> ambiguous_columns engine flt" and "0 < limit"
    and "tk_topological f \<noteq> None" and "\<forall>u. t = Some u \<longrightarrow> exact u"
    and "length (to_read events room_id flt dir f t) \<le> n"
  shows "\<exists>pages. read_pages (Suc n)
      (\<lambda>token. paginate_room_events_txn engine events room_id token t dir limit flt) f = Some pages \<and>
    concat pages = to_read events room_id flt dir f t \<and> (\<forall>p \<in> set pages. p \<noteq> [] \<and> length p \<le> limit)"
  using assms(4,6)
proof (induction n arbitrary: f)
  case 0
  have "exact f" using 0(1) by (simp add: exact_def)
  from page_exact [OF assms(1,2) this assms(5), of room_id dir limit] 0(2) show ?case
    by (simp add: read_pages_page)
next
  case (Suc n)
  let ?L = "to_read events room_id flt dir f t"
  have "exact f" using Suc.prems(1) by (simp add: exact_def)
  note page = page_exact [OF assms(1,2) this assms(5), of room_id dir limit, unfolded Let_def]
  note step = read_pages_page
    [where page = "\<lambda>token. paginate_room_events_txn engine events room_id token t dir limit flt", OF page]
  show ?case
  proof (cases "?L = []")
    case True
    then show ?thesis by (simp add: step)
  next
    case False
    define k where "k = min limit (length ?L)"
    have k: "0 < k" "k \<le> length ?L" "take limit ?L = take k ?L"
      using False assms(3) by (auto simp: k_def min_def)
    note tail = to_read_next [OF assms(1) Suc.prems(1) k(1,2)]
    have ne: "take k ?L \<noteq> []" using False k(1) by simp
    have "length (to_read events room_id flt dir (next_of dir f t (take k ?L)) t) \<le> n"
      unfolding tail using Suc.prems(2) k(1) by simp
    from Suc.IH [OF next_of_topological [OF ne] this]
    obtain pages where pages: "read_pages (Suc n) (\<lambda>token. paginate_room_events_txn engine events room_id token t dir limit flt)
        (next_of dir f t (take k ?L)) = Some pages"
      "concat pages = drop k ?L" "\<forall>p \<in> set pages. p \<noteq> [] \<and> length p \<le> limit"
      unfolding tail by blast
    have "k \<le> limit" by (simp add: k_def)
    with pages ne show ?thesis
      by (intro exI [of _ "take k ?L # pages"]) (simp add: step k(3))
  qed
qed

text \<open>
  C31.  A client that follows the tokens reads everything, if it asks for pages of a positive
  size, up to a token without a vector part, with a filter that the database accepts:
  starting at a historic token and
  asking for page after page, in either direction, it gets after finitely many pages an
  empty one, and the pages before it are together exactly the matching events between the
  tokens, each once and in order, in pages of at most \<open>limit\<close> events.
\<close>

theorem pagination_complete:
  assumes "table_keys events" and "\<not> ambiguous_columns engine flt" and "0 < limit"
    and "tk_topological f \<noteq> None" and "\<forall>u. t = Some u \<longrightarrow> exact u"
  shows "\<exists>pages. read_pages (Suc (length events))
      (\<lambda>token. paginate_room_events_txn engine events room_id token t dir limit flt) f = Some pages \<and>
    concat pages = to_read events room_id flt dir f t \<and> (\<forall>p \<in> set pages. p \<noteq> [] \<and> length p \<le> limit)"
  by (rule read_pages_complete [OF assms]) (simp add: to_read_def in_order_def Let_def)

section \<open>A sample room\<close>

definition sample_row :: "string \<Rightarrow> string \<Rightarrow> int \<Rightarrow> int \<Rightarrow> event_row" where
  "sample_row event_id writer depth stream =
     \<lparr>er_event = \<lparr>ev_type = ''m.room.message'', ev_sender = ''@u:x'', ev_room_id = ''!r:x'', ev_state_key = None,
        ev_content = [], ev_event_id = event_id, ev_prev_event_ids = [], ev_auth_event_ids = [], ev_depth = depth,
        ev_origin_server_ts = 0, ev_redacts = JNull, ev_signatures = [], ev_unsigned = [], ev_rejected_reason = None,
        ev_room_version = V10, ev_recheck_redaction = False, ev_redacted = False\<rparr>,
      er_instance_name = Some writer, er_stream = stream, er_outlier = False, er_labels = [], er_relation = None,
      er_related = []\<rparr>"

definition sample_events :: "event_row list" where
  "sample_events = [sample_row ''$a'' ''w2'' 1 8, sample_row ''$b'' ''w1'' 2 10, sample_row ''$c'' ''w1'' 3 11]"

definition sample_vector :: room_token where
  "sample_vector = \<lparr>tk_stream = 5, tk_instance_map = [(''w2'', 20)], tk_topological = None\<rparr>"

definition sample_historic :: room_token where
  "sample_historic = \<lparr>tk_stream = 10, tk_instance_map = [], tk_topological = Some 2\<rparr>"

lemma sample_events_keys: "table_keys sample_events"
  by (simp add: table_keys_def sample_events_def sample_row_def)

lemma no_filter_ambiguous: "\<not> ambiguous_columns engine None"
  by (simp add: ambiguous_columns_def)

theorem page_is_beginning_witness:
  "\<exists>k \<le> 1. paginate_room_events_txn PostgresEngine sample_events ''!r:x'' sample_vector None BACKWARDS 1 None =
     (let rows = take k (to_read sample_events ''!r:x'' None BACKWARDS sample_vector None)
      in Inr (rows, next_of BACKWARDS sample_vector None rows))"
proof -
  have "vector_ok sample_vector" by (simp add: vector_ok_def sample_vector_def)
  from page_is_beginning [OF sample_events_keys no_filter_ambiguous [of PostgresEngine] this, of None 1 "''!r:x''" BACKWARDS]
  show ?thesis by auto
qed

theorem pagination_complete_witness:
  "\<exists>pages. read_pages 4
      (\<lambda>token. paginate_room_events_txn Sqlite3Engine sample_events ''!r:x'' token None BACKWARDS 1 None) sample_historic = Some pages \<and>
    concat pages = to_read sample_events ''!r:x'' None BACKWARDS sample_historic None"
proof -
  have "tk_topological sample_historic \<noteq> None" by (simp add: sample_historic_def)
  moreover have "Suc (length sample_events) = 4" by (simp add: sample_events_def)
  ultimately show ?thesis
    using pagination_complete [OF sample_events_keys no_filter_ambiguous [of Sqlite3Engine], of 1 sample_historic None "''!r:x''" BACKWARDS]
    by auto
qed

text \<open>
  From a vector token a page may be empty although there are events to read: the
  query fetches twice as many rows as asked for, and all of them may be of writers that are
  behind.  Then the token that comes with the page is the one it was asked from.
\<close>

lemma vector_page_may_be_empty:
  "paginate_room_events_txn PostgresEngine sample_events ''!r:x'' sample_vector None BACKWARDS 1 None = Inr ([], sample_vector) \<and>
   to_read sample_events ''!r:x'' None BACKWARDS sample_vector None \<noteq> []"
  by code_simp

end
