(* ===== verification/Stream_Change_Cache.thy ===== *)
theory Stream_Change_Cache
  imports Prelude
begin

text \<open>
  \<^verbatim>\<open>synapse/util/caches/stream_change_cache.py\<close>: the cache that tells whether an
  entity (a room, a user) has changed since a stream position.  It keeps two indexes, from
  positions to the entities that changed there and from an entity to its last change, and
  forgets the oldest positions when it is full.  The \<^verbatim>\<open>SortedDict\<close> is an
  association list with ascending keys.
\<close>

record change_cache =
  cc_original_max_size :: int
  cc_max_size :: int
  cc_cache :: "(int \<times> string list) list"
  cc_entity_to_key :: "(string \<times> int) list"
  cc_earliest_known_stream_pos :: int
  cc_stray_max_size :: "int option"

fun sorted_put :: "int \<Rightarrow> 'a \<Rightarrow> (int \<times> 'a) list \<Rightarrow> (int \<times> 'a) list" where
  "sorted_put k v [] = [(k, v)]"
| "sorted_put k v ((k', v') # rest) =
     (if k < k' then (k, v) # (k', v') # rest
      else if k = k' then (k, v) # rest
      else (k', v') # sorted_put k v rest)"

text \<open>
  The loop of \<^verbatim>\<open>_evict\<close>; \<^verbatim>\<open>popitem\<close> on an empty dict raises.
\<close>

fun evict_loop :: "int \<Rightarrow> (int \<times> string list) list \<Rightarrow> (string \<times> int) list \<Rightarrow> int
    \<Rightarrow> ((int \<times> string list) list \<times> (string \<times> int) list \<times> int) result" where
  "evict_loop max_size [] keys earliest = (if max_size < 0 then Inl PyKeyError else Inr ([], keys, earliest))"
| "evict_loop max_size ((k, r) # rest) keys earliest =
     (if max_size < int (length ((k, r) # rest))
      then evict_loop max_size rest (filter (\<lambda>(e, _). e \<notin> set r) keys) (max k earliest)
      else Inr ((k, r) # rest, keys, earliest))"

definition evict :: "change_cache \<Rightarrow> change_cache result" where
  "evict c = rbind (evict_loop (cc_max_size c) (cc_cache c) (cc_entity_to_key c) (cc_earliest_known_stream_pos c))
     (\<lambda>(cache, keys, earliest). Inr (c\<lparr>cc_cache := cache, cc_entity_to_key := keys,
        cc_earliest_known_stream_pos := earliest\<rparr>))"

text \<open>The entity is taken from its old position.\<close>

definition remove_old :: "string \<Rightarrow> int \<Rightarrow> (int \<times> string list) list \<Rightarrow> (int \<times> string list) list result" where
  "remove_old entity old_pos cache =
     rbind (dict_item cache old_pos) (\<lambda>e.
       if entity \<notin> set e then Inl PyKeyError
       else let e' = removeAll entity e
            in Inr (if e' = [] then filter (\<lambda>(k, _). k \<noteq> old_pos) cache else sorted_put old_pos e' cache))"

definition entity_has_changed :: "string \<Rightarrow> int \<Rightarrow> change_cache \<Rightarrow> change_cache result" where
  "entity_has_changed entity stream_pos c =
     (if stream_pos \<le> cc_earliest_known_stream_pos c then Inr c
      else
        let add = (\<lambda>cache. evict (c\<lparr>
              cc_cache := sorted_put stream_pos
                (set_add entity (case map_of cache stream_pos of None \<Rightarrow> [] | Some e1 \<Rightarrow> e1)) cache,
              cc_entity_to_key := AList.update entity stream_pos (cc_entity_to_key c)\<rparr>))
        in case map_of (cc_entity_to_key c) entity of
             None \<Rightarrow> add (cc_cache c)
           | Some old_pos \<Rightarrow>
               if stream_pos \<le> old_pos then Inr c
               else rbind (remove_old entity old_pos (cc_cache c)) add)"

definition StreamChangeCache :: "int \<Rightarrow> int \<Rightarrow> (string \<times> int) list \<Rightarrow> change_cache result" where
  "StreamChangeCache current_stream_pos max_size prefilled_cache =
     rfold (\<lambda>(entity, stream_pos). entity_has_changed entity stream_pos) prefilled_cache
       \<lparr>cc_original_max_size = max_size, cc_max_size = max_size, cc_cache = [], cc_entity_to_key = [],
        cc_earliest_known_stream_pos = current_stream_pos, cc_stray_max_size = None\<rparr>"

text \<open>
  \<^verbatim>\<open>set_cache_factor\<close>.  The new size is assigned to the attribute
  \<^verbatim>\<open>max_size\<close>, which nothing reads.
\<close>

definition set_cache_factor :: "rat \<Rightarrow> change_cache \<Rightarrow> (bool \<times> change_cache) result" where
  "set_cache_factor factor c =
     (let new_size = \<lfloor>of_int (cc_original_max_size c) * factor\<rfloor>
      in if new_size \<noteq> cc_max_size c
         then rbind (evict (c\<lparr>cc_stray_max_size := Some new_size\<rparr>)) (\<lambda>c'. Inr (True, c'))
         else Inr (False, c))"

definition has_entity_changed :: "string \<Rightarrow> int \<Rightarrow> change_cache \<Rightarrow> bool" where
  "has_entity_changed entity stream_pos c =
     (if stream_pos \<le> cc_earliest_known_stream_pos c then True
      else case map_of (cc_entity_to_key c) entity of
             None \<Rightarrow> False
           | Some latest \<Rightarrow> stream_pos < latest)"

definition get_all_entities_changed :: "int \<Rightarrow> change_cache \<Rightarrow> string list option" where
  "get_all_entities_changed stream_pos c =
     (if stream_pos \<le> cc_earliest_known_stream_pos c then None
      else Some (concat (map snd (filter (\<lambda>(k, _). stream_pos < k) (cc_cache c)))))"

definition get_entities_changed :: "string list \<Rightarrow> int \<Rightarrow> change_cache \<Rightarrow> string list" where
  "get_entities_changed entities stream_pos c =
     (case get_all_entities_changed stream_pos c of
        Some changed \<Rightarrow> filter (\<lambda>e. e \<in> set changed) (remdups entities)
      | None \<Rightarrow> remdups entities)"

definition has_any_entity_changed :: "int \<Rightarrow> change_cache \<Rightarrow> bool" where
  "has_any_entity_changed stream_pos c =
     (if stream_pos \<le> cc_earliest_known_stream_pos c then True
      else if cc_cache c = [] then False
      else stream_pos < fst (last (cc_cache c)))"

definition get_max_pos_of_last_change :: "string \<Rightarrow> change_cache \<Rightarrow> int" where
  "get_max_pos_of_last_change entity c =
     (case map_of (cc_entity_to_key c) entity of None \<Rightarrow> cc_earliest_known_stream_pos c | Some k \<Rightarrow> k)"

section \<open>The indexes agree\<close>

lemma keys_sorted_put [simp]: "set (map fst (sorted_put k v d)) = insert k (set (map fst d))"
  by (induction k v d rule: sorted_put.induct) auto

lemma sorted_sorted_put: "sorted_wrt (<) (map fst d) \<Longrightarrow> sorted_wrt (<) (map fst (sorted_put k v d))"
proof (induction k v d rule: sorted_put.induct)
  case (2 k v k' v' rest)
  then have "\<forall>x \<in> set (map fst (sorted_put k v rest)). k' < x" if "k' < k"
    using that unfolding keys_sorted_put by auto
  with 2 show ?case by auto
qed simp

lemma map_of_sorted_put: "sorted_wrt (<) (map fst d) \<Longrightarrow> map_of (sorted_put k v d) = (map_of d)(k \<mapsto> v)"
proof (induction k v d rule: sorted_put.induct)
  case (2 k v k' v' rest)
  then show ?case by (auto simp: fun_eq_iff)
qed simp

lemma map_of_filter_key: "map_of (filter (\<lambda>(k, _). P k) d) x = (if P x then map_of d x else None)"
  by (induction d) auto

lemma sorted_filter_keys: "sorted_wrt (<) (map fst d) \<Longrightarrow> sorted_wrt (<) (map fst (filter P d))"
  by (simp add: sorted_wrt_map sorted_wrt_filter)

text \<open>
  \<open>E\<close> is the index of entities.  Positions after the earliest known one have the entities
  whose last change was there, and no others.
\<close>

definition index_ok :: "(int \<times> string list) list \<Rightarrow> (string \<Rightarrow> int option) \<Rightarrow> int \<Rightarrow> bool" where
  "index_ok cache E earliest \<longleftrightarrow> sorted_wrt (<) (map fst cache) \<and>
     (\<forall>k r. map_of cache k = Some r \<longrightarrow> earliest < k \<and> r \<noteq> []) \<and>
     (\<forall>e k. E e = Some k \<longleftrightarrow> (\<exists>r. map_of cache k = Some r \<and> e \<in> set r))"

lemma index_okI:
  assumes "sorted_wrt (<) (map fst cache)" and "\<And>k r. map_of cache k = Some r \<Longrightarrow> earliest < k"
    and "\<And>k r. map_of cache k = Some r \<Longrightarrow> r \<noteq> []"
    and "\<And>e k. E e = Some k \<longleftrightarrow> (\<exists>r. map_of cache k = Some r \<and> e \<in> set r)"
  shows "index_ok cache E earliest"
  unfolding index_ok_def using assms by blast

lemma index_okD:
  assumes "index_ok cache E earliest"
  shows "sorted_wrt (<) (map fst cache)" and "map_of cache k = Some r \<Longrightarrow> earliest < k"
    and "map_of cache k = Some r \<Longrightarrow> r \<noteq> []"
    and "E e = Some k \<longleftrightarrow> (\<exists>r. map_of cache k = Some r \<and> e \<in> set r)"
    and "E e = Some k \<Longrightarrow> earliest < k"
  using assms unfolding index_ok_def by blast+

lemma index_remove:
  assumes "index_ok cache E earliest" and "E entity = Some old"
  shows "\<exists>cache'. remove_old entity old cache = Inr cache' \<and> index_ok cache' (E(entity := None)) earliest"
proof -
  note D = index_okD [OF assms(1)]
  obtain r where r: "map_of cache old = Some r" "entity \<in> set r" using assms(2) D(4) by blast
  let ?r = "removeAll entity r"
  let ?c = "if ?r = [] then filter (\<lambda>(k, _). k \<noteq> old) cache else sorted_put old ?r cache"
  have "remove_old entity old cache = Inr ?c"
    using r by (simp add: remove_old_def dict_item_def Let_def)
  moreover have m: "map_of ?c k = (if k = old then if ?r = [] then None else Some ?r else map_of cache k)" for k
    using map_of_sorted_put [OF D(1)] by (simp add: map_of_filter_key)
  have "index_ok ?c (E(entity := None)) earliest"
  proof (rule index_okI)
    show "sorted_wrt (<) (map fst ?c)" using D(1) by (simp add: sorted_filter_keys sorted_sorted_put)
    show "earliest < k" if "map_of ?c k = Some r'" for k r' using that D(2) r m by (metis option.distinct(1))
    show "r' \<noteq> []" if "map_of ?c k = Some r'" for k r' using that D(3) m by (metis option.distinct(1) option.inject)
    show "(E(entity := None)) e = Some k \<longleftrightarrow> (\<exists>r. map_of ?c k = Some r \<and> e \<in> set r)" for e k
    proof (cases "k = old")
      case True
      have "(\<exists>r'. map_of ?c k = Some r' \<and> e \<in> set r') \<longleftrightarrow> e \<in> set ?r" unfolding m True by (cases "?r = []") (simp_all del: set_removeAll)
      then show ?thesis using D(4) [of e old] r True by auto
    next
      case False
      have "k \<noteq> old \<Longrightarrow> E entity \<noteq> Some k" using assms(2) by simp
      then show ?thesis unfolding m using D(4) [of e k] False by auto
    qed
  qed
  ultimately show ?thesis by blast
qed

lemma index_add:
  assumes "index_ok cache E earliest" and "E entity = None" and "earliest < pos"
  shows "index_ok (sorted_put pos (set_add entity (case map_of cache pos of None \<Rightarrow> [] | Some e1 \<Rightarrow> e1)) cache)
    (E(entity \<mapsto> pos)) earliest"
proof -
  note D = index_okD [OF assms(1)]
  let ?old = "case map_of cache pos of None \<Rightarrow> [] | Some e1 \<Rightarrow> e1"
  let ?c = "sorted_put pos (set_add entity ?old) cache"
  have m: "map_of ?c k = (if k = pos then Some (set_add entity ?old) else map_of cache k)" for k
    using map_of_sorted_put [OF D(1)] by simp
  have old: "e \<in> set ?old \<longleftrightarrow> E e = Some pos" for e using D(4) [of e pos] by (auto split: option.splits)
  show ?thesis
  proof (rule index_okI)
    show "sorted_wrt (<) (map fst ?c)" using D(1) by (rule sorted_sorted_put)
    show "earliest < k" if "map_of ?c k = Some r" for k r using that D(2) assms(3) m by (metis)
    show "r \<noteq> []" if "map_of ?c k = Some r" for k r
      using that D(3) m by (metis empty_iff insertI1 list.set(1) option.inject set_set_add)
    show "(E(entity \<mapsto> pos)) e = Some k \<longleftrightarrow> (\<exists>r. map_of ?c k = Some r \<and> e \<in> set r)" for e k
    proof (cases "k = pos")
      case True
      then show ?thesis unfolding m using old [of e] by auto
    next
      case False
      then show ?thesis unfolding m using D(4) [of e k] assms(2) by auto
    qed
  qed
qed

lemma evict_loop_ok:
  assumes "index_ok cache (map_of keys) earliest" and "0 \<le> max_size"
  shows "\<exists>cache' keys' earliest'. evict_loop max_size cache keys earliest = Inr (cache', keys', earliest') \<and>
    index_ok cache' (map_of keys') earliest' \<and> earliest \<le> earliest' \<and> int (length cache') \<le> max_size \<and>
    (\<forall>e k. map_of keys' e = Some k \<longleftrightarrow> map_of keys e = Some k \<and> earliest' < k)"
  using assms
proof (induction max_size cache keys earliest rule: evict_loop.induct)
  case (1 max_size keys earliest)
  then have "\<forall>e k. map_of keys e = Some k \<longrightarrow> earliest < k" using index_okD(5) by blast
  with 1 show ?case by auto
next
  case (2 max_size k r rest keys earliest)
  note D = index_okD [OF 2(2)]
  show ?case
  proof (cases "max_size < int (length ((k, r) # rest))")
    case False
    then have "evict_loop max_size ((k, r) # rest) keys earliest = Inr ((k, r) # rest, keys, earliest)" by simp
    then show ?thesis using 2(2) D(5) False by force
  next
    case True
    let ?keys = "filter (\<lambda>(e, _). e \<notin> set r) keys"
    have lt: "\<forall>x \<in> set (map fst rest). k < x" using D(1) by simp
    have "earliest < k" using D(2) [of k r] by simp
    then have mx: "max k earliest = k" by simp
    have m: "map_of ((k, r) # rest) x = (if x = k then Some r else map_of rest x)" for x by simp
    have rest: "map_of rest x = Some r' \<Longrightarrow> k < x" for x r' using lt by (force dest: map_of_SomeD)
    have inr: "e \<in> set r \<longleftrightarrow> map_of keys e = Some k" for e using D(4) [of e k] by simp
    have mk: "map_of ?keys e = (if e \<in> set r then None else map_of keys e)" for e by (simp add: map_of_filter_key)
    have "index_ok rest (map_of ?keys) k"
    proof (rule index_okI)
      show "sorted_wrt (<) (map fst rest)" using D(1) by simp
      show "k < x" if "map_of rest x = Some r'" for x r' using rest that .
      show "r' \<noteq> []" if "map_of rest x = Some r'" for x r' using D(3) [of x r'] rest [OF that] that m by simp
      show "map_of ?keys e = Some x \<longleftrightarrow> (\<exists>r'. map_of rest x = Some r' \<and> e \<in> set r')" for e x
        using D(4) [of e x] rest inr [of e] unfolding mk m by fastforce
    qed
    then have "index_ok rest (map_of ?keys) (max k earliest)" unfolding mx .
    from 2(1) [OF True this 2(3)]
    obtain cache' keys' earliest' where
      ev: "evict_loop max_size rest ?keys (max k earliest) = Inr (cache', keys', earliest')"
      and ix: "index_ok cache' (map_of keys') earliest'" and le: "max k earliest \<le> earliest'" "int (length cache') \<le> max_size"
      and ke: "\<forall>e x. map_of keys' e = Some x \<longleftrightarrow> map_of ?keys e = Some x \<and> earliest' < x"
      by blast
    have "map_of keys' e = Some x \<longleftrightarrow> map_of keys e = Some x \<and> earliest' < x" for e x
      using ke inr [of e] le(1) unfolding mk by fastforce
    with ev ix le True \<open>earliest < k\<close> show ?thesis by force
  qed
qed


section \<open>What the cache has been told\<close>

text \<open>
  \<open>H\<close> is the set of changes reported so far.  A change is at or before the earliest known
  position, or the entity has this or a later change on record.
\<close>

definition cache_ok :: "(string \<times> int) set \<Rightarrow> change_cache \<Rightarrow> bool" where
  "cache_ok H c \<longleftrightarrow>
     index_ok (cc_cache c) (map_of (cc_entity_to_key c)) (cc_earliest_known_stream_pos c) \<and>
     (\<forall>e k. map_of (cc_entity_to_key c) e = Some k \<longrightarrow> (e, k) \<in> H) \<and>
     (\<forall>e q. (e, q) \<in> H \<longrightarrow> q \<le> cc_earliest_known_stream_pos c \<or>
        (\<exists>k. map_of (cc_entity_to_key c) e = Some k \<and> q \<le> k)) \<and>
     0 \<le> cc_max_size c \<and> int (length (cc_cache c)) \<le> cc_max_size c"

lemma evict_ok:
  assumes "index_ok (cc_cache c) (map_of (cc_entity_to_key c)) (cc_earliest_known_stream_pos c)"
    and "\<And>e k. map_of (cc_entity_to_key c) e = Some k \<Longrightarrow> (e, k) \<in> H"
    and "\<And>e q. (e, q) \<in> H \<Longrightarrow> q \<le> cc_earliest_known_stream_pos c \<or>
        (\<exists>k. map_of (cc_entity_to_key c) e = Some k \<and> q \<le> k)"
    and "0 \<le> cc_max_size c"
  shows "\<exists>c'. evict c = Inr c' \<and> cache_ok H c' \<and> cc_earliest_known_stream_pos c \<le> cc_earliest_known_stream_pos c' \<and>
    cc_max_size c' = cc_max_size c"
proof -
  obtain cache' keys' earliest' where
    ev: "evict_loop (cc_max_size c) (cc_cache c) (cc_entity_to_key c) (cc_earliest_known_stream_pos c) =
      Inr (cache', keys', earliest')"
    and r: "index_ok cache' (map_of keys') earliest'" "cc_earliest_known_stream_pos c \<le> earliest'"
      "int (length cache') \<le> cc_max_size c"
      "\<forall>e k. map_of keys' e = Some k \<longleftrightarrow> map_of (cc_entity_to_key c) e = Some k \<and> earliest' < k"
    using evict_loop_ok [OF assms(1,4)] by blast
  let ?c = "c\<lparr>cc_cache := cache', cc_entity_to_key := keys', cc_earliest_known_stream_pos := earliest'\<rparr>"
  have "q \<le> earliest' \<or> (\<exists>k. map_of keys' e = Some k \<and> q \<le> k)" if "(e, q) \<in> H" for e q
    using assms(3) [OF that] r(2,4) by force
  then have "cache_ok H ?c" using r assms(2,4) by (simp add: cache_ok_def)
  moreover have "evict c = Inr ?c" by (simp add: evict_def ev)
  ultimately show ?thesis using r(2) by simp
qed

lemma entity_has_changed_ok:
  assumes "cache_ok H c"
  shows "\<exists>c'. entity_has_changed entity pos c = Inr c' \<and> cache_ok (insert (entity, pos) H) c' \<and>
    cc_earliest_known_stream_pos c \<le> cc_earliest_known_stream_pos c' \<and> cc_max_size c' = cc_max_size c"
proof -
  let ?E = "map_of (cc_entity_to_key c)" and ?ep = "cc_earliest_known_stream_pos c"
  note C = assms [unfolded cache_ok_def]
  have ix: "index_ok (cc_cache c) ?E ?ep" using C by blast
  show ?thesis
  proof (cases "pos \<le> ?ep \<or> (\<exists>k. ?E entity = Some k \<and> pos \<le> k)")
    case True
    then have "entity_has_changed entity pos c = Inr c"
      by (auto simp: entity_has_changed_def split: option.splits)
    moreover have "cache_ok (insert (entity, pos) H) c" using C True unfolding cache_ok_def by blast
    ultimately show ?thesis by simp
  next
    case False
    obtain cache where cache: "index_ok cache (?E(entity := None)) ?ep"
      and eq: "entity_has_changed entity pos c = evict (c\<lparr>
        cc_cache := sorted_put pos (set_add entity (case map_of cache pos of None \<Rightarrow> [] | Some e1 \<Rightarrow> e1)) cache,
        cc_entity_to_key := AList.update entity pos (cc_entity_to_key c)\<rparr>)" (is "_ = evict ?c")
    proof (cases "?E entity")
      case None
      then have "?E(entity := None) = ?E" by auto
      with None that [of "cc_cache c"] ix False show thesis by (simp add: entity_has_changed_def)
    next
      case (Some old)
      with index_remove [OF ix Some] that False show thesis by (auto simp: entity_has_changed_def)
    qed
    have E: "map_of (cc_entity_to_key ?c) = (?E(entity := None))(entity \<mapsto> pos)" by (simp add: update_conv')
    have "\<exists>c'. evict ?c = Inr c' \<and> cache_ok (insert (entity, pos) H) c' \<and>
        cc_earliest_known_stream_pos ?c \<le> cc_earliest_known_stream_pos c' \<and> cc_max_size c' = cc_max_size ?c"
    proof (rule evict_ok)
      show "index_ok (cc_cache ?c) (map_of (cc_entity_to_key ?c)) (cc_earliest_known_stream_pos ?c)"
        unfolding E using index_add [OF cache, of entity pos] False by simp
      show "(e, k) \<in> insert (entity, pos) H" if "map_of (cc_entity_to_key ?c) e = Some k" for e k
        using that C unfolding E by (auto split: if_splits)
      show "0 \<le> cc_max_size ?c" using C by simp
      show "q \<le> cc_earliest_known_stream_pos ?c \<or> (\<exists>k. map_of (cc_entity_to_key ?c) e = Some k \<and> q \<le> k)"
        if "(e, q) \<in> insert (entity, pos) H" for e q
      proof (cases "e = entity")
        case True
        then have "q = pos \<or> q \<le> ?ep \<or> (\<exists>k. ?E entity = Some k \<and> q \<le> k)" using that C by blast
        then have "q \<le> ?ep \<or> q \<le> pos" using False by auto
        then show ?thesis unfolding E True by simp
      next
        case False
        then have "(e, q) \<in> H" using that by simp
        then have "q \<le> ?ep \<or> (\<exists>k. ?E e = Some k \<and> q \<le> k)" using C by blast
        then show ?thesis unfolding E using False by simp
      qed
    qed
    then show ?thesis unfolding eq by simp
  qed
qed

text \<open>
  What the readers of the cache rely on: it accepts every report, and it says that an entity
  has changed since a position if a later change was reported.
\<close>

locale change_tracker =
  fixes knows :: "('e \<times> int) set \<Rightarrow> 'c \<Rightarrow> bool"
    and report :: "'e \<Rightarrow> int \<Rightarrow> 'c \<Rightarrow> 'c result"
    and changed :: "'e \<Rightarrow> int \<Rightarrow> 'c \<Rightarrow> bool"
  assumes report_knows: "knows H c \<Longrightarrow> \<exists>c'. report e q c = Inr c' \<and> knows (insert (e, q) H) c'"
    and changed_if_reported: "knows H c \<Longrightarrow> (e, q) \<in> H \<Longrightarrow> p < q \<Longrightarrow> changed e p c"
begin

lemma reports_known:
  "knows H c \<Longrightarrow> \<exists>c'. rfold (\<lambda>(e, q). report e q) changes c = Inr c' \<and> knows (H \<union> set changes) c'"
proof (induction changes arbitrary: H c)
  case (Cons ch changes)
  obtain e q where ch: "ch = (e, q)" by (cases ch)
  obtain c1 where c1: "report e q c = Inr c1" "knows (insert (e, q) H) c1"
    using report_knows [OF Cons.prems] by blast
  with Cons.IH [OF c1(2)] show ?case by (simp add: ch)
qed simp

lemma unchanged_no_later: "knows H c \<Longrightarrow> \<not> changed e p c \<Longrightarrow> (e, q) \<in> H \<Longrightarrow> q \<le> p"
  using changed_if_reported by (meson not_le)

lemma select_changed_keeps:
  "knows H c \<Longrightarrow> e \<in> set es \<Longrightarrow> (e, q) \<in> H \<Longrightarrow> p < q \<Longrightarrow> e \<in> set (filter (\<lambda>e. changed e p c) es)"
  using changed_if_reported by auto

end

lemma new_cache_ok:
  "0 \<le> max_size \<Longrightarrow> cache_ok {} \<lparr>cc_original_max_size = max_size, cc_max_size = max_size, cc_cache = [],
     cc_entity_to_key = [], cc_earliest_known_stream_pos = pos, cc_stray_max_size = None\<rparr>"
  by (simp add: cache_ok_def index_ok_def)


lemma cache_okD:
  assumes "cache_ok H c"
  shows "index_ok (cc_cache c) (map_of (cc_entity_to_key c)) (cc_earliest_known_stream_pos c)"
    and "map_of (cc_entity_to_key c) e = Some k \<Longrightarrow> (e, k) \<in> H"
    and "(e, q) \<in> H \<Longrightarrow> q \<le> cc_earliest_known_stream_pos c \<or> (\<exists>k. map_of (cc_entity_to_key c) e = Some k \<and> q \<le> k)"
    and "int (length (cc_cache c)) \<le> cc_max_size c"
  using assms unfolding cache_ok_def by blast+

lemma changed_sound:
  assumes "cache_ok H c" and "(e, q) \<in> H" and "p < q"
  shows "has_entity_changed e p c"
  using cache_okD(3) [OF assms(1,2)] assms(3) by (force simp: has_entity_changed_def)

text \<open>The state with the size limit it was made with.\<close>

interpretation tracker: change_tracker "\<lambda>H c. cache_ok H c \<and> cc_max_size c = n" entity_has_changed has_entity_changed for n
proof unfold_locales
  show "\<exists>c'. entity_has_changed e q c = Inr c' \<and> cache_ok (insert (e, q) H) c' \<and> cc_max_size c' = n"
    if "cache_ok H c \<and> cc_max_size c = n" for H c e q
    using entity_has_changed_ok [of H c e q] that by blast
  show "has_entity_changed e p c" if "cache_ok H c \<and> cc_max_size c = n" "(e, q) \<in> H" "p < q" for H c e q p
    using changed_sound that by blast
qed

lemma changed_exact:
  assumes "cache_ok H c" and "cc_earliest_known_stream_pos c < p"
  shows "has_entity_changed e p c \<longleftrightarrow> (\<exists>q. (e, q) \<in> H \<and> p < q)"
proof
  assume "has_entity_changed e p c"
  with assms(2) obtain k where "map_of (cc_entity_to_key c) e = Some k" "p < k"
    by (auto simp: has_entity_changed_def split: option.splits)
  then show "\<exists>q. (e, q) \<in> H \<and> p < q" using cache_okD(2) [OF assms(1)] by blast
next
  assume "\<exists>q. (e, q) \<in> H \<and> p < q"
  then show "has_entity_changed e p c" using changed_sound [OF assms(1)] by blast
qed

lemma sorted_map_of:
  "sorted_wrt (<) (map fst d) \<Longrightarrow> (k :: int, v) \<in> set d \<longleftrightarrow> map_of d k = Some v"
  using strict_sorted_iff [of "map fst d"] by auto

lemma all_changed_exact:
  assumes "cache_ok H c" and "get_all_entities_changed p c = Some es"
  shows "set es = {e. \<exists>q. (e, q) \<in> H \<and> p < q}"
proof -
  note ix = index_okD [OF cache_okD(1) [OF assms(1)]]
  have p: "cc_earliest_known_stream_pos c < p" and es: "es = concat (map snd (filter (\<lambda>(k, _). p < k) (cc_cache c)))"
    using assms(2) by (auto simp: get_all_entities_changed_def split: if_splits)
  have "e \<in> set es \<longleftrightarrow> (\<exists>k. map_of (cc_entity_to_key c) e = Some k \<and> p < k)" for e
    unfolding es using ix(4) sorted_map_of [OF ix(1)] by fastforce
  then have "e \<in> set es \<longleftrightarrow> has_entity_changed e p c" for e
    using p by (auto simp: has_entity_changed_def split: option.splits)
  then show ?thesis using changed_exact [OF assms(1) p] by blast
qed

lemma any_changed_sound:
  assumes "cache_ok H c" and "(e, q) \<in> H" and "p < q"
  shows "has_any_entity_changed p c"
proof (cases "p \<le> cc_earliest_known_stream_pos c")
  case False
  note ix = index_okD [OF cache_okD(1) [OF assms(1)]]
  from cache_okD(3) [OF assms(1,2)] False assms(3)
  obtain k where "map_of (cc_entity_to_key c) e = Some k" "p < k" by fastforce
  then obtain r where "(k, r) \<in> set (cc_cache c)" using ix(4) by (meson map_of_SomeD)
  then obtain ys zs where c: "cc_cache c = ys @ (k, r) # zs" by (meson split_list)
  then have "k \<le> fst (last (cc_cache c))"
    using ix(1) last_in_set [of zs] by (cases "zs = []") (auto simp: sorted_wrt_append dest!: bspec less_imp_le)
  with c \<open>p < k\<close> False show ?thesis by (simp add: has_any_entity_changed_def)
qed (simp add: has_any_entity_changed_def)

lemma any_changed_exact:
  assumes "cache_ok H c" and "cc_earliest_known_stream_pos c < p"
  shows "has_any_entity_changed p c \<longleftrightarrow> (\<exists>e q. (e, q) \<in> H \<and> p < q)"
proof
  assume any: "has_any_entity_changed p c"
  note ix = index_okD [OF cache_okD(1) [OF assms(1)]]
  obtain k r where l: "last (cc_cache c) = (k, r)" by fastforce
  with any assms(2) have "(k, r) \<in> set (cc_cache c)" and "p < k"
    using last_in_set [of "cc_cache c"] by (auto simp: has_any_entity_changed_def split: if_splits)
  then have "map_of (cc_cache c) k = Some r" using sorted_map_of [OF ix(1)] by blast
  then obtain e where "map_of (cc_entity_to_key c) e = Some k"
    using ix(3) [of k r] ix(4) by (metis list.set_intros(1) neq_Nil_conv)
  then show "\<exists>e q. (e, q) \<in> H \<and> p < q" using cache_okD(2) [OF assms(1)] \<open>p < k\<close> by blast
qed (use any_changed_sound [OF assms(1)] in blast)

lemma entities_changed_exact:
  assumes "cache_ok H c"
  shows "set (get_entities_changed es p c) = (if p \<le> cc_earliest_known_stream_pos c then set es
    else {e \<in> set es. \<exists>q. (e, q) \<in> H \<and> p < q})"
proof (cases "get_all_entities_changed p c")
  case None
  then have "p \<le> cc_earliest_known_stream_pos c" by (auto simp: get_all_entities_changed_def split: if_splits)
  with None show ?thesis by (simp add: get_entities_changed_def)
next
  case (Some changed)
  then have "\<not> p \<le> cc_earliest_known_stream_pos c" by (auto simp: get_all_entities_changed_def split: if_splits)
  with Some all_changed_exact [OF assms Some] show ?thesis by (auto simp: get_entities_changed_def)
qed

text \<open>
  C34.  The change cache never hides a change, whatever is reported to it, in whatever
  order, and however little it may remember.  With a size that is not negative no
  operation raises and the size is respected; an entity that was reported as changed after
  a position is said to have changed after it, and so is the stream as a whole; after the
  earliest known position the answers for single entities, for a list of entities and for
  the stream as a whole, and the list of all changed entities, are exact; before it every
  given entity is reported.
\<close>

theorem change_cache_exact:
  assumes "0 \<le> max_size"
  shows "\<exists>c0 c. StreamChangeCache current max_size prefilled = Inr c0 \<and>
    rfold (\<lambda>(entity, pos). entity_has_changed entity pos) changes c0 = Inr c \<and>
    int (length (cc_cache c)) \<le> max_size \<and>
    (\<forall>e q p. (e, q) \<in> set (prefilled @ changes) \<and> p < q \<longrightarrow>
       has_entity_changed e p c \<and> has_any_entity_changed p c \<and> e \<in> set (get_entities_changed [e] p c)) \<and>
    (\<forall>e p. has_entity_changed e p c \<and> cc_earliest_known_stream_pos c < p \<longrightarrow>
       (\<exists>q. (e, q) \<in> set (prefilled @ changes) \<and> p < q)) \<and>
    (\<forall>p es. get_all_entities_changed p c = Some es \<longrightarrow>
       set es = {e. \<exists>q. (e, q) \<in> set (prefilled @ changes) \<and> p < q}) \<and>
    (\<forall>p es. set (get_entities_changed es p c) = (if p \<le> cc_earliest_known_stream_pos c then set es
       else {e \<in> set es. \<exists>q. (e, q) \<in> set (prefilled @ changes) \<and> p < q})) \<and>
    (\<forall>p. cc_earliest_known_stream_pos c < p \<longrightarrow>
       has_any_entity_changed p c = (\<exists>e q. (e, q) \<in> set (prefilled @ changes) \<and> p < q))"
proof -
  obtain c0 where c0: "StreamChangeCache current max_size prefilled = Inr c0" "cache_ok (set prefilled) c0"
    "cc_max_size c0 = max_size"
    using tracker.reports_known [OF conjI [OF new_cache_ok [OF assms, of current]], of max_size prefilled]
    by (auto simp: StreamChangeCache_def)
  obtain c where c: "rfold (\<lambda>(entity, pos). entity_has_changed entity pos) changes c0 = Inr c"
    and ok: "cache_ok (set (prefilled @ changes)) c" and size: "cc_max_size c = max_size"
    using tracker.reports_known [OF conjI [OF c0(2,3)], of changes] by auto
  have ent: "e \<in> set (get_entities_changed [e] p c)" if "(e, q) \<in> set (prefilled @ changes)" "p < q" for e p q
    using that all_changed_exact [OF ok, of p] by (auto simp: get_entities_changed_def split: option.splits)
  show ?thesis
  proof (rule exI [of _ c0], rule exI [of _ c], intro conjI)
    show "int (length (cc_cache c)) \<le> max_size" using cache_okD(4) [OF ok] size by simp
    show "\<forall>e q p. (e, q) \<in> set (prefilled @ changes) \<and> p < q \<longrightarrow>
       has_entity_changed e p c \<and> has_any_entity_changed p c \<and> e \<in> set (get_entities_changed [e] p c)"
      using changed_sound [OF ok] any_changed_sound [OF ok] ent by blast
    show "\<forall>e p. has_entity_changed e p c \<and> cc_earliest_known_stream_pos c < p \<longrightarrow>
       (\<exists>q. (e, q) \<in> set (prefilled @ changes) \<and> p < q)"
      using changed_exact [OF ok] by blast
    show "\<forall>p es. get_all_entities_changed p c = Some es \<longrightarrow>
       set es = {e. \<exists>q. (e, q) \<in> set (prefilled @ changes) \<and> p < q}"
      using all_changed_exact [OF ok] by blast
    show "\<forall>p es. set (get_entities_changed es p c) = (if p \<le> cc_earliest_known_stream_pos c then set es
       else {e \<in> set es. \<exists>q. (e, q) \<in> set (prefilled @ changes) \<and> p < q})"
      using entities_changed_exact [OF ok] by blast
    show "\<forall>p. cc_earliest_known_stream_pos c < p \<longrightarrow>
       has_any_entity_changed p c = (\<exists>e q. (e, q) \<in> set (prefilled @ changes) \<and> p < q)"
      using any_changed_exact [OF ok] by blast
  qed (fact c0(1), fact c)
qed

theorem change_cache_exact_witness:
  "\<exists>c0 c. StreamChangeCache 5 1 [(''!a:x'', 7)] = Inr c0 \<and>
    rfold (\<lambda>(entity, pos). entity_has_changed entity pos) [(''!b:x'', 9)] c0 = Inr c \<and> has_entity_changed ''!a:x'' 6 c"
proof -
  have in_set: "(''!a:x'', 7 :: int) \<in> set ([(''!a:x'', 7)] @ [(''!b:x'', 9)]) \<and> 6 < (7 :: int)" by simp
  obtain c0 c where "StreamChangeCache 5 1 [(''!a:x'', 7)] = Inr c0"
    "rfold (\<lambda>(entity, pos). entity_has_changed entity pos) [(''!b:x'', 9)] c0 = Inr c"
    "\<forall>e q p. (e, q) \<in> set ([(''!a:x'', 7)] @ [(''!b:x'', 9)]) \<and> p < q \<longrightarrow>
       has_entity_changed e p c \<and> has_any_entity_changed p c \<and> e \<in> set (get_entities_changed [e] p c)"
    using change_cache_exact [of 1 5 "[(''!a:x'', 7)]" "[(''!b:x'', 9)]", OF zero_le_one] by blast
  with in_set show ?thesis by blast
qed

text \<open>
  C35.  Changing the cache factor never changes how much the cache holds: whatever the new
  factor, the size limit stays and nothing is evicted, although the call reports a change.
\<close>

theorem cache_factor_has_no_effect:
  assumes "cache_ok H c"
  shows "\<exists>b c'. set_cache_factor factor c = Inr (b, c') \<and> cc_max_size c' = cc_max_size c \<and> cc_cache c' = cc_cache c \<and>
    cc_entity_to_key c' = cc_entity_to_key c \<and> b = (\<lfloor>of_int (cc_original_max_size c) * factor\<rfloor> \<noteq> cc_max_size c)"
proof -
  have "evict_loop (cc_max_size c) (cc_cache c) (cc_entity_to_key c) (cc_earliest_known_stream_pos c) =
      Inr (cc_cache c, cc_entity_to_key c, cc_earliest_known_stream_pos c)"
    using cache_okD(4) [OF assms] by (cases "cc_cache c") (auto split: prod.splits)
  then show ?thesis by (simp add: set_cache_factor_def Let_def evict_def)
qed

theorem cache_factor_has_no_effect_witness:
  "\<exists>c'. set_cache_factor (1 / 2) \<lparr>cc_original_max_size = 10, cc_max_size = 10, cc_cache = [], cc_entity_to_key = [],
     cc_earliest_known_stream_pos = 5, cc_stray_max_size = None\<rparr> = Inr (True, c') \<and> cc_max_size c' = 10"
proof -
  have "cache_ok {} \<lparr>cc_original_max_size = 10, cc_max_size = 10, cc_cache = [], cc_entity_to_key = [],
     cc_earliest_known_stream_pos = 5, cc_stray_max_size = None\<rparr>" by (rule new_cache_ok) simp
  from cache_factor_has_no_effect [OF this, of "1 / 2"] show ?thesis by auto
qed

end
