(* ===== verification/Events_Worker.thy ===== *)
theory Events_Worker
  imports Events Identifiers
begin

text \<open>
  Loading events by their IDs (\<^verbatim>\<open>synapse/storage/databases/main/events_worker.py\<close>).

  The state is the entries in memory (the cache, and those that are rebuilt from references
  to events still in use) and the entries that \<^verbatim>\<open>_get_events_from_db\<close> builds from the
  rows of the database.  Entries are shared objects: what a function changes in an event is
  changed in memory.  Waiting for a fetch that another call has begun gives the same entries
  as fetching them, entries are not evicted during a call, and what
  \<^verbatim>\<open>_get_events_from_db\<close> returns beyond the requested events is not used.
\<close>

record event_cache_entry =
  ece_event :: event
  ece_redacted_event :: "event option"

type_synonym entry_map = "(string \<times> event_cache_entry) list"

datatype event_redact_behaviour = AsIs | Redact | Block

record event_store =
  es_memory :: entry_map
  es_db :: entry_map

section \<open>Fetching entries\<close>

text \<open>\<^verbatim>\<open>if event.rejected_reason\<close>.\<close>

definition is_rejected :: "event \<Rightarrow> bool" where
  "is_rejected e \<longleftrightarrow> ev_rejected_reason e \<noteq> None \<and> ev_rejected_reason e \<noteq> Some []"

definition found_in :: "entry_map \<Rightarrow> string list \<Rightarrow> entry_map" where
  "found_in entries ids = List.map_filter (\<lambda>i. map_option (Pair i) (map_of entries i)) (remdups ids)"

definition get_unredacted_events_from_cache_or_db ::
  "event_store \<Rightarrow> string list \<Rightarrow> bool \<Rightarrow> entry_map \<times> event_store" where
  "get_unredacted_events_from_cache_or_db es event_ids allow_rejected =
     (let event_entry_map = found_in (es_memory es) event_ids;
          missing_events_ids = filter (\<lambda>e. \<not> dict_has event_entry_map e) event_ids;
          missing_events = found_in (es_db es) missing_events_ids;
          entries = dict_update event_entry_map missing_events
      in (if allow_rejected then entries else filter (\<lambda>(_, entry). \<not> is_rejected (ece_event entry)) entries,
          es\<lparr>es_memory := dict_update (es_memory es) missing_events\<rparr>))"

section \<open>Loading events\<close>

text \<open>An assignment to an attribute of the event, or of the redacted event, of an entry.\<close>

definition put_event :: "string \<Rightarrow> bool \<Rightarrow> event \<Rightarrow> event_store \<Rightarrow> event_store" where
  "put_event event_id of_redacted e es =
     (case map_of (es_memory es) event_id of
        None \<Rightarrow> es
      | Some entry \<Rightarrow> es\<lparr>es_memory := AList.update event_id
          (if of_redacted then entry\<lparr>ece_redacted_event := Some e\<rparr> else entry\<lparr>ece_event := e\<rparr>) (es_memory es)\<rparr>)"

text \<open>
  The check of a redaction: \<open>None\<close> where the loop continues with the next event.  No event has
  an ID that is a number; a list or an object cannot be looked up at all.
\<close>

definition recheck_redaction ::
  "string \<Rightarrow> event \<Rightarrow> event_store \<Rightarrow> (event option \<times> event_store) result" where
  "recheck_redaction event_id e es =
     (case redacts_of e of
        JStr redacted_event_id \<Rightarrow>
          (case get_unredacted_events_from_cache_or_db es [redacted_event_id] False of (event_map, es') \<Rightarrow>
             (case map_of event_map redacted_event_id of
                None \<Rightarrow> Inr (None, es')
              | Some original_event_entry \<Rightarrow>
                  (let original_event = ece_event original_event_entry
                   in if ev_type original_event = EventTypes_Create then Inr (None, es')
                      else if ev_room_id original_event \<noteq> ev_room_id e then Inr (None, es')
                      else if ev_recheck_redaction e then
                        rbind (get_domain_from_id (ev_sender original_event)) (\<lambda>original_domain.
                        rbind (get_domain_from_id (ev_sender e)) (\<lambda>redaction_domain.
                        if original_domain \<noteq> redaction_domain then Inr (None, es')
                        else let e' = e\<lparr>ev_recheck_redaction := False\<rparr>
                             in Inr (Some e', put_event event_id False e' es')))
                      else Inr (Some e, es'))))
      | JList _ \<Rightarrow> Inl PyTypeError
      | JObj _ \<Rightarrow> Inl PyTypeError
      | _ \<Rightarrow> Inr (None, es))"

definition event_of_entry ::
  "event_redact_behaviour \<Rightarrow> bool \<Rightarrow> string \<Rightarrow> event_cache_entry \<Rightarrow> event_store
     \<Rightarrow> ((bool \<times> event) option \<times> event_store) result" where
  "event_of_entry redact_behaviour allow_rejected event_id entry es =
     rbind (guard_raise (\<not> allow_rejected \<and> is_rejected (ece_event entry)) PyAssertionError) (\<lambda>_.
     rbind (if \<not> allow_rejected \<and> ev_type (ece_event entry) = EventTypes_Redaction
            then recheck_redaction event_id (ece_event entry) es
            else Inr (Some (ece_event entry), es)) (\<lambda>(checked, es').
     Inr (case checked of
            None \<Rightarrow> None
          | Some e \<Rightarrow>
              (case ece_redacted_event entry of
                 None \<Rightarrow> Some (False, e)
               | Some redacted \<Rightarrow>
                   (case redact_behaviour of
                      Block \<Rightarrow> None | Redact \<Rightarrow> Some (True, redacted) | AsIs \<Rightarrow> Some (False, e))), es')))"

text \<open>
  The loop over the IDs.  The dict says which entries were found, and their current state is
  in memory.  \<open>prev_content\<close> is what is done under \<^verbatim>\<open>if get_prev_content\<close>.
\<close>

type_synonym prev_content_step =
  "string \<Rightarrow> bool \<Rightarrow> event \<Rightarrow> event_store \<Rightarrow> (event \<times> event_store) result"

fun load_events ::
  "event_redact_behaviour \<Rightarrow> bool \<Rightarrow> prev_content_step \<Rightarrow> entry_map \<Rightarrow> string list \<Rightarrow> event_store
     \<Rightarrow> (event list \<times> event_store) result" where
  "load_events redact_behaviour allow_rejected prev_content entries [] es = Inr ([], es)"
| "load_events redact_behaviour allow_rejected prev_content entries (event_id # event_ids) es =
     (case if dict_has entries event_id then map_of (es_memory es) event_id else None of
        None \<Rightarrow> load_events redact_behaviour allow_rejected prev_content entries event_ids es
      | Some entry \<Rightarrow>
          rbind (event_of_entry redact_behaviour allow_rejected event_id entry es) (\<lambda>(loaded, es1).
          case loaded of
            None \<Rightarrow> load_events redact_behaviour allow_rejected prev_content entries event_ids es1
          | Some (of_redacted, e) \<Rightarrow>
              rbind (prev_content event_id of_redacted e es1) (\<lambda>(e', es2).
              rbind (load_events redact_behaviour allow_rejected prev_content entries event_ids es2) (\<lambda>(events, es3).
              Inr (e' # events, es3)))))"

definition load_by_id ::
  "event_redact_behaviour \<Rightarrow> bool \<Rightarrow> prev_content_step \<Rightarrow> string list \<Rightarrow> event_store
     \<Rightarrow> (event list \<times> event_store) result" where
  "load_by_id redact_behaviour allow_rejected prev_content event_ids es =
     (if event_ids = [] then Inr ([], es)
      else case get_unredacted_events_from_cache_or_db es (remdups event_ids) allow_rejected of (entries, es') \<Rightarrow>
        load_events redact_behaviour allow_rejected prev_content entries event_ids es')"

definition no_prev_content :: prev_content_step where
  "no_prev_content event_id of_redacted e es = Inr (e, es)"

text \<open>\<^verbatim>\<open>get_event\<close> with \<^verbatim>\<open>get_prev_content\<close> false; the ID may be any value.\<close>

definition get_stored_event ::
  "json \<Rightarrow> event_redact_behaviour \<Rightarrow> bool \<Rightarrow> bool \<Rightarrow> string option \<Rightarrow> event_store
     \<Rightarrow> (event option \<times> event_store) result" where
  "get_stored_event event_id redact_behaviour allow_rejected allow_none check_room_id es =
     (case event_id of
        JStr i \<Rightarrow>
          rbind (load_by_id redact_behaviour allow_rejected no_prev_content [i] es) (\<lambda>(events, es').
          let found = (case events of [] \<Rightarrow> None | e # _ \<Rightarrow> Some e);
              event = (case (found, check_room_id) of
                         (Some e, Some room_id) \<Rightarrow> if ev_room_id e \<noteq> room_id then None else Some e
                       | _ \<Rightarrow> found)
          in if event = None \<and> \<not> allow_none then Inl (SynapseError 404 ''Could not find event %s'' NOT_FOUND)
             else Inr (event, es'))
      | _ \<Rightarrow> Inl PyTypeError)"

definition add_prev_content :: prev_content_step where
  "add_prev_content event_id of_redacted e es =
     (case map_of (ev_unsigned e) ''replaces_state'' of
        None \<Rightarrow> Inr (e, es)
      | Some replaced \<Rightarrow>
          rbind (get_stored_event replaced Redact False True None es) (\<lambda>(prev, es').
          case prev of
            None \<Rightarrow> Inr (e, es')
          | Some p \<Rightarrow>
              let e' = e\<lparr>ev_unsigned := AList.update ''prev_sender'' (JStr (ev_sender p))
                          (AList.update ''prev_content'' (JObj (ev_content p)) (ev_unsigned e))\<rparr>
              in Inr (e', put_event event_id of_redacted e' es')))"

definition get_events_as_list ::
  "string list \<Rightarrow> event_redact_behaviour \<Rightarrow> bool \<Rightarrow> bool \<Rightarrow> event_store \<Rightarrow> (event list \<times> event_store) result" where
  "get_events_as_list event_ids redact_behaviour get_prev_content allow_rejected es =
     load_by_id redact_behaviour allow_rejected
       (if get_prev_content then add_prev_content else no_prev_content) event_ids es"

section \<open>What is served\<close>

text \<open>The entry behind an ID.\<close>

definition entry_of :: "event_store \<Rightarrow> string \<Rightarrow> event_cache_entry option" where
  "entry_of es i = (case map_of (es_memory es) i of Some entry \<Rightarrow> Some entry | None \<Rightarrow> map_of (es_db es) i)"

text \<open>
  A redaction is withheld unless its target is known, not rejected, not a create event and
  in the same room, and, if that is still to be checked, was sent from the same server.
\<close>

definition withheld :: "event_store \<Rightarrow> event \<Rightarrow> bool" where
  "withheld es e \<longleftrightarrow> ev_type e = EventTypes_Redaction \<and>
     \<not> (\<exists>r target. redacts_of e = JStr r \<and> entry_of es r = Some target \<and>
          \<not> is_rejected (ece_event target) \<and> ev_type (ece_event target) \<noteq> EventTypes_Create \<and>
          ev_room_id (ece_event target) = ev_room_id e \<and>
          (ev_recheck_redaction e \<longrightarrow>
             get_domain_from_id (ev_sender (ece_event target)) = get_domain_from_id (ev_sender e)))"

definition served :: "event_store \<Rightarrow> string \<Rightarrow> event option" where
  "served es i =
     (case entry_of es i of
        None \<Rightarrow> None
      | Some entry \<Rightarrow>
          if is_rejected (ece_event entry) \<or> withheld es (ece_event entry) then None
          else Some (case ece_redacted_event entry of Some redacted \<Rightarrow> redacted | None \<Rightarrow> ece_event entry))"

text \<open>An event without what loading it may change.\<close>

definition core :: "event \<Rightarrow> event" where
  "core e = e\<lparr>ev_unsigned := filter (\<lambda>(k, _). k \<notin> {''prev_content'', ''prev_sender''}) (ev_unsigned e),
     ev_recheck_redaction := False\<rparr>"

definition entry_core :: "event_cache_entry \<Rightarrow> event \<times> event option" where
  "entry_core entry = (core (ece_event entry), map_option core (ece_redacted_event entry))"

text \<open>
  What keeps loading from raising: senders have a server name, the target of a redaction
  is not a list or an object, and the ID of a replaced state event is a string.
\<close>

definition loadable_event :: "event \<Rightarrow> bool" where
  "loadable_event e \<longleftrightarrow> is_ok (get_domain_from_id (ev_sender e)) \<and>
     (case redacts_of e of JList _ \<Rightarrow> False | JObj _ \<Rightarrow> False | _ \<Rightarrow> True) \<and>
     (case map_of (ev_unsigned e) ''replaces_state'' of None \<Rightarrow> True | Some (JStr _) \<Rightarrow> True | _ \<Rightarrow> False)"

definition loadable :: "event_store \<Rightarrow> bool" where
  "loadable es = list_all (\<lambda>(_, entry). loadable_event (ece_event entry) \<and>
     (case ece_redacted_event entry of None \<Rightarrow> True | Some redacted \<Rightarrow> loadable_event redacted)) (es_memory es @ es_db es)"

section \<open>Fetching keeps the entries\<close>

lemma found_in_map: "map_of (found_in entries ids) i = (if i \<in> set ids then map_of entries i else None)"
proof -
  have "map_of (List.map_filter (\<lambda>i. map_option (Pair i) (map_of entries i)) ids) i =
      (if i \<in> set ids then map_of entries i else None)" for ids
    by (induction ids) (auto simp: List.map_filter_simps split: option.splits)
  then show ?thesis by (simp add: found_in_def)
qed

lemma found_in_distinct: "distinct (map fst (found_in entries ids))"
proof -
  have "set (map fst (List.map_filter (\<lambda>i. map_option (Pair i) (map_of entries i)) ids)) \<subseteq> set ids" for ids
    by (induction ids) (auto simp: List.map_filter_simps split: option.splits)
  then have "distinct ids \<Longrightarrow> distinct (map fst (List.map_filter (\<lambda>i. map_option (Pair i) (map_of entries i)) ids))" for ids
    by (induction ids) (fastforce simp: List.map_filter_simps split: option.splits)+
  then show ?thesis by (simp add: found_in_def)
qed

text \<open>Everything in memory stays there.\<close>

definition grows :: "event_store \<Rightarrow> event_store \<Rightarrow> bool" where
  "grows es es' \<longleftrightarrow> (\<forall>i. dict_has (es_memory es) i \<longrightarrow> dict_has (es_memory es') i)"

lemma grows_refl [simp]: "grows es es"
  by (simp add: grows_def)

lemma grows_trans [trans]: "grows a b \<Longrightarrow> grows b c \<Longrightarrow> grows a c"
  by (simp add: grows_def)

lemma fetched:
  assumes "get_unredacted_events_from_cache_or_db es ids allow_rejected = (entries, es')"
  shows "entry_of es' = entry_of es" and "grows es es'"
    and "map_of entries i = (if i \<in> set ids then (case entry_of es i of None \<Rightarrow> None
      | Some entry \<Rightarrow> if allow_rejected \<or> \<not> is_rejected (ece_event entry) then Some entry else None) else None)"
    and "map_of entries i = Some entry \<Longrightarrow> map_of (es_memory es') i = Some entry"
proof -
  let ?m = "found_in (es_memory es) ids"
  let ?f = "found_in (es_db es) (filter (\<lambda>e. \<not> dict_has ?m e) ids)"
  have mem: "es' = es\<lparr>es_memory := dict_update (es_memory es) ?f\<rparr>"
    and en: "entries = (if allow_rejected then dict_update ?m ?f
      else filter (\<lambda>kv. \<not> is_rejected (ece_event (snd kv))) (dict_update ?m ?f))"
    using assms by (auto simp: get_unredacted_events_from_cache_or_db_def Let_def case_prod_unfold)
  have f: "map_of ?f j = (if j \<in> set ids \<and> map_of (es_memory es) j = None then map_of (es_db es) j else None)" for j
    by (auto simp: found_in_map dict_has_def)
  have mem': "map_of (es_memory es') j =
      (if j \<in> set ids then entry_of es j else map_of (es_memory es) j)" for j
    by (auto simp: mem map_of_dict_update_distinct [OF found_in_distinct] map_add_def f entry_of_def split: option.splits)
  then show "entry_of es' = entry_of es" "grows es es'"
    by (auto simp: entry_of_def fun_eq_iff mem grows_def dict_has_def split: option.splits)
  have "map_of (dict_update ?m ?f) j = (if j \<in> set ids then entry_of es j else None)" for j
    unfolding map_of_dict_update_distinct [OF found_in_distinct] map_add_def f
    by (auto simp: found_in_map entry_of_def split: option.splits)
  then show i: "map_of entries i = (if i \<in> set ids then (case entry_of es i of None \<Rightarrow> None
      | Some entry \<Rightarrow> if allow_rejected \<or> \<not> is_rejected (ece_event entry) then Some entry else None) else None)"
    using map_of_filter_snd [OF distinct_dict_update [OF found_in_distinct],
        of "\<lambda>en. \<not> is_rejected (ece_event en)" "es_memory es" ids ?f i]
    by (auto simp: en split: option.splits)
  show "map_of (es_memory es') i = Some entry" if "map_of entries i = Some entry"
    using that i mem' [of i] by (auto split: if_splits option.splits)
qed

section \<open>Loading keeps what is served\<close>

lemma core_fields [simp]:
  "ev_type (core e) = ev_type e" "ev_sender (core e) = ev_sender e" "ev_room_id (core e) = ev_room_id e"
  "ev_rejected_reason (core e) = ev_rejected_reason e" "redacts_of (core e) = redacts_of e"
  "core (e\<lparr>ev_recheck_redaction := b\<rparr>) = core e"
  "map_of (ev_unsigned (core e)) ''replaces_state'' = map_of (ev_unsigned e) ''replaces_state''"
proof -
  have "map_of (filter (\<lambda>(k, _). k \<notin> {''prev_content'', ''prev_sender''}) d) ''replaces_state'' = map_of d ''replaces_state''"
    for d :: json_obj by (induction d) auto
  then show "map_of (ev_unsigned (core e)) ''replaces_state'' = map_of (ev_unsigned e) ''replaces_state''"
    by (simp add: core_def)
qed (simp_all add: core_def redacts_of_def)

lemma core_cong:
  assumes "core e = core e'"
  shows "ev_type e = ev_type e'" "ev_sender e = ev_sender e'" "ev_room_id e = ev_room_id e'"
    "is_rejected e = is_rejected e'" "redacts_of e = redacts_of e'" "loadable_event e = loadable_event e'"
proof -
  have f: "f e = f e'" if "\<And>e. f (core e) = f e" for f :: "event \<Rightarrow> 'a"
    using that [of e] that [of e'] assms by simp
  show "ev_type e = ev_type e'" "ev_sender e = ev_sender e'" "ev_room_id e = ev_room_id e'"
    "is_rejected e = is_rejected e'" "redacts_of e = redacts_of e'" "loadable_event e = loadable_event e'"
    by (rule f, simp add: is_rejected_def loadable_event_def)+
qed

lemma core_prev:
  "core (e\<lparr>ev_unsigned := AList.update ''prev_sender'' a (AList.update ''prev_content'' b (ev_unsigned e))\<rparr>) = core e"
proof -
  have "filter (\<lambda>(k, _). k \<notin> {''prev_content'', ''prev_sender''}) (AList.update x v d) =
      filter (\<lambda>(k, _). k \<notin> {''prev_content'', ''prev_sender''}) d"
    if "x \<in> {''prev_content'', ''prev_sender''}" for x v and d :: json_obj
    using that by (induction d) auto
  then show ?thesis by (simp add: core_def)
qed

text \<open>A store that differs from the first only in what loading may change.\<close>

definition kept :: "event_store \<Rightarrow> event_store \<Rightarrow> bool" where
  "kept es0 es \<longleftrightarrow> loadable es0 \<and>
     (\<forall>i. map_option entry_core (entry_of es i) = map_option entry_core (entry_of es0 i)) \<and>
     (\<forall>i entry entry0. entry_of es i = Some entry \<longrightarrow> entry_of es0 i = Some entry0 \<longrightarrow>
        withheld es0 (ece_event entry) = withheld es0 (ece_event entry0))"

lemma keptD:
  assumes "kept es0 es" and "entry_of es i = Some entry"
  obtains entry0 where "entry_of es0 i = Some entry0" "core (ece_event entry) = core (ece_event entry0)"
    "map_option core (ece_redacted_event entry) = map_option core (ece_redacted_event entry0)"
    "withheld es0 (ece_event entry) = withheld es0 (ece_event entry0)"
proof -
  have "map_option entry_core (entry_of es i) = map_option entry_core (entry_of es0 i)"
    using assms(1) unfolding kept_def by blast
  then obtain entry0 where e: "entry_of es0 i = Some entry0" "entry_core entry0 = entry_core entry"
    using assms(2) by (cases "entry_of es0 i") auto
  moreover have "withheld es0 (ece_event entry) = withheld es0 (ece_event entry0)"
    using assms e(1) unfolding kept_def by blast
  ultimately show ?thesis using that by (simp add: entry_core_def)
qed

lemma kept_loadable:
  assumes "kept es0 es" and "entry_of es i = Some entry"
  shows "loadable_event (ece_event entry)"
    and "ece_redacted_event entry = Some redacted \<Longrightarrow> loadable_event redacted"
proof -
  from keptD [OF assms] obtain entry0 where e: "entry_of es0 i = Some entry0"
    "core (ece_event entry) = core (ece_event entry0)"
    "map_option core (ece_redacted_event entry) = map_option core (ece_redacted_event entry0)" by blast
  have "(i, entry0) \<in> set (es_memory es0 @ es_db es0)"
    using e(1) by (auto simp: entry_of_def split: option.splits dest: map_of_SomeD)
  then have l: "loadable_event (ece_event entry0)"
    "\<And>red. ece_redacted_event entry0 = Some red \<Longrightarrow> loadable_event red"
    using assms(1) unfolding kept_def loadable_def list_all_iff by fastforce+
  show "loadable_event (ece_event entry)" using l(1) core_cong(6) [OF e(2)] by simp
  assume "ece_redacted_event entry = Some redacted"
  with e(3) obtain red where "ece_redacted_event entry0 = Some red" "core redacted = core red"
    by (cases "ece_redacted_event entry0") auto
  then show "loadable_event redacted" using l(2) core_cong(6) by blast
qed

lemma kept_withheld:
  assumes "kept es0 es"
  shows "withheld es e = withheld es0 e"
proof -
  have "(\<exists>t. entry_of es r = Some t \<and> P (core (ece_event t))) \<longleftrightarrow>
      (\<exists>t. entry_of es0 r = Some t \<and> P (core (ece_event t)))" for r P
  proof -
    have "map_option entry_core (entry_of es r) = map_option entry_core (entry_of es0 r)"
      using assms unfolding kept_def by blast
    then show ?thesis by (cases "entry_of es r"; cases "entry_of es0 r") (simp_all add: entry_core_def)
  qed
  from this [of _ "\<lambda>t. \<not> is_rejected t \<and> ev_type t \<noteq> EventTypes_Create \<and> ev_room_id t = ev_room_id e \<and>
      (ev_recheck_redaction e \<longrightarrow> get_domain_from_id (ev_sender t) = get_domain_from_id (ev_sender e))"]
  have "(\<exists>t. entry_of es r = Some t \<and> \<not> is_rejected (ece_event t) \<and>
      ev_type (ece_event t) \<noteq> EventTypes_Create \<and> ev_room_id (ece_event t) = ev_room_id e \<and>
      (ev_recheck_redaction e \<longrightarrow> get_domain_from_id (ev_sender (ece_event t)) = get_domain_from_id (ev_sender e))) \<longleftrightarrow>
    (\<exists>t. entry_of es0 r = Some t \<and> \<not> is_rejected (ece_event t) \<and>
      ev_type (ece_event t) \<noteq> EventTypes_Create \<and> ev_room_id (ece_event t) = ev_room_id e \<and>
      (ev_recheck_redaction e \<longrightarrow> get_domain_from_id (ev_sender (ece_event t)) = get_domain_from_id (ev_sender e)))" for r
    by (simp add: is_rejected_def)
  then show ?thesis unfolding withheld_def by (simp only: ex_simps)
qed

lemma kept_accepted:
  assumes "kept es0 es"
  shows "(\<exists>entry. entry_of es i = Some entry \<and> \<not> is_rejected (ece_event entry)) \<longleftrightarrow>
    (\<exists>entry. entry_of es0 i = Some entry \<and> \<not> is_rejected (ece_event entry))"
proof -
  have "map_option entry_core (entry_of es i) = map_option entry_core (entry_of es0 i)"
    using assms unfolding kept_def by blast
  then show ?thesis
    by (cases "entry_of es i"; cases "entry_of es0 i") (auto simp: entry_core_def dest: core_cong(4))
qed

lemma kept_fetch:
  assumes "kept es0 es" and "entry_of es' = entry_of es"
  shows "kept es0 es'"
  using assms by (simp add: kept_def)

text \<open>Changing an event of an entry in memory.\<close>

lemma put_event_entry:
  assumes "map_of (es_memory es) i = Some entry"
  shows "entry_of (put_event i of_redacted e es) = (entry_of es)(i \<mapsto>
      (if of_redacted then entry\<lparr>ece_redacted_event := Some e\<rparr> else entry\<lparr>ece_event := e\<rparr>))"
    and "grows es (put_event i of_redacted e es)"
  using assms by (auto simp: put_event_def entry_of_def fun_eq_iff update_conv' grows_def dict_has_def split: option.splits)

lemma kept_put:
  assumes "kept es0 es" and "map_of (es_memory es) i = Some entry"
    and "if of_redacted then map_option core (ece_redacted_event entry) = Some (core e)
      else core e = core (ece_event entry) \<and> withheld es0 e = withheld es0 (ece_event entry)"
  shows "kept es0 (put_event i of_redacted e es)"
proof -
  have i: "entry_of es i = Some entry" using assms(2) by (simp add: entry_of_def)
  from keptD [OF assms(1) i] obtain entry0 where e0: "entry_of es0 i = Some entry0"
    "core (ece_event entry) = core (ece_event entry0)"
    "map_option core (ece_redacted_event entry) = map_option core (ece_redacted_event entry0)"
    "withheld es0 (ece_event entry) = withheld es0 (ece_event entry0)" .
  show ?thesis
    using assms(1,3) e0 unfolding kept_def put_event_entry(1) [OF assms(2)]
    by (auto simp: entry_core_def)
qed

lemma fetched_in_memory:
  assumes "get_unredacted_events_from_cache_or_db es ids allow_rejected = (entries, es')"
    and "map_of (es_memory es) i = Some entry"
  shows "map_of (es_memory es') i = Some entry"
proof -
  have "dict_has (es_memory es') i" using fetched(2) [OF assms(1)] assms(2) by (simp add: grows_def dict_has_def)
  then show ?thesis
    using fun_cong [OF fetched(1) [OF assms(1)], of i] assms(2) by (auto simp: entry_of_def dict_has_def)
qed

text \<open>The event of an entry in memory, or its redacted event.\<close>

definition object :: "event_store \<Rightarrow> string \<Rightarrow> bool \<Rightarrow> event option" where
  "object es i of_redacted = Option.bind (map_of (es_memory es) i)
     (\<lambda>entry. if of_redacted then ece_redacted_event entry else Some (ece_event entry))"

lemma recheck_redaction_eq:
  assumes "kept es0 es" and "loadable_event e" and "ev_type e = EventTypes_Redaction" and r: "redacts_of e = JStr r"
    and m: "get_unredacted_events_from_cache_or_db es [r] False = (entries, es1)"
  shows "recheck_redaction i e es = Inr (if withheld es e then (None, es1)
    else if ev_recheck_redaction e
      then (Some (e\<lparr>ev_recheck_redaction := False\<rparr>), put_event i False (e\<lparr>ev_recheck_redaction := False\<rparr>) es1)
    else (Some e, es1))"
proof (cases "map_of entries r")
  case None
  then have "withheld es e"
    using fetched(3) [OF m, of r] assms(3) r by (auto simp: withheld_def split: option.splits if_splits)
  with None show ?thesis by (simp add: recheck_redaction_def r m)
next
  case (Some target)
  let ?o = "ece_event target"
  have t: "entry_of es r = Some target" "\<not> is_rejected ?o"
    using fetched(3) [OF m, of r] Some by (auto split: option.splits if_splits)
  then have w: "withheld es e \<longleftrightarrow> ev_type ?o = EventTypes_Create \<or> ev_room_id ?o \<noteq> ev_room_id e \<or>
      ev_recheck_redaction e \<and> get_domain_from_id (ev_sender ?o) \<noteq> get_domain_from_id (ev_sender e)"
    using assms(3) r by (auto simp: withheld_def)
  obtain d d' where "get_domain_from_id (ev_sender ?o) = Inr d" "get_domain_from_id (ev_sender e) = Inr d'"
    using kept_loadable(1) [OF assms(1) t(1)] assms(2) by (simp add: loadable_event_def is_ok_iff) blast
  with w show ?thesis by (auto simp: recheck_redaction_def r m Some Let_def)
qed

lemma recheck_redaction_kept:
  assumes "kept es0 es" and mem: "map_of (es_memory es) i = Some entry"
    and e: "e = ece_event entry" "ev_type e = EventTypes_Redaction"
  shows "\<exists>x es'. recheck_redaction i e es = Inr (x, es') \<and> kept es0 es' \<and> grows es es' \<and>
    (x = None \<longleftrightarrow> withheld es0 e) \<and> (\<forall>e'. x = Some e' \<longrightarrow>
      map_of (es_memory es') i = Some (entry\<lparr>ece_event := e'\<rparr>))"
proof (cases "\<exists>r. redacts_of e = JStr r")
  case False
  have "loadable_event e" using kept_loadable(1) [OF assms(1), of i entry] mem e(1) by (simp add: entry_of_def)
  with False have "recheck_redaction i e es = Inr (None, es)"
    by (auto simp: recheck_redaction_def loadable_event_def split: json.splits)
  moreover have "withheld es0 e" using False e(2) by (simp add: withheld_def)
  ultimately show ?thesis using assms(1) by simp
next
  case True
  then obtain r where r: "redacts_of e = JStr r" by blast
  obtain m es1 where m: "get_unredacted_events_from_cache_or_db es [r] False = (m, es1)" by fastforce
  have k: "kept es0 es1" and g: "grows es es1" using kept_fetch [OF assms(1)] fetched(1,2) [OF m] by blast+
  have mem1: "map_of (es_memory es1) i = Some entry" using fetched_in_memory [OF m mem] .
  have l: "loadable_event e" using kept_loadable(1) [OF assms(1), of i entry] mem e(1) by (simp add: entry_of_def)
  note eq = recheck_redaction_eq [OF assms(1) l e(2) r m, of i, unfolded kept_withheld [OF assms(1)]]
  show ?thesis
  proof (cases "\<not> withheld es0 e \<and> ev_recheck_redaction e")
    case True
    let ?e' = "e\<lparr>ev_recheck_redaction := False\<rparr>"
    have "\<not> withheld es0 ?e'" using True by (auto simp: withheld_def redacts_of_def)
    then have "kept es0 (put_event i False ?e' es1)" using True e(1) by (intro kept_put [OF k mem1]) simp
    moreover have "map_of (es_memory (put_event i False ?e' es1)) i = Some (entry\<lparr>ece_event := ?e'\<rparr>)"
      by (simp add: put_event_def mem1 update_conv')
    ultimately show ?thesis
      using eq True put_event_entry(2) [OF mem1, of False ?e'] grows_trans [OF g] by auto
  next
    case False
    then show ?thesis using eq k g mem1 e(1) by auto
  qed
qed

lemma event_of_entry_served:
  assumes "kept es0 es" and mem: "map_of (es_memory es) i = Some entry" and "\<not> is_rejected (ece_event entry)"
  shows "\<exists>x es'. event_of_entry Redact False i entry es = Inr (x, es') \<and> kept es0 es' \<and> grows es es' \<and>
    map_option (core \<circ> snd) x = map_option core (served es0 i) \<and>
    (\<forall>b e. x = Some (b, e) \<longrightarrow> object es' i b = Some e)"
proof -
  let ?e = "ece_event entry"
  have i: "entry_of es i = Some entry" using mem by (simp add: entry_of_def)
  from keptD [OF assms(1) i] obtain entry0 where e0: "entry_of es0 i = Some entry0" "core ?e = core (ece_event entry0)"
    "map_option core (ece_redacted_event entry) = map_option core (ece_redacted_event entry0)"
    "withheld es0 ?e = withheld es0 (ece_event entry0)" .
  have "\<exists>c es'. (if ev_type ?e = EventTypes_Redaction then recheck_redaction i ?e es else Inr (Some ?e, es)) = Inr (c, es') \<and>
      kept es0 es' \<and> grows es es' \<and> (c = None \<longleftrightarrow> withheld es0 ?e) \<and>
      (\<forall>e'. c = Some e' \<longrightarrow> map_of (es_memory es') i = Some (entry\<lparr>ece_event := e'\<rparr>))"
  proof (cases "ev_type ?e = EventTypes_Redaction")
    case True
    then show ?thesis using recheck_redaction_kept [OF assms(1) mem refl True] by simp
  next
    case False
    then show ?thesis using assms(1) mem by (simp add: withheld_def)
  qed
  then obtain c es' where c: "(if ev_type ?e = EventTypes_Redaction then recheck_redaction i ?e es
      else Inr (Some ?e, es)) = Inr (c, es')" and k: "kept es0 es'" "grows es es'" "c = None \<longleftrightarrow> withheld es0 ?e"
    and m: "\<And>e'. c = Some e' \<Longrightarrow> map_of (es_memory es') i = Some (entry\<lparr>ece_event := e'\<rparr>)" by blast
  have ec: "core e' = core (ece_event entry0)" if "c = Some e'" for e'
    using keptD [OF k(1), of i] m [OF that] e0(1) by (fastforce simp: entry_of_def)
  have "is_rejected (ece_event entry0) = is_rejected ?e" using core_cong(4) [OF e0(2)] by simp
  then have sv: "served es0 i = (if c = None then None
      else Some (case ece_redacted_event entry0 of Some red \<Rightarrow> red | None \<Rightarrow> ece_event entry0))"
    using assms(3) e0(1,4) k(3) by (simp add: served_def)
  have ev: "event_of_entry Redact False i entry es = Inr (case c of None \<Rightarrow> None | Some e \<Rightarrow>
      (case ece_redacted_event entry of None \<Rightarrow> Some (False, e) | Some red \<Rightarrow> Some (True, red)), es')"
    using assms(3) c by (simp add: event_of_entry_def cong: if_cong split: option.splits)
  show ?thesis
  proof (cases c)
    case None
    then show ?thesis using ev sv k(1,2) by simp
  next
    case (Some e)
    show ?thesis
    proof (cases "ece_redacted_event entry")
      case None
      with e0(3) have "ece_redacted_event entry0 = None" by simp
      with None Some ev sv k(1,2) ec [OF Some] m [OF Some] show ?thesis by (auto simp: object_def)
    next
      case (Some red)
      with e0(3) obtain red0 where "ece_redacted_event entry0 = Some red0" "core red = core red0"
        by (cases "ece_redacted_event entry0") auto
      with Some \<open>c = Some e\<close> ev sv k(1,2) m [OF \<open>c = Some e\<close>] show ?thesis by (auto simp: object_def)
    qed
  qed
qed

section \<open>Loading by ID\<close>

text \<open>What is done for the previous content may only change the event it is given.\<close>

locale content_step =
  fixes prev_content :: prev_content_step
  assumes step_kept: "kept es0 es \<Longrightarrow> object es i of_redacted = Some e \<Longrightarrow>
    \<exists>e' es'. prev_content i of_redacted e es = Inr (e', es') \<and> core e' = core e \<and> kept es0 es' \<and> grows es es'"
begin

lemma load_events_served:
  assumes "kept es0 es" and "\<forall>i \<in> set ids. dict_has entries i \<longrightarrow> dict_has (es_memory es) i"
    and "\<forall>i \<in> set ids. dict_has entries i \<longleftrightarrow> (\<exists>entry. entry_of es0 i = Some entry \<and> \<not> is_rejected (ece_event entry))"
  shows "\<exists>evs es'. load_events Redact False prev_content entries ids es = Inr (evs, es') \<and>
    map core evs = map core (List.map_filter (served es0) ids) \<and> kept es0 es' \<and> grows es es'"
  using assms
proof (induction ids arbitrary: es)
  case Nil
  then show ?case by (simp add: List.map_filter_simps)
next
  case (Cons i ids)
  have IH: "\<exists>evs es'. load_events Redact False prev_content entries ids es1 = Inr (evs, es') \<and>
      map core evs = map core (List.map_filter (served es0) ids) \<and> kept es0 es' \<and> grows es es'"
    if "kept es0 es1" "grows es es1" for es1
  proof -
    have "\<forall>i \<in> set ids. dict_has entries i \<longrightarrow> dict_has (es_memory es1) i"
      using Cons.prems(2) that(2) by (simp add: grows_def)
    from Cons.IH [OF that(1) this] Cons.prems(3) show ?thesis using grows_trans [OF that(2)] by auto
  qed
  show ?case
  proof (cases "dict_has entries i")
    case False
    then have "served es0 i = None" using Cons.prems(3) by (auto simp: served_def split: option.splits)
    with False IH [OF Cons.prems(1) grows_refl] show ?thesis by (simp add: List.map_filter_simps)
  next
    case True
    then obtain entry where mem: "map_of (es_memory es) i = Some entry" using Cons.prems(2) by (auto simp: dict_has_def)
    then have "\<not> is_rejected (ece_event entry)"
      using True Cons.prems(3) kept_accepted [OF Cons.prems(1), of i] by (simp add: entry_of_def)
    from event_of_entry_served [OF Cons.prems(1) mem this] obtain x es1 where
      x: "event_of_entry Redact False i entry es = Inr (x, es1)" "kept es0 es1" "grows es es1"
        "map_option (core \<circ> snd) x = map_option core (served es0 i)"
        "\<forall>b e. x = Some (b, e) \<longrightarrow> object es1 i b = Some e" by blast
    show ?thesis
    proof (cases x)
      case None
      with True mem x(1,4) IH [OF x(2,3)] show ?thesis by (simp add: List.map_filter_simps)
    next
      case (Some be)
      obtain b e where be: "be = (b, e)" by (cases be)
      obtain v where v: "served es0 i = Some v" "core e = core v"
        using x(4) Some be by (cases "served es0 i") auto
      have "object es1 i b = Some e" using x(5) Some be by simp
      from step_kept [OF x(2) this] obtain e' es2 where
        e': "prev_content i b e es1 = Inr (e', es2)" "core e' = core e" "kept es0 es2" "grows es1 es2" by blast
      from IH [OF e'(3) grows_trans [OF x(3) e'(4)]] obtain evs es3 where
        "load_events Redact False prev_content entries ids es2 = Inr (evs, es3)"
        "map core evs = map core (List.map_filter (served es0) ids)" "kept es0 es3" "grows es es3" by blast
      with True mem x(1) Some be e'(1,2) v show ?thesis by (simp add: List.map_filter_simps)
    qed
  qed
qed

lemma load_by_id_served:
  assumes "kept es0 es"
  shows "\<exists>evs es'. load_by_id Redact False prev_content ids es = Inr (evs, es') \<and>
    map core evs = map core (List.map_filter (served es0) ids) \<and> kept es0 es' \<and> grows es es'"
proof (cases "ids = []")
  case True
  then show ?thesis using assms by (simp add: load_by_id_def List.map_filter_simps)
next
  case False
  obtain entries es1 where g: "get_unredacted_events_from_cache_or_db es (remdups ids) False = (entries, es1)" by fastforce
  note f = fetched [OF g]
  have k: "kept es0 es1" by (rule kept_fetch [OF assms f(1)])
  have "\<forall>i \<in> set ids. dict_has entries i \<longleftrightarrow> (\<exists>entry. entry_of es0 i = Some entry \<and> \<not> is_rejected (ece_event entry))"
    unfolding kept_accepted [OF assms, symmetric] by (auto simp: dict_has_def f(3) split: option.splits if_splits)
  moreover have "\<forall>i \<in> set ids. dict_has entries i \<longrightarrow> dict_has (es_memory es1) i"
    using f(4) by (fastforce simp: dict_has_def)
  ultimately obtain evs es' where "load_events Redact False prev_content entries ids es1 = Inr (evs, es')"
    "map core evs = map core (List.map_filter (served es0) ids)" "kept es0 es'" "grows es1 es'"
    using load_events_served [OF k, of ids entries] by blast
  then show ?thesis using False g grows_trans [OF f(2)] by (auto simp: load_by_id_def)
qed

end

interpretation plain: content_step no_prev_content
  by unfold_locales (simp add: no_prev_content_def)

lemma get_stored_event_kept:
  assumes "kept es0 es"
  shows "\<exists>x es'. get_stored_event (JStr i) Redact False True None es = Inr (x, es') \<and> kept es0 es' \<and> grows es es' \<and>
    map_option core x = map_option core (served es0 i)"
proof -
  from plain.load_by_id_served [OF assms, of "[i]"] obtain evs es' where
    l: "load_by_id Redact False no_prev_content [i] es = Inr (evs, es')" "kept es0 es'" "grows es es'"
    "map core evs = map core (List.map_filter (served es0) [i])" by blast
  then show ?thesis
    by (cases "served es0 i"; cases evs) (auto simp: get_stored_event_def Let_def List.map_filter_simps)
qed

lemma grows_object:
  assumes "grows es es'" and "object es i b = Some e"
  shows "\<exists>entry. map_of (es_memory es') i = Some entry"
  using assms by (auto simp: grows_def dict_has_def object_def bind_eq_Some_conv)

lemma kept_object:
  assumes "kept es0 es" "object es i b = Some e" "kept es0 es'" "map_of (es_memory es') i = Some entry"
  shows "if b then map_option core (ece_redacted_event entry) = Some (core e)
    else core e = core (ece_event entry) \<and> withheld es0 e = withheld es0 (ece_event entry)"
proof -
  obtain old where o: "map_of (es_memory es) i = Some old" "if b then ece_redacted_event old = Some e else ece_event old = e"
    using assms(2) by (auto simp: object_def bind_eq_Some_conv split: if_splits)
  have e: "entry_of es i = Some old" "entry_of es' i = Some entry" using o(1) assms(4) by (simp_all add: entry_of_def)
  from keptD [OF assms(1) e(1)] obtain entry0 where a: "entry_of es0 i = Some entry0"
    "core (ece_event old) = core (ece_event entry0)"
    "map_option core (ece_redacted_event old) = map_option core (ece_redacted_event entry0)"
    "withheld es0 (ece_event old) = withheld es0 (ece_event entry0)" .
  from keptD [OF assms(3) e(2)] obtain entry1 where c: "entry_of es0 i = Some entry1"
    "core (ece_event entry) = core (ece_event entry1)"
    "map_option core (ece_redacted_event entry) = map_option core (ece_redacted_event entry1)"
    "withheld es0 (ece_event entry) = withheld es0 (ece_event entry1)" .
  show ?thesis using o(2) a c by (cases b) auto
qed

lemma loadable_replaces:
  assumes "loadable_event e" "map_of (ev_unsigned e) ''replaces_state'' = Some j"
  obtains i where "j = JStr i"
  using assms by (cases j) (auto simp: loadable_event_def)

lemma add_prev_content_kept:
  assumes "kept es0 es" and "object es i b = Some e"
  shows "\<exists>e' es'. add_prev_content i b e es = Inr (e', es') \<and> core e' = core e \<and> kept es0 es' \<and> grows es es'"
proof (cases "map_of (ev_unsigned e) ''replaces_state''")
  case None
  then show ?thesis using assms(1) by (simp add: add_prev_content_def)
next
  case (Some j)
  obtain old where old: "entry_of es i = Some old" "if b then ece_redacted_event old = Some e else ece_event old = e"
    using assms(2) by (auto simp: object_def entry_of_def bind_eq_Some_conv split: if_splits)
  have "loadable_event e" using kept_loadable [OF assms(1) old(1)] old(2) by (auto split: if_splits)
  then obtain p where j: "j = JStr p" using Some by (rule loadable_replaces)
  from get_stored_event_kept [OF assms(1)] obtain x es1 where
    x: "get_stored_event (JStr p) Redact False True None es = Inr (x, es1)" "kept es0 es1" "grows es es1" by blast
  show ?thesis
  proof (cases x)
    case None
    then show ?thesis using Some j x by (simp add: add_prev_content_def)
  next
    case (Some prev)
    let ?e' = "e\<lparr>ev_unsigned := AList.update ''prev_sender'' (JStr (ev_sender prev))
      (AList.update ''prev_content'' (JObj (ev_content prev)) (ev_unsigned e))\<rparr>"
    obtain entry where mem: "map_of (es_memory es1) i = Some entry" using grows_object [OF x(3) assms(2)] by blast
    have "withheld es0 ?e' = withheld es0 e" by (simp add: withheld_def redacts_of_def)
    then have "kept es0 (put_event i b ?e' es1)"
      using kept_object [OF assms x(2) mem] by (intro kept_put [OF x(2) mem]) (simp add: core_prev)
    moreover have "add_prev_content i b e es = Inr (?e', put_event i b ?e' es1)"
      using \<open>map_of (ev_unsigned e) ''replaces_state'' = Some j\<close> j x(1) Some by (simp add: add_prev_content_def Let_def)
    ultimately show ?thesis
      using core_prev grows_trans [OF x(3) put_event_entry(2) [OF mem]] by blast
  qed
qed

interpretation prev: content_step add_prev_content
  by unfold_locales (rule add_prev_content_kept)

lemma kept_refl: "loadable es \<Longrightarrow> kept es es"
  by (simp add: kept_def)

text \<open>Loading a list of IDs gives, in their order, the events that are served.\<close>

lemma get_events_as_list_served:
  assumes "loadable es"
  shows "\<exists>evs es'. get_events_as_list ids Redact get_prev_content False es = Inr (evs, es') \<and>
    map core evs = map core (List.map_filter (served es) ids)"
  using plain.load_by_id_served [OF kept_refl [OF assms], of ids]
    prev.load_by_id_served [OF kept_refl [OF assms], of ids]
  by (cases get_prev_content) (auto simp: get_events_as_list_def)

end
