(* ===== verification/Room_Stream.thy ===== *)
theory Room_Stream
  imports Pagination_Props Stream_Change_Cache Events_Worker
begin

text \<open>
  Reading the new events of a room (\<^verbatim>\<open>get_room_events_stream_for_room\<close> in
  \<^verbatim>\<open>synapse/storage/databases/main/stream.py\<close>), with the two shortcuts the code
  takes: equal tokens, and a room that the stream change cache knows not to have changed.
  The events of the selected rows are then loaded by their IDs, which leaves out those that
  are not served, and get the positions of the rows.
\<close>

section \<open>The functions\<close>

definition get_rooms_that_changed :: "change_cache \<Rightarrow> string list \<Rightarrow> room_token \<Rightarrow> string list" where
  "get_rooms_that_changed cache room_ids from_key =
     filter (\<lambda>room_id. has_entity_changed room_id (tk_stream from_key) cache) (remdups room_ids)"

text \<open>Tokens are equal if their fields are; instance maps as dicts, in any order.\<close>

definition same_token :: "room_token \<Rightarrow> room_token \<Rightarrow> bool" where
  "same_token t u \<longleftrightarrow> tk_stream t = tk_stream u \<and> tk_topological t = tk_topological u \<and>
     list_all (\<lambda>(n, _). map_of (tk_instance_map t) n = map_of (tk_instance_map u) n)
       (tk_instance_map t @ tk_instance_map u)"

text \<open>\<^verbatim>\<open>ORDER BY stream_ordering\<close>, descending or ascending.\<close>

definition by_stream :: "bool \<Rightarrow> event_row list \<Rightarrow> event_row list" where
  "by_stream desc rows = (let asc = sort_key er_stream rows in if desc then rev asc else asc)"

text \<open>
  The positions in the internal metadata of an event.  The events and the rows are taken in
  pairs, by their place in the two lists; events beyond the last row get no position.
\<close>

record event_position =
  ep_before :: room_token
  ep_after :: room_token
  ep_order :: "int \<times> int"

definition row_position :: "bool \<Rightarrow> int option \<times> int \<Rightarrow> event_position" where
  "row_position topo_order row =
     (case row of (topological_ordering, stream) \<Rightarrow>
        let topo = (if topo_order \<and> truthy topological_ordering then topological_ordering else None)
        in \<lparr>ep_before = \<lparr>tk_stream = stream - 1, tk_instance_map = [], tk_topological = topo\<rparr>,
            ep_after = \<lparr>tk_stream = stream, tk_instance_map = [], tk_topological = topo\<rparr>,
            ep_order = (case topo of None \<Rightarrow> 0 | Some t \<Rightarrow> t, stream)\<rparr>)"

definition set_before_and_after ::
  "event list \<Rightarrow> (int option \<times> int) list \<Rightarrow> bool \<Rightarrow> (event \<times> event_position option) list" where
  "set_before_and_after events rows topo_order =
     map (\<lambda>(e, row). (e, Some (row_position topo_order row))) (zip events rows) @
     map (\<lambda>e. (e, None)) (drop (length rows) events)"

definition row_id :: "event_row \<Rightarrow> string" where
  "row_id r = ev_event_id (er_event r)"

text \<open>
  The events with their positions and the token, and the state of the store the events were
  loaded from.
\<close>

definition get_room_events_stream_for_room ::
  "event_row list \<Rightarrow> change_cache \<Rightarrow> string \<Rightarrow> room_token \<Rightarrow> room_token \<Rightarrow> nat \<Rightarrow> bool \<Rightarrow> event_store
     \<Rightarrow> (((event \<times> event_position option) list \<times> room_token) \<times> event_store) result" where
  "get_room_events_stream_for_room events cache room_id from_key to_key limit desc es =
     (if same_token from_key to_key then Inr (([], from_key), es)
      else if \<not> has_entity_changed room_id (tk_stream from_key) cache then Inr (([], from_key), es)
      else
        let selected = take (2 * limit) (by_stream desc
              (filter (\<lambda>r. ev_room_id (er_event r) = room_id \<and> \<not> er_outlier r \<and>
                 tk_stream from_key < er_stream r \<and> er_stream r \<le> get_max_stream_pos to_key) events));
            rows = take limit (filter (\<lambda>r. filter_results (Some from_key) (Some to_key)
              (er_instance_name r) (ev_depth (er_event r)) (er_stream r)) selected)
        in rbind (get_events_as_list (map row_id rows) Redact True False es) (\<lambda>(loaded, es').
           let ret = set_before_and_after loaded (map (\<lambda>r. (None, er_stream r)) rows) False
           in Inr ((if desc then rev ret else ret,
                    if rows \<noteq> []
                    then \<lparr>tk_stream = Min (set (map er_stream rows)), tk_instance_map = [], tk_topological = None\<rparr>
                    else from_key), es')))"

section \<open>What it returns\<close>

definition live :: "room_token \<Rightarrow> bool" where
  "live t \<longleftrightarrow> tk_topological t = None \<and> vector_ok t"

text \<open>The new events of a room, oldest first.\<close>

definition new_in_room :: "event_row list \<Rightarrow> string \<Rightarrow> room_token \<Rightarrow> room_token \<Rightarrow> event_row list" where
  "new_in_room events room_id from_key to_key = sort_key er_stream
     (filter (\<lambda>r. ev_room_id (er_event r) = room_id \<and> \<not> er_outlier r \<and>
        after_token from_key r \<and> \<not> after_token to_key r) events)"

lemma same_token_pos:
  assumes "same_token t u"
  shows "instance_pos t name = instance_pos u name"
proof -
  have "map_of (tk_instance_map t) n = map_of (tk_instance_map u) n" for n
  proof (cases "n \<in> fst ` set (tk_instance_map t @ tk_instance_map u)")
    case True
    then show ?thesis using assms by (auto simp: same_token_def list_all_iff)
  next
    case False
    then have "map_of (tk_instance_map t) n = None" "map_of (tk_instance_map u) n = None"
      by (auto simp: map_of_eq_None_iff)
    then show ?thesis by simp
  qed
  then show ?thesis using assms by (simp add: instance_pos_def stream_pos_def same_token_def split: option.splits)
qed

lemma nothing_new:
  assumes "live from_key" "live to_key"
    and "\<And>r. r \<in> set events \<Longrightarrow> ev_room_id (er_event r) = room_id \<Longrightarrow> \<not> er_outlier r \<Longrightarrow>
      after_token from_key r \<Longrightarrow> after_token to_key r"
  shows "new_in_room events room_id from_key to_key = []"
proof -
  have "filter (\<lambda>r. ev_room_id (er_event r) = room_id \<and> \<not> er_outlier r \<and>
      after_token from_key r \<and> \<not> after_token to_key r) events = []"
    using assms(3) by (auto simp: filter_empty_conv)
  then show ?thesis by (simp only: new_in_room_def) simp
qed

lemma live_after: "live t \<Longrightarrow> after_token t r \<longleftrightarrow> instance_pos t (er_instance_name r) < er_stream r"
  by (simp add: live_def after_token_def)

lemma filter_by_stream: "filter P (by_stream desc xs) = by_stream desc (filter P xs)"
  by (simp add: by_stream_def Let_def filter_sort rev_filter [symmetric])

lemma filter_live:
  "filter_results (Some f) (Some t) (er_instance_name r) (ev_depth (er_event r)) (er_stream r) \<longleftrightarrow>
     after_token f r \<and> \<not> after_token t r"
  using filter_results_range [of FORWARDS "Some t" f r] by (simp add: in_page_range_alt)

lemma live_bounds:
  assumes "live f" "live t" "after_token f r" "\<not> after_token t r"
  shows "tk_stream f < er_stream r \<and> er_stream r \<le> get_max_stream_pos t"
  using assms instance_pos_bounds [of f "er_instance_name r"] instance_pos_bounds [of t "er_instance_name r"]
  by (force simp: live_def after_token_def)

lemma selected_new:
  assumes "live f" "live t"
  shows "filter (\<lambda>r. after_token f r \<and> \<not> after_token t r) (by_stream desc
      (filter (\<lambda>r. ev_room_id (er_event r) = room_id \<and> \<not> er_outlier r \<and>
         tk_stream f < er_stream r \<and> er_stream r \<le> get_max_stream_pos t) events)) =
    (if desc then rev (new_in_room events room_id f t) else new_in_room events room_id f t)"
proof -
  have "filter (\<lambda>r. after_token f r \<and> \<not> after_token t r)
      (filter (\<lambda>r. ev_room_id (er_event r) = room_id \<and> \<not> er_outlier r \<and>
         tk_stream f < er_stream r \<and> er_stream r \<le> get_max_stream_pos t) events) =
    filter (\<lambda>r. ev_room_id (er_event r) = room_id \<and> \<not> er_outlier r \<and> after_token f r \<and> \<not> after_token t r) events"
    unfolding filter_filter by (rule filter_cong [OF refl]) (use live_bounds [OF assms] in blast)
  then show ?thesis unfolding filter_by_stream by (simp add: by_stream_def new_in_room_def Let_def)
qed

lemma take_filter_take: "\<exists>k \<le> n. take n (filter P (take m xs)) = take k (filter P xs)"
proof -
  have "filter P xs = filter P (take m xs) @ filter P (drop m xs)" by (metis append_take_drop_id filter_append)
  then have "take n (filter P (take m xs)) = take (min n (length (filter P (take m xs)))) (filter P xs)"
    by (simp add: min_def)
  then show ?thesis by (meson min.cobounded1)
qed

lemma take_filter_all:
  assumes "n \<le> m" and "\<forall>x \<in> set xs. P x"
  shows "take n (filter P (take m xs)) = take n (filter P xs)"
proof -
  have "filter P xs = xs" "filter P (take m xs) = take m xs"
    using assms(2) by (auto intro!: filter_True dest: in_set_takeD)
  then show ?thesis using assms(1) by (simp add: min_absorb1)
qed

text \<open>The part of the new events that a call returns: the last or the first \<open>k\<close>.\<close>

definition window :: "bool \<Rightarrow> nat \<Rightarrow> 'a list \<Rightarrow> 'a list" where
  "window desc k xs = (if desc then drop (length xs - k) xs else take k xs)"

lemma window_Nil [simp]: "window desc k [] = []"
  by (simp add: window_def)

lemma exact_live_after:
  assumes "live t" "exact t"
  shows "after_token t r \<longleftrightarrow> tk_stream t < er_stream r" and "get_max_stream_pos t = tk_stream t"
  using assms exact_pos [of t] by (simp_all add: live_after live_def)

lemma rows_window:
  fixes events room_id and f t :: room_token and limit and desc
  defines "sel \<equiv> by_stream desc (filter (\<lambda>r. ev_room_id (er_event r) = room_id \<and> \<not> er_outlier r \<and>
     tk_stream f < er_stream r \<and> er_stream r \<le> get_max_stream_pos t) events)"
  defines "rows \<equiv> take limit (filter (\<lambda>r. after_token f r \<and> \<not> after_token t r) (take (2 * limit) sel))"
  assumes "live f" "live t"
  shows "\<exists>k \<le> limit. (if desc then rev rows else rows) = window desc k (new_in_room events room_id f t) \<and>
    (exact f \<and> exact t \<longrightarrow> k = limit)"
proof -
  let ?P = "\<lambda>r. after_token f r \<and> \<not> after_token t r"
  note new = selected_new [OF assms(3,4), of desc room_id events, folded sel_def]
  have "\<exists>k \<le> limit. rows = take k (filter ?P sel) \<and> (exact f \<and> exact t \<longrightarrow> k = limit)"
  proof (cases "exact f \<and> exact t")
    case True
    then have "\<forall>r \<in> set sel. ?P r"
      using exact_live_after [OF assms(3)] exact_live_after [OF assms(4)]
      by (auto simp: sel_def by_stream_def Let_def split: if_splits)
    then have "rows = take limit (filter ?P sel)" unfolding rows_def by (intro take_filter_all) simp_all
    then show ?thesis by blast
  next
    case False
    then show ?thesis using take_filter_take [of limit ?P "2 * limit" sel] unfolding rows_def by blast
  qed
  then obtain k where "k \<le> limit" "rows = take k (filter ?P sel)" "exact f \<and> exact t \<longrightarrow> k = limit" by blast
  then show ?thesis unfolding new by (intro exI [of _ k]) (simp add: window_def take_rev)
qed

lemma shortcut_nothing_new:
  assumes "cache_ok H cache" and "\<forall>r \<in> set events. (ev_room_id (er_event r), er_stream r) \<in> H"
    and "live f" "live t" and "same_token f t \<or> \<not> has_entity_changed room_id (tk_stream f) cache"
  shows "new_in_room events room_id f t = []"
proof (rule nothing_new [OF assms(3,4)])
  fix r
  assume r: "r \<in> set events" "ev_room_id (er_event r) = room_id" and a: "after_token f r"
  show "after_token t r"
  proof (cases "same_token f t")
    case True
    then show ?thesis using a same_token_pos [OF True] assms(3,4) by (simp add: live_after)
  next
    case False
    then have u: "\<not> has_entity_changed room_id (tk_stream f) cache" using assms(5) by simp
    have "(room_id, er_stream r) \<in> H" using r assms(2) by auto
    from tracker.unchanged_no_later [OF conjI [OF assms(1) refl] u this]
    have "er_stream r \<le> tk_stream f" .
    moreover have "tk_stream f < er_stream r"
      using a instance_pos_bounds(1) [of f "er_instance_name r"] assms(3) by (simp add: live_after live_def)
    ultimately show ?thesis by simp
  qed
qed

section \<open>Loading the rows\<close>

text \<open>Without a gap between the loaded events and the rows every event gets its own position.\<close>

lemma positions_complete:
  assumes "length evs = length rows"
  shows "map snd (set_before_and_after evs rows topo_order) = map (Some \<circ> row_position topo_order) rows"
proof -
  have "map snd (map (\<lambda>(e, row). (e, Some (row_position topo_order row))) (zip evs rows)) =
      map (Some \<circ> row_position topo_order) (map snd (zip evs rows))"
    by (simp only: map_map) (simp add: case_prod_unfold comp_def)
  then show ?thesis using assms by (simp only: set_before_and_after_def map_append map_snd_zip) simp
qed

lemma fst_positions [simp]: "map fst (set_before_and_after evs rows topo_order) = evs"
proof -
  have "map fst (map (\<lambda>(e, row). (e, Some (row_position topo_order row))) (zip evs rows)) = map fst (zip evs rows)"
    by (simp add: case_prod_unfold comp_def)
  moreover have "map fst (zip evs rows) = take (length rows) evs"
    by (simp add: map_fst_zip_take min_def)
  ultimately show ?thesis by (simp add: set_before_and_after_def comp_def)
qed

lemma map_filter_all:
  "\<forall>x \<in> set xs. f x \<noteq> None \<Longrightarrow> length (List.map_filter f xs) = length xs"
  by (induction xs) (auto simp: List.map_filter_simps)

lemma map_filter_rev: "List.map_filter f (rev xs) = rev (List.map_filter f xs)"
  by (simp add: List.map_filter_def rev_map rev_filter)

lemma map_filter_map: "List.map_filter f (map g xs) = List.map_filter (f \<circ> g) xs"
  by (induction xs) (auto simp: List.map_filter_simps split: option.splits)

lemma rows_loaded:
  assumes "loadable es"
  obtains loaded es' where
    "get_events_as_list (map row_id rows) Redact True False es = Inr (loaded, es')"
    "map core loaded = map core (List.map_filter (served es \<circ> row_id) rows)"
  using get_events_as_list_served [OF assms, of "map row_id rows" True] by (auto simp: map_filter_map)

text \<open>The position that an event has in the stream.\<close>

definition stream_position :: "int \<Rightarrow> event_position" where
  "stream_position s = \<lparr>ep_before = \<lparr>tk_stream = s - 1, tk_instance_map = [], tk_topological = None\<rparr>,
     ep_after = \<lparr>tk_stream = s, tk_instance_map = [], tk_topological = None\<rparr>, ep_order = (0, s)\<rparr>"

lemma row_position_stream: "row_position False (None, s) = stream_position s"
  by (simp add: row_position_def stream_position_def)

lemma loaded_rows:
  assumes "loadable es"
    and "rows = (if desc then rev W else W)"
  shows "\<exists>ret es'. rbind (get_events_as_list (map row_id rows) Redact True False es) (\<lambda>(loaded, es').
      let ret = set_before_and_after loaded (map (\<lambda>r. (None, er_stream r)) rows) False
      in Inr ((if desc then rev ret else ret, key), es')) = Inr ((ret, key), es') \<and>
    map (core \<circ> fst) ret = map core (List.map_filter (served es \<circ> row_id) W) \<and>
    ((\<forall>r \<in> set W. served es (row_id r) \<noteq> None) \<longrightarrow> map snd ret = map (\<lambda>r. Some (stream_position (er_stream r))) W)"
proof -
  obtain loaded es' where l: "get_events_as_list (map row_id rows) Redact True False es = Inr (loaded, es')"
    "map core loaded = map core (List.map_filter (served es \<circ> row_id) rows)"
    using rows_loaded [OF assms(1)] .
  let ?p = "set_before_and_after loaded (map (\<lambda>r. (None, er_stream r)) rows) False"
  have c: "map (core \<circ> fst) ?p = map core (List.map_filter (served es \<circ> row_id) rows)"
    using l(2) by (simp flip: map_map)
  have s: "map snd ?p = map (\<lambda>r. Some (stream_position (er_stream r))) rows"
    if "\<forall>r \<in> set W. served es (row_id r) \<noteq> None"
  proof -
    have "length loaded = length rows"
      using that arg_cong [OF l(2), of length] map_filter_all [of rows "served es \<circ> row_id"] assms(2)
      by (simp split: if_splits)
    then show ?thesis by (simp add: positions_complete row_position_stream comp_def)
  qed
  show ?thesis
    using l(1) c s assms(2) by (cases desc) (auto simp: Let_def map_filter_rev rev_map simp flip: rev_map)
qed

text \<open>
  C36.  Reading the stream of a room through the change cache loses nothing.  Let every
  persisted event have been reported to the cache, which may have forgotten any of them, and
  let the stored events be such that loading one does not raise.  Then between two live tokens
  the function looks at the latest (or the first) new events of the room and never skips one
  in between; without a vector part in the tokens it looks at as many as asked for, or all.
  It returns, oldest first, those that are served: all but the unknown and the rejected
  events and the redactions that are withheld, redacted where they have been, and apart from
  the previous content in \<^verbatim>\<open>unsigned\<close> and the mark of redactions still to be checked.
  The token it returns is at the first event it looked at.  If all are served, each has the
  position of its own row.
\<close>

theorem room_events_stream_exact:
  assumes "cache_ok H cache" and "\<forall>r \<in> set events. (ev_room_id (er_event r), er_stream r) \<in> H"
    and "live f" "live t" and "loadable es"
  shows "\<exists>ret key es' W k. get_room_events_stream_for_room events cache room_id f t limit desc es = Inr ((ret, key), es') \<and>
    W = window desc k (new_in_room events room_id f t) \<and> k \<le> limit \<and> (exact f \<and> exact t \<longrightarrow> k = limit) \<and>
    map (core \<circ> fst) ret = map core (List.map_filter (served es \<circ> row_id) W) \<and>
    (W \<noteq> [] \<longrightarrow> tk_topological key = None \<and> tk_stream key = er_stream (hd W)) \<and> (W = [] \<longrightarrow> key = f) \<and>
    ((\<forall>r \<in> set W. served es (row_id r) \<noteq> None) \<longrightarrow> map snd ret = map (\<lambda>r. Some (stream_position (er_stream r))) W)"
proof (cases "same_token f t \<or> \<not> has_entity_changed room_id (tk_stream f) cache")
  case True
  then have "get_room_events_stream_for_room events cache room_id f t limit desc es = Inr (([], f), es)"
    by (auto simp: get_room_events_stream_for_room_def)
  then show ?thesis
    using shortcut_nothing_new [OF assms(1-4) True] by (force simp: List.map_filter_simps)
next
  case False
  define rows where "rows = take limit (filter (\<lambda>r. after_token f r \<and> \<not> after_token t r) (take (2 * limit) (by_stream desc
    (filter (\<lambda>r. ev_room_id (er_event r) = room_id \<and> \<not> er_outlier r \<and>
       tk_stream f < er_stream r \<and> er_stream r \<le> get_max_stream_pos t) events))))"
  define W where "W = (if desc then rev rows else rows)"
  define key where "key = (if rows \<noteq> [] then \<lparr>tk_stream = Min (set (map er_stream rows)), tk_instance_map = [],
      tk_topological = None\<rparr> else f)"
  obtain k where k: "k \<le> limit" "W = window desc k (new_in_room events room_id f t)" "exact f \<and> exact t \<longrightarrow> k = limit"
    using rows_window [OF assms(3,4), where desc = desc and limit = limit and room_id = room_id and events = events]
    unfolding W_def rows_def by blast
  have "rows = (if desc then rev W else W)" by (simp add: W_def)
  from loaded_rows [OF assms(5) this, of key] obtain ret es' where
    ret: "get_room_events_stream_for_room events cache room_id f t limit desc es = Inr ((ret, key), es')"
      "map (core \<circ> fst) ret = map core (List.map_filter (served es \<circ> row_id) W)"
      "(\<forall>r \<in> set W. served es (row_id r) \<noteq> None) \<longrightarrow> map snd ret = map (\<lambda>r. Some (stream_position (er_stream r))) W"
    using False unfolding get_room_events_stream_for_room_def filter_live rows_def [symmetric] key_def Let_def by auto
  have "sorted (map er_stream (new_in_room events room_id f t))" by (simp add: new_in_room_def)
  then have sorted: "sorted (map er_stream W)"
    unfolding k(2) window_def by (simp add: sorted_wrt_take sorted_wrt_drop flip: take_map drop_map)
  have "Min (set (map er_stream rows)) = er_stream (hd W)" if "W \<noteq> []"
  proof -
    have "set (map er_stream rows) = set (map er_stream W)" by (simp add: W_def)
    then show ?thesis using that sorted by (cases W) (auto intro: Min_eqI)
  qed
  then have "W \<noteq> [] \<longrightarrow> tk_topological key = None \<and> tk_stream key = er_stream (hd W)" "W = [] \<longrightarrow> key = f"
    by (auto simp: key_def W_def)
  with ret k show ?thesis by blast
qed

text \<open>A room with a new event is never left out.\<close>

lemma rooms_that_changed_complete:
  assumes "cache_ok H cache" and "(room_id, q) \<in> H" and "tk_stream f < q" and "room_id \<in> set room_ids"
  shows "room_id \<in> set (get_rooms_that_changed cache room_ids f)"
  unfolding get_rooms_that_changed_def
  by (rule tracker.select_changed_keeps [OF conjI [OF assms(1) refl] _ assms(2,3)]) (simp add: assms(4))

section \<open>A sample\<close>

definition sample_cache :: change_cache where
  "sample_cache = \<lparr>cc_original_max_size = 1, cc_max_size = 1, cc_cache = [(11, [''!r:x''])],
     cc_entity_to_key = [(''!r:x'', 11)], cc_earliest_known_stream_pos = 0, cc_stray_max_size = None\<rparr>"

definition sample_store :: event_store where
  "sample_store = \<lparr>es_memory = [], es_db = map (\<lambda>r. (row_id r, \<lparr>ece_event = er_event r, ece_redacted_event = None\<rparr>)) sample_events\<rparr>"

theorem room_events_stream_exact_witness:
  "\<exists>ret key es'. get_room_events_stream_for_room sample_events sample_cache ''!r:x''
      \<lparr>tk_stream = 5, tk_instance_map = [], tk_topological = None\<rparr>
      \<lparr>tk_stream = 12, tk_instance_map = [], tk_topological = None\<rparr> 2 True sample_store = Inr ((ret, key), es') \<and>
    map (core \<circ> fst) ret = map core (List.map_filter (served sample_store \<circ> row_id) (window True 2
      (new_in_room sample_events ''!r:x''
        \<lparr>tk_stream = 5, tk_instance_map = [], tk_topological = None\<rparr>
        \<lparr>tk_stream = 12, tk_instance_map = [], tk_topological = None\<rparr>)))"
proof -
  let ?H = "{(''!r:x'', 8 :: int), (''!r:x'', 10), (''!r:x'', 11)}"
  let ?f = "\<lparr>tk_stream = 5, tk_instance_map = [], tk_topological = None\<rparr> :: room_token"
  let ?t = "\<lparr>tk_stream = 12, tk_instance_map = [], tk_topological = None\<rparr> :: room_token"
  have "cache_ok ?H sample_cache" by (auto simp: cache_ok_def sample_cache_def index_ok_def)
  moreover have "\<forall>r \<in> set sample_events. (ev_room_id (er_event r), er_stream r) \<in> ?H"
    by (simp add: sample_events_def sample_row_def)
  moreover have "live ?f" "live ?t" "exact ?f" "exact ?t" by (simp_all add: live_def vector_ok_def exact_def)
  moreover have "loadable sample_store" by code_simp
  ultimately show ?thesis
    using room_events_stream_exact [of ?H sample_cache sample_events ?f ?t sample_store "''!r:x''" 2 True] by blast
qed

text \<open>
  Where an event is left out, the others get the positions of other events: here the event
  at position 10 is rejected, and the one at position 8 is given position 10.
\<close>

definition sample_store_rejected :: event_store where
  "sample_store_rejected = \<lparr>es_memory = [], es_db = map (\<lambda>r. (row_id r,
     \<lparr>ece_event = (er_event r)\<lparr>ev_rejected_reason := if er_stream r = 10 then Some ''auth_error'' else None\<rparr>,
       ece_redacted_event = None\<rparr>)) sample_events\<rparr>"

lemma positions_shifted:
  "map_sum id (\<lambda>((ret, key), es). map (\<lambda>(e, p). (ev_event_id e, map_option (tk_stream \<circ> ep_after) p)) ret)
     (get_room_events_stream_for_room sample_events sample_cache ''!r:x''
      \<lparr>tk_stream = 5, tk_instance_map = [], tk_topological = None\<rparr>
      \<lparr>tk_stream = 12, tk_instance_map = [], tk_topological = None\<rparr> 3 True sample_store_rejected) =
   Inr [(''$a'', Some 10), (''$c'', Some 11)]"
  by code_simp

end
