(* ===== verification/Redaction.thy ===== *)
theory Redaction
  imports Events
begin

text \<open>
  Event objects as they are built from JSON (\<^verbatim>\<open>FrozenEvent\<close> and its variants in
  \<^verbatim>\<open>synapse/events/__init__.py\<close>) and redaction (\<^verbatim>\<open>prune_event_dict\<close>,
  \<^verbatim>\<open>prune_event\<close> in \<^verbatim>\<open>synapse/events/utils.py\<close>).  An object keeps the JSON of the event
  without signatures and unsigned data, which have their own attributes.  The record
  \<open>event\<close> of \<open>Events\<close> is the typed view of such an object.
\<close>

section \<open>Event objects\<close>

record pdu =
  pd_dict :: json_obj
  pd_signatures :: "(string \<times> json_obj) list"
  pd_unsigned :: json_obj
  pd_room_version :: room_version
  pd_rejected_reason :: "string option"
  pd_internal :: json_obj
  pd_stream_ordering :: "int option"
  pd_outlier :: bool

text \<open>
  \<^verbatim>\<open>dict(v)\<close>: a dict, or an iterable of pairs.  A pair whose key is not a string, which no
  JSON object can hold, is refused.
\<close>

definition py_dict :: "json \<Rightarrow> json_obj result" where
  "py_dict v = (case v of JObj d \<Rightarrow> Inr d | _ \<Rightarrow>
     rbind (py_iter v) (\<lambda>items. rfold (\<lambda>item d. rbind (py_iter item) (\<lambda>kv.
       case kv of
         [JStr k, x] \<Rightarrow> Inr (AList.update k x d)
       | [k, x] \<Rightarrow> Inl PyTypeError
       | _ \<Rightarrow> Inl PyValueError)) items []))"

text \<open>\<^verbatim>\<open>event_dict.pop("signatures", {})\<close>, copied one level deep.\<close>

definition copy_signatures :: "json_obj \<Rightarrow> (string \<times> json_obj) list result" where
  "copy_signatures event_dict =
     rbind (py_items (jget event_dict ''signatures'' (JObj [])))
       (rmap (\<lambda>(name, sigs). rbind (py_items sigs) (\<lambda>s. Inr (name, s))))"

definition make_event_from_dict :: "json_obj \<Rightarrow> room_version \<Rightarrow> json_obj \<Rightarrow> string option \<Rightarrow> pdu result" where
  "make_event_from_dict event_dict rv internal_metadata_dict rejected_reason =
     rbind (copy_signatures event_dict) (\<lambda>signatures.
     rbind (guard_raise (event_format rv \<noteq> ROOM_V1_V2 \<and> dict_has event_dict ''event_id'') PyAssertionError) (\<lambda>_.
     rbind (py_dict (jget event_dict ''unsigned'' (JObj []))) (\<lambda>unsigned.
     rbind (guard_raise (event_format rv = ROOM_V1_V2 \<and> \<not> dict_has event_dict ''event_id'') PyKeyError) (\<lambda>_.
     Inr \<lparr>pd_dict = AList.delete ''unsigned'' (AList.delete ''signatures'' event_dict),
          pd_signatures = signatures, pd_unsigned = unsigned, pd_room_version = rv,
          pd_rejected_reason = rejected_reason, pd_internal = internal_metadata_dict,
          pd_stream_ordering = None, pd_outlier = False\<rparr>))))"

definition signatures_json :: "(string \<times> json_obj) list \<Rightarrow> json" where
  "signatures_json sigs = JObj (map (\<lambda>(name, s). (name, JObj s)) sigs)"

definition get_dict :: "pdu \<Rightarrow> json_obj" where
  "get_dict p = AList.update ''unsigned'' (JObj (pd_unsigned p))
     (AList.update ''signatures'' (signatures_json (pd_signatures p)) (pd_dict p))"

text \<open>\<^verbatim>\<open>get_pdu_json()\<close>, without a time.\<close>

definition get_pdu_json :: "pdu \<Rightarrow> json_obj" where
  "get_pdu_json p = AList.update ''unsigned'' (JObj (AList.delete ''redacted_because'' (pd_unsigned p))) (get_dict p)"

section \<open>Redaction\<close>

definition allowed_keys :: "room_version \<Rightarrow> string list" where
  "allowed_keys rv = [''event_id'', ''sender'', ''room_id'', ''hashes'', ''signatures'', ''content'', ''type'',
     ''state_key'', ''depth'', ''prev_events'', ''auth_events'', ''origin_server_ts''] @
     (if updated_redaction_rules rv then [] else [''prev_state'', ''membership'', ''origin''])"

definition add_fields :: "json_obj \<Rightarrow> string list \<Rightarrow> json_obj \<Rightarrow> json_obj result" where
  "add_fields event_dict = rfold (\<lambda>field new_content.
     rbind (dict_item event_dict ''content'') (\<lambda>content.
     rbind (py_contains (JStr field) content) (\<lambda>present.
     if present
     then rbind (py_item content (JStr field)) (\<lambda>v. Inr (AList.update field v new_content))
     else Inr new_content)))"

text \<open>The signed part of a third-party invite.\<close>

definition add_signed_invite :: "json_obj \<Rightarrow> json_obj \<Rightarrow> json_obj result" where
  "add_signed_invite event_dict new_content =
     rbind (dict_item event_dict ''content'') (\<lambda>content.
     rbind (py_get content ''third_party_invite'' JNull) (\<lambda>third_party_invite.
     case third_party_invite of
       JObj tpi \<Rightarrow> Inr (AList.update ''third_party_invite''
         (JObj (case map_of tpi ''signed'' of None \<Rightarrow> [] | Some v \<Rightarrow> [(''signed'', v)])) new_content)
     | _ \<Rightarrow> Inr new_content))"

text \<open>The fields of \<^verbatim>\<open>m.relates_to\<close> that survive.\<close>

definition new_relates_to :: "json_obj \<Rightarrow> json_obj" where
  "new_relates_to relates_to = fold (\<lambda>field d. case map_of relates_to field of
     None \<Rightarrow> d | Some v \<Rightarrow> AList.update field v d) [''rel_type'', ''event_id''] []"

definition add_relates_to :: "json_obj \<Rightarrow> json \<Rightarrow> json result" where
  "add_relates_to event_dict new_content =
     rbind (dict_item event_dict ''content'') (\<lambda>content.
     rbind (py_get content ''m.relates_to'' JNull) (\<lambda>relates_to.
     case (relates_to, new_content) of
       (JObj r, JObj nc) \<Rightarrow>
         Inr (if new_relates_to r \<noteq> [] then JObj (AList.update ''m.relates_to'' (JObj (new_relates_to r)) nc)
              else new_content)
     | _ \<Rightarrow> Inr new_content))"

text \<open>The content by the type of the event.\<close>

definition new_content_for :: "room_version \<Rightarrow> json_obj \<Rightarrow> json \<Rightarrow> json result" where
  "new_content_for rv event_dict event_type =
    (if event_type = JStr EventTypes_Member then
       rbind (add_fields event_dict [''membership''] []) (\<lambda>c1.
       rbind (if restricted_join_rule_fix rv then add_fields event_dict [AUTHORISING_USER] c1 else Inr c1) (\<lambda>c2.
       rbind (if updated_redaction_rules rv then add_signed_invite event_dict c2 else Inr c2) (\<lambda>c3.
       Inr (JObj c3))))
     else if event_type = JStr EventTypes_Create then
       (if updated_redaction_rules rv then dict_item event_dict ''content''
        else if \<not> implicit_room_creator rv
          then rbind (add_fields event_dict [''creator''] []) (\<lambda>c. Inr (JObj c))
        else Inr (JObj []))
     else if event_type = JStr EventTypes_JoinRules then
       rbind (add_fields event_dict [''join_rule''] []) (\<lambda>c1.
       rbind (if restricted_join_rule rv then add_fields event_dict [''allow''] c1 else Inr c1) (\<lambda>c2.
       Inr (JObj c2)))
     else if event_type = JStr EventTypes_PowerLevels then
       rbind (add_fields event_dict [''users'', ''users_default'', ''events'', ''events_default'',
         ''state_default'', ''ban'', ''kick'', ''redact''] []) (\<lambda>c1.
       rbind (if updated_redaction_rules rv then add_fields event_dict [''invite''] c1 else Inr c1) (\<lambda>c2.
       Inr (JObj c2)))
     else if event_type = JStr EventTypes_Aliases \<and> special_case_aliases_auth rv then
       rbind (add_fields event_dict [''aliases''] []) (\<lambda>c. Inr (JObj c))
     else if event_type = JStr EventTypes_RoomHistoryVisibility then
       rbind (add_fields event_dict [''history_visibility''] []) (\<lambda>c. Inr (JObj c))
     else if event_type = JStr EventTypes_Redaction \<and> updated_redaction_rules rv then
       rbind (add_fields event_dict [''redacts''] []) (\<lambda>c. Inr (JObj c))
     else Inr (JObj []))"

definition prune_content :: "room_version \<Rightarrow> json_obj \<Rightarrow> json result" where
  "prune_content rv event_dict =
     rbind (dict_item event_dict ''type'') (\<lambda>event_type.
     rbind (new_content_for rv event_dict event_type) (\<lambda>new_content.
     if msc3389_relation_redactions rv then add_relates_to event_dict new_content else Inr new_content))"

definition copy_unsigned_field :: "json \<Rightarrow> string \<Rightarrow> json_obj \<Rightarrow> json_obj result" where
  "copy_unsigned_field event_unsigned field unsigned =
     rbind (py_contains (JStr field) event_unsigned) (\<lambda>present.
     if present then rbind (py_item event_unsigned (JStr field)) (\<lambda>v. Inr (AList.update field v unsigned))
     else Inr unsigned)"

definition prune_event_dict :: "room_version \<Rightarrow> json_obj \<Rightarrow> json_obj result" where
  "prune_event_dict rv event_dict =
     rbind (prune_content rv event_dict) (\<lambda>new_content.
     let allowed_fields = AList.update ''content'' new_content
           (filter (\<lambda>(k, v). k \<in> set (allowed_keys rv)) event_dict);
         event_unsigned = jget event_dict ''unsigned'' (JObj [])
     in rbind (copy_unsigned_field event_unsigned ''age_ts'' []) (\<lambda>u1.
        rbind (copy_unsigned_field event_unsigned ''replaces_state'' u1) (\<lambda>u2.
        Inr (AList.update ''unsigned'' (JObj u2) allowed_fields))))"

definition prune_event :: "pdu \<Rightarrow> pdu result" where
  "prune_event p =
     rbind (prune_event_dict (pd_room_version p) (get_dict p)) (\<lambda>pruned_event_dict.
     rbind (make_event_from_dict pruned_event_dict (pd_room_version p) (pd_internal p) None) (\<lambda>pruned_event.
     Inr (pruned_event\<lparr>pd_stream_ordering := pd_stream_ordering p, pd_outlier := pd_outlier p,
       pd_internal := AList.update ''redacted'' (JBool True) (pd_internal pruned_event)\<rparr>)))"

section \<open>What is kept\<close>

text \<open>The entries of a dict under the given keys, in the order of the keys.\<close>

definition picked :: "json_obj \<Rightarrow> string list \<Rightarrow> json_obj" where
  "picked d fs = List.map_filter (\<lambda>f. map_option (Pair f) (map_of d f)) fs"

lemma picked_simps [simp]:
  "picked d [] = []"
  "picked d (f # fs) = (case map_of d f of None \<Rightarrow> picked d fs | Some v \<Rightarrow> (f, v) # picked d fs)"
  by (simp_all add: picked_def map_filter_simps split: option.splits)

lemma picked_append: "picked d (fs @ gs) = picked d fs @ picked d gs"
  by (induction fs) (simp_all split: option.splits)

lemma keys_picked: "fst ` set (picked d fs) \<subseteq> set fs"
  by (induction fs) (auto split: option.splits)

lemma map_of_picked [simp]: "map_of (picked d fs) f = (if f \<in> set fs then map_of d f else None)"
  by (induction fs) (auto split: option.splits)

lemma picked_cong: "(\<And>f. f \<in> set fs \<Longrightarrow> map_of d f = map_of d' f) \<Longrightarrow> picked d fs = picked d' fs"
  by (induction fs) (auto split: option.splits)

lemma update_fresh: "k \<notin> fst ` set d \<Longrightarrow> AList.update k v d = d @ [(k, v)]"
  by (induction d) auto

lemma add_fields_picked:
  assumes "map_of ed ''content'' = Some (JObj c)"
  shows "distinct fs \<Longrightarrow> set fs \<inter> fst ` set nc = {} \<Longrightarrow> add_fields ed fs nc = Inr (nc @ picked c fs)"
proof (induction fs arbitrary: nc)
  case (Cons f fs)
  have "set fs \<inter> fst ` set (nc @ [(f, v)]) = {}" for v using Cons.prems by auto
  with Cons show ?case
    using assms by (auto simp: add_fields_def dict_item_def dict_has_def update_fresh split: option.splits)
qed (simp add: add_fields_def)

text \<open>The fields that are kept as they are, by room version and type.\<close>

definition kept_fields :: "room_version \<Rightarrow> json \<Rightarrow> string list" where
  "kept_fields rv t =
     (if t = JStr EventTypes_Member then ''membership'' # (if restricted_join_rule_fix rv then [AUTHORISING_USER] else [])
      else if t = JStr EventTypes_Create then (if implicit_room_creator rv then [] else [''creator''])
      else if t = JStr EventTypes_JoinRules then ''join_rule'' # (if restricted_join_rule rv then [''allow''] else [])
      else if t = JStr EventTypes_PowerLevels then [''users'', ''users_default'', ''events'', ''events_default'',
        ''state_default'', ''ban'', ''kick'', ''redact''] @ (if updated_redaction_rules rv then [''invite''] else [])
      else if t = JStr EventTypes_Aliases \<and> special_case_aliases_auth rv then [''aliases'']
      else if t = JStr EventTypes_RoomHistoryVisibility then [''history_visibility'']
      else if t = JStr EventTypes_Redaction \<and> updated_redaction_rules rv then [''redacts''] else [])"

definition kept_invite :: "room_version \<Rightarrow> json \<Rightarrow> json_obj \<Rightarrow> json_obj" where
  "kept_invite rv t c =
     (if t = JStr EventTypes_Member \<and> updated_redaction_rules rv
      then (case map_of c ''third_party_invite'' of
              Some (JObj tpi) \<Rightarrow> [(''third_party_invite'', JObj (picked tpi [''signed'']))] | _ \<Rightarrow> [])
      else [])"

definition kept_relation :: "room_version \<Rightarrow> json_obj \<Rightarrow> json_obj \<Rightarrow> json_obj" where
  "kept_relation rv c nc =
     (if msc3389_relation_redactions rv
      then (case map_of c ''m.relates_to'' of
              Some (JObj r) \<Rightarrow> (let r' = picked r [''rel_type'', ''event_id''] in
                if r' \<noteq> [] then AList.update ''m.relates_to'' (JObj r') nc else nc)
            | _ \<Rightarrow> nc)
      else nc)"

definition kept_content :: "room_version \<Rightarrow> json \<Rightarrow> json_obj \<Rightarrow> json_obj" where
  "kept_content rv t c = kept_relation rv c
     (if t = JStr EventTypes_Create \<and> updated_redaction_rules rv then c
      else picked c (kept_fields rv t) @ kept_invite rv t c)"

lemma EventTypes_more_distinct [simp]:
  "EventTypes_RoomHistoryVisibility \<noteq> EventTypes_Member" "EventTypes_RoomHistoryVisibility \<noteq> EventTypes_Create"
  "EventTypes_RoomHistoryVisibility \<noteq> EventTypes_JoinRules" "EventTypes_RoomHistoryVisibility \<noteq> EventTypes_PowerLevels"
  "EventTypes_RoomHistoryVisibility \<noteq> EventTypes_Aliases" "EventTypes_RoomHistoryVisibility \<noteq> EventTypes_Redaction"
  "EventTypes_JoinRules \<noteq> EventTypes_Aliases" "EventTypes_JoinRules \<noteq> EventTypes_Redaction"
  "EventTypes_Aliases \<noteq> EventTypes_Redaction" "EventTypes_Create \<noteq> EventTypes_Redaction"
  by (simp_all add: EventTypes_defs)

lemma new_relates_to_picked: "new_relates_to r = picked r [''rel_type'', ''event_id'']"
  by (simp add: new_relates_to_def update_fresh split: option.splits)

lemma add_relates_to_kept:
  assumes "map_of ed ''content'' = Some (JObj c)" and "msc3389_relation_redactions rv"
  shows "add_relates_to ed (JObj nc) = Inr (JObj (kept_relation rv c nc))"
  using assms
  by (auto simp: add_relates_to_def dict_item_def jget_def kept_relation_def new_relates_to_picked Let_def
      split: option.splits json.splits)

lemma no_relation_kept: "\<not> msc3389_relation_redactions rv \<Longrightarrow> kept_relation rv c nc = nc"
  by (simp add: kept_relation_def)

lemma new_content_kept:
  assumes "map_of ed ''content'' = Some (JObj c)"
  shows "new_content_for rv ed t = Inr (JObj (if t = JStr EventTypes_Create \<and> updated_redaction_rules rv then c
      else picked c (kept_fields rv t) @ kept_invite rv t c))"
proof -
  note add = add_fields_picked [OF assms]
  have signed: "add_signed_invite ed nc = Inr (nc @ kept_invite rv (JStr EventTypes_Member) c)"
    if "updated_redaction_rules rv" "''third_party_invite'' \<notin> fst ` set nc" for nc
    using that assms
    by (simp add: add_signed_invite_def dict_item_def jget_def kept_invite_def update_fresh split: option.splits json.splits)
  have keys: "f \<notin> fst ` set (picked c fs)" if "f \<notin> set fs" for f fs using keys_picked that by fastforce
  consider "t = JStr EventTypes_Member" | "t = JStr EventTypes_Create" | "t = JStr EventTypes_JoinRules"
    | "t = JStr EventTypes_PowerLevels"
    | "t \<noteq> JStr EventTypes_Member" "t \<noteq> JStr EventTypes_Create" "t \<noteq> JStr EventTypes_JoinRules" "t \<noteq> JStr EventTypes_PowerLevels"
    by blast
  then show ?thesis
  proof cases
    case 1
    then show ?thesis
      by (simp add: new_content_for_def kept_fields_def add signed keys kept_invite_def del: picked_simps(2) flip: picked_append)
  next
    case 2
    then show ?thesis
      using assms by (simp add: new_content_for_def kept_fields_def add kept_invite_def dict_item_def del: picked_simps(2))
  qed (auto simp: new_content_for_def kept_fields_def add keys kept_invite_def simp del: picked_simps(2) simp flip: picked_append)
qed

lemma prune_content_kept:
  assumes "map_of ed ''content'' = Some (JObj c)" and "map_of ed ''type'' = Some t"
  shows "prune_content rv ed = Inr (JObj (kept_content rv t c))"
  unfolding prune_content_def kept_content_def
  by (simp add: assms(2) dict_item_def new_content_kept [OF assms(1)] add_relates_to_kept [OF assms(1)] no_relation_kept)

section \<open>Redacting twice\<close>

lemma kept_fields_plain:
  "''third_party_invite'' \<notin> set (kept_fields rv t)" "''m.relates_to'' \<notin> set (kept_fields rv t)"
  by (simp_all add: kept_fields_def)

lemma kept_invite_cases:
  obtains "kept_invite rv t c = []" "\<not> (t = JStr EventTypes_Member \<and> updated_redaction_rules rv \<and>
      (\<exists>tpi. map_of c ''third_party_invite'' = Some (JObj tpi)))"
  | tpi where "t = JStr EventTypes_Member" "updated_redaction_rules rv" "map_of c ''third_party_invite'' = Some (JObj tpi)"
    "kept_invite rv t c = [(''third_party_invite'', JObj (picked tpi [''signed'']))]"
proof (cases "t = JStr EventTypes_Member \<and> updated_redaction_rules rv \<and>
    (\<exists>tpi. map_of c ''third_party_invite'' = Some (JObj tpi))")
  case True
  then show ?thesis by (auto simp: kept_invite_def simp del: picked_simps intro: that(2))
next
  case False
  then have "kept_invite rv t c = []"
    by (auto simp: kept_invite_def simp del: picked_simps split: option.split json.split)
  with False that(1) show ?thesis by blast
qed

lemma keys_kept_invite: "fst ` set (kept_invite rv t c) \<subseteq> {''third_party_invite''}"
  by (cases rule: kept_invite_cases [of rv t c]) auto

lemma kept_invite_cong:
  "map_of c ''third_party_invite'' = map_of d ''third_party_invite'' \<Longrightarrow> kept_invite rv t c = kept_invite rv t d"
  by (simp add: kept_invite_def)

lemma kept_invite_again: "kept_invite rv t (kept_invite rv t c) = kept_invite rv t c"
proof (cases rule: kept_invite_cases [of rv t c])
  case 1
  then show ?thesis by (simp add: kept_invite_def)
next
  case (2 tpi)
  have "picked (picked tpi [''signed'']) [''signed''] = picked tpi [''signed'']"
    by (rule picked_cong) (simp del: picked_simps)
  with 2 show ?thesis by (simp add: kept_invite_def del: picked_simps)
qed

lemma map_of_kept_relation: "f \<noteq> ''m.relates_to'' \<Longrightarrow> map_of (kept_relation rv c nc) f = map_of nc f"
  by (simp add: kept_relation_def Let_def update_conv' split: option.splits json.splits)

lemma update_twice: "AList.update k v (AList.update k w d) = AList.update k v d"
  by (induction d) auto

lemma kept_relation_again:
  assumes "map_of nc ''m.relates_to'' = None \<and> x = nc \<or> nc = c \<and> x = kept_relation rv c nc"
  shows "kept_relation rv (kept_relation rv c nc) x = kept_relation rv c nc"
proof (cases "\<exists>r. map_of c ''m.relates_to'' = Some (JObj r) \<and> picked r [''rel_type'', ''event_id''] \<noteq> []")
  case True
  then obtain r where r: "map_of c ''m.relates_to'' = Some (JObj r)" "picked r [''rel_type'', ''event_id''] \<noteq> []" by blast
  let ?r = "picked r [''rel_type'', ''event_id'']"
  have "picked ?r [''rel_type'', ''event_id''] = ?r"
    by (rule picked_cong) (simp del: picked_simps)
  then show ?thesis
    using r assms by (auto simp: kept_relation_def Let_def update_conv' update_twice simp del: picked_simps)
next
  case False
  then have "kept_relation rv c nc = nc"
    by (auto simp: kept_relation_def Let_def split: option.splits json.splits simp del: picked_simps)
  then show ?thesis using assms False
    by (auto simp: kept_relation_def Let_def split: option.splits json.splits simp del: picked_simps)
qed

lemma map_of_invite: "f \<noteq> ''third_party_invite'' \<Longrightarrow> map_of (kept_invite rv t c) f = None"
  using keys_kept_invite [of rv t c] by (auto simp: map_of_eq_None_iff)

lemma map_of_kept_content_base:
  "map_of (picked c fs @ kept_invite rv t c) f =
     (if f \<in> set fs \<and> map_of c f \<noteq> None then map_of c f else map_of (kept_invite rv t c) f)"
  by (auto simp: map_add_def split: option.splits)

lemma kept_content_idem: "kept_content rv t (kept_content rv t c) = kept_content rv t c"
proof (cases "t = JStr EventTypes_Create \<and> updated_redaction_rules rv")
  case True
  then show ?thesis by (simp add: kept_content_def kept_relation_again)
next
  case False
  let ?b = "\<lambda>c. picked c (kept_fields rv t) @ kept_invite rv t c"
  have rel: "map_of (?b c) ''m.relates_to'' = None"
    by (simp add: map_of_append map_add_None kept_fields_plain map_of_invite)
  have field: "map_of (kept_relation rv c (?b c)) f = map_of c f" if "f \<in> set (kept_fields rv t)" for f
  proof -
    have "f \<noteq> ''m.relates_to''" "f \<noteq> ''third_party_invite''" using that kept_fields_plain by metis+
    then show ?thesis using that by (simp add: map_of_kept_relation map_of_invite map_add_def split: option.splits)
  qed
  have "map_of (kept_relation rv c (?b c)) ''third_party_invite'' = map_of (kept_invite rv t c) ''third_party_invite''"
    by (simp add: map_of_kept_relation kept_fields_plain map_add_def split: option.splits)
  then have "kept_invite rv t (kept_relation rv c (?b c)) = kept_invite rv t c"
    using kept_invite_cong kept_invite_again by metis
  with field have b: "?b (kept_relation rv c (?b c)) = ?b c" by (simp add: picked_cong [OF field])
  show ?thesis
    unfolding kept_content_def if_not_P [OF False] b
    using rel by (intro kept_relation_again) blast
qed

section \<open>Redacted objects\<close>

text \<open>
  The objects the constructor makes of an event with a type and an object as content: dicts
  have distinct keys, signatures and unsigned data are not in the dict, and the event ID is
  in it just in the first format.
\<close>

definition pdu_ok :: "pdu \<Rightarrow> bool" where
  "pdu_ok p \<longleftrightarrow> distinct (map fst (pd_dict p)) \<and> distinct (map fst (pd_signatures p)) \<and>
     \<not> dict_has (pd_dict p) ''signatures'' \<and> \<not> dict_has (pd_dict p) ''unsigned'' \<and>
     (dict_has (pd_dict p) ''event_id'' \<longleftrightarrow> event_format (pd_room_version p) = ROOM_V1_V2) \<and>
     dict_has (pd_dict p) ''type'' \<and> (\<exists>c. map_of (pd_dict p) ''content'' = Some (JObj c))"

definition content_of :: "pdu \<Rightarrow> json_obj" where
  "content_of p = (case map_of (pd_dict p) ''content'' of Some (JObj c) \<Rightarrow> c | _ \<Rightarrow> [])"

definition type_of_pdu :: "pdu \<Rightarrow> json" where
  "type_of_pdu p = jget (pd_dict p) ''type'' JNull"

lemma pdu_okD:
  assumes "pdu_ok p"
  shows "map_of (pd_dict p) ''content'' = Some (JObj (content_of p))"
    and "map_of (pd_dict p) ''type'' = Some (type_of_pdu p)"
    and "''signatures'' \<notin> fst ` set (pd_dict p)" and "''unsigned'' \<notin> fst ` set (pd_dict p)"
    and "distinct (map fst (pd_dict p))" and "dict_has (pd_dict p) ''event_id'' \<longleftrightarrow> event_format (pd_room_version p) = ROOM_V1_V2"
  using assms by (auto simp: pdu_ok_def content_of_def type_of_pdu_def jget_def dict_has_def map_of_eq_None_iff)

lemma get_dict_append:
  "pdu_ok p \<Longrightarrow> get_dict p = pd_dict p @ [(''signatures'', signatures_json (pd_signatures p)), (''unsigned'', JObj (pd_unsigned p))]"
  by (simp add: get_dict_def update_fresh pdu_okD)

lemma filter_update: "P k \<Longrightarrow> filter (\<lambda>(a, _). P a) (AList.update k v d) = AList.update k v (filter (\<lambda>(a, _). P a) d)"
  by (induction d) auto

lemma update_append: "k \<in> fst ` set d \<Longrightarrow> AList.update k v (d @ e) = AList.update k v d @ e"
  by (induction d) auto

lemma delete_fresh: "k \<notin> fst ` set d \<Longrightarrow> AList.delete k d = d"
  by (induction d) (auto simp: AList.delete_eq)

lemma copy_signatures_json:
  "map_of d ''signatures'' = Some (signatures_json sigs) \<Longrightarrow> copy_signatures d = Inr sigs"
proof -
  have "rmap (\<lambda>(name, s). rbind (py_items s) (\<lambda>s. Inr (name, s))) (map (\<lambda>(name, s). (name, JObj s)) sigs) = Inr sigs"
    by (induction sigs) auto
  then show "map_of d ''signatures'' = Some (signatures_json sigs) \<Longrightarrow> copy_signatures d = Inr sigs"
    by (simp add: copy_signatures_def jget_def signatures_json_def)
qed

definition redacted_dict :: "pdu \<Rightarrow> json_obj" where
  "redacted_dict p = AList.update ''content'' (JObj (kept_content (pd_room_version p) (type_of_pdu p) (content_of p)))
     (filter (\<lambda>(k, v). k \<in> set (allowed_keys (pd_room_version p))) (pd_dict p))"

definition redacted :: "pdu \<Rightarrow> pdu" where
  "redacted p = p\<lparr>pd_dict := redacted_dict p, pd_unsigned := picked (pd_unsigned p) [''age_ts'', ''replaces_state''],
     pd_rejected_reason := None, pd_internal := AList.update ''redacted'' (JBool True) (pd_internal p)\<rparr>"

lemma allowed: "''content'' \<in> set (allowed_keys rv)" "''signatures'' \<in> set (allowed_keys rv)"
  "''unsigned'' \<notin> set (allowed_keys rv)" "''type'' \<in> set (allowed_keys rv)" "''event_id'' \<in> set (allowed_keys rv)"
  by (simp_all add: allowed_keys_def)

lemma map_of_filter_keys: "map_of (filter (\<lambda>(k, v). P k) d) f = (if P f then map_of d f else None)"
  by (induction d) auto

lemma map_of_redacted_dict:
  "map_of (redacted_dict p) f =
     (if f = ''content'' then Some (JObj (kept_content (pd_room_version p) (type_of_pdu p) (content_of p)))
      else if f \<in> set (allowed_keys (pd_room_version p)) then map_of (pd_dict p) f else None)"
  by (simp add: redacted_dict_def update_conv' map_of_filter_keys)

lemma distinct_redacted_dict: "distinct (map fst (pd_dict p)) \<Longrightarrow> distinct (map fst (redacted_dict p))"
  by (simp add: redacted_dict_def distinct_update distinct_map_filter)

lemma redacted_fields [simp]:
  "pd_room_version (redacted p) = pd_room_version p" "pd_dict (redacted p) = redacted_dict p"
  "pd_signatures (redacted p) = pd_signatures p"
  "pd_unsigned (redacted p) = picked (pd_unsigned p) [''age_ts'', ''replaces_state'']"
  by (simp_all add: redacted_def)

lemma type_redacted: "type_of_pdu (redacted p) = type_of_pdu p"
  by (simp add: type_of_pdu_def jget_def map_of_redacted_dict allowed)

lemma content_redacted: "content_of (redacted p) = kept_content (pd_room_version p) (type_of_pdu p) (content_of p)"
  by (simp add: content_of_def map_of_redacted_dict)

lemma pdu_ok_redacted: "pdu_ok p \<Longrightarrow> pdu_ok (redacted p)"
  by (auto simp: pdu_ok_def distinct_redacted_dict dict_has_def map_of_redacted_dict allowed)

lemma copy_unsigned_field_obj:
  "field \<notin> fst ` set acc \<Longrightarrow> copy_unsigned_field (JObj u) field acc = Inr (acc @ picked u [field])"
  by (simp add: copy_unsigned_field_def dict_has_def dict_item_def update_fresh split: option.splits)

lemma prune_unsigned:
  "rbind (copy_unsigned_field (JObj u) ''age_ts'' []) (copy_unsigned_field (JObj u) ''replaces_state'') =
     Inr (picked u [''age_ts'', ''replaces_state''])"
proof -
  have "''replaces_state'' \<notin> fst ` set (picked u [''age_ts''])" using keys_picked [of u "[''age_ts'']"] by auto
  then show ?thesis
    using picked_append [of u "[''age_ts'']" "[''replaces_state'']"]
    by (simp add: copy_unsigned_field_obj del: picked_simps)
qed

lemma prune_get_dict:
  assumes "pdu_ok p"
  shows "prune_event_dict (pd_room_version p) (get_dict p) = Inr (get_dict (redacted p))"
proof -
  let ?rv = "pd_room_version p" and ?u = "picked (pd_unsigned p) [''age_ts'', ''replaces_state'']"
  let ?allowed = "filter (\<lambda>(k, v). k \<in> set (allowed_keys ?rv))"
  note d = pdu_okD [OF assms]
  have g: "map_of (get_dict p) ''content'' = Some (JObj (content_of p))" "map_of (get_dict p) ''type'' = Some (type_of_pdu p)"
    "jget (get_dict p) ''unsigned'' (JObj []) = JObj (pd_unsigned p)"
    using d(1,2) by (simp_all add: get_dict_def update_conv' jget_def)
  have "''content'' \<in> fst ` set (?allowed (pd_dict p))"
    using map_of_SomeD [OF d(1)] by (force simp: allowed)
  then have "AList.update ''content'' (JObj (kept_content ?rv (type_of_pdu p) (content_of p))) (?allowed (get_dict p)) =
      redacted_dict p @ [(''signatures'', signatures_json (pd_signatures p))]"
    by (simp add: get_dict_append [OF assms] allowed update_append redacted_dict_def)
  then have "prune_event_dict ?rv (get_dict p) = Inr (AList.update ''unsigned'' (JObj ?u)
      (redacted_dict p @ [(''signatures'', signatures_json (pd_signatures p))]))"
    using prune_unsigned [of "pd_unsigned p"]
    by (simp add: prune_event_dict_def prune_content_kept [OF g(1,2)] g(3) Let_def rbind_assoc [symmetric]
        del: picked_simps)
  moreover have "''unsigned'' \<notin> fst ` set (redacted_dict p)"
    using pdu_okD(4) [OF pdu_ok_redacted [OF assms]] by simp
  ultimately show ?thesis
    by (simp add: get_dict_append [OF pdu_ok_redacted [OF assms]] update_fresh del: picked_simps)
qed

lemma make_event_get_dict:
  assumes "pdu_ok p"
  shows "make_event_from_dict (get_dict p) (pd_room_version p) meta rejected = Inr (p\<lparr>pd_internal := meta,
     pd_rejected_reason := rejected, pd_stream_ordering := None, pd_outlier := False\<rparr>)"
proof -
  note d = pdu_okD [OF assms]
  have "copy_signatures (get_dict p) = Inr (pd_signatures p)"
    by (rule copy_signatures_json) (simp add: get_dict_def update_conv')
  moreover have "dict_has (get_dict p) ''event_id'' \<longleftrightarrow> event_format (pd_room_version p) = ROOM_V1_V2"
    using d(6) by (simp add: dict_has_def get_dict_def update_conv')
  moreover have "jget (get_dict p) ''unsigned'' (JObj []) = JObj (pd_unsigned p)"
    by (simp add: jget_def get_dict_def update_conv')
  moreover have "AList.delete ''unsigned'' (AList.delete ''signatures'' (get_dict p)) = pd_dict p"
    using d(3,4) by (simp add: get_dict_append [OF assms] AList.delete_eq filter_id_conv) force
  ultimately show ?thesis by (simp add: make_event_from_dict_def py_dict_def)
qed

lemma prune_event_redacted:
  assumes "pdu_ok p"
  shows "prune_event p = Inr (redacted p)"
  using make_event_get_dict [OF pdu_ok_redacted [OF assms], of "pd_internal p" None]
  by (simp add: prune_event_def prune_get_dict [OF assms] redacted_def)

lemma redacted_idem:
  assumes "pdu_ok p"
  shows "redacted (redacted p) = redacted p"
proof -
  have "redacted_dict (redacted p) = redacted_dict p"
    by (simp add: redacted_dict_def [of "redacted p"] type_redacted content_redacted kept_content_idem)
      (simp add: redacted_dict_def filter_update allowed update_twice)
  moreover have "picked (picked u fs) fs = picked u fs" for u fs by (rule picked_cong) simp
  ultimately show ?thesis by (simp add: redacted_def update_twice del: picked_simps)
qed

end
