(* ===== verification/Event_Signing.thy ===== *)
theory Event_Signing
  imports Redaction
begin

text \<open>
  Hashes and signatures of events (\<^verbatim>\<open>synapse/crypto/event_signing.py\<close>) and the event IDs
  derived from them.  The third-party functions are parameters: \<open>cj\<close> is
  \<^verbatim>\<open>encode_canonical_json\<close>, \<open>b64\<close> is \<^verbatim>\<open>encode_base64\<close> (the flag is \<^verbatim>\<open>urlsafe\<close>), \<open>unb64\<close> is
  \<^verbatim>\<open>decode_base64\<close> with \<open>None\<close> for an exception, \<open>sign_json\<close> is the one of signedjson with the
  key left out.  A hash algorithm is the pair of its name and its function.
\<close>

type_synonym hasher = "string \<times> (string \<Rightarrow> string)"
type_synonym canonical = "json_obj \<Rightarrow> string"

section \<open>Hashes\<close>

definition pop_keys :: "string list \<Rightarrow> json_obj \<Rightarrow> json_obj" where
  "pop_keys ks d = fold AList.delete ks d"

definition compute_content_hash :: "canonical \<Rightarrow> hasher \<Rightarrow> json_obj \<Rightarrow> string \<times> string" where
  "compute_content_hash cj hash_algorithm event_dict =
     (fst hash_algorithm, snd hash_algorithm (cj
       (pop_keys [''age_ts'', ''unsigned'', ''signatures'', ''hashes'', ''outlier'', ''destinations''] event_dict)))"

text \<open>
  The log message reads \<^verbatim>\<open>event.event_id\<close>, which redacts the event in the formats where the ID
  is a hash.
\<close>

definition log_event_id :: "pdu \<Rightarrow> unit result" where
  "log_event_id p = (if event_format (pd_room_version p) = ROOM_V1_V2 then Inr ()
     else rbind (prune_event p) (\<lambda>_. Inr ()))"

definition check_event_content_hash ::
  "canonical \<Rightarrow> hasher \<Rightarrow> (json \<Rightarrow> string option) \<Rightarrow> pdu \<Rightarrow> bool result" where
  "check_event_content_hash cj hash_algorithm unb64 p =
     rbind (log_event_id p) (\<lambda>_.
     case compute_content_hash cj hash_algorithm (get_pdu_json p) of (name, expected_hash) \<Rightarrow>
        (case jget (pd_dict p) ''hashes'' JNull of
           JObj hashes \<Rightarrow>
             (case map_of hashes name of
                None \<Rightarrow> Inl (SynapseError 400 ''Algorithm %s not in hashes %s'' UNAUTHORIZED)
              | Some message_hash_base64 \<Rightarrow>
                  (case unb64 message_hash_base64 of
                     None \<Rightarrow> Inl (SynapseError 400 ''Invalid base64: %s'' UNAUTHORIZED)
                   | Some message_hash_bytes \<Rightarrow> Inr (message_hash_bytes = expected_hash)))
         | _ \<Rightarrow> Inl (SynapseError 400 ''Malformed 'hashes': %s'' UNAUTHORIZED)))"

definition compute_event_reference_hash :: "canonical \<Rightarrow> hasher \<Rightarrow> pdu \<Rightarrow> (string \<times> string) result" where
  "compute_event_reference_hash cj hash_algorithm p =
     rbind (prune_event p) (\<lambda>tmp_event.
     Inr (fst hash_algorithm, snd hash_algorithm (cj
       (pop_keys [''signatures'', ''age_ts'', ''unsigned''] (get_pdu_json tmp_event)))))"

text \<open>\<^verbatim>\<open>event.event_id\<close> in the three event formats.\<close>

definition event_id_of :: "canonical \<Rightarrow> hasher \<Rightarrow> (bool \<Rightarrow> string \<Rightarrow> string) \<Rightarrow> pdu \<Rightarrow> json result" where
  "event_id_of cj sha256 b64 p =
     (if event_format (pd_room_version p) = ROOM_V1_V2 then dict_item (pd_dict p) ''event_id''
      else rbind (compute_event_reference_hash cj sha256 p) (\<lambda>h.
        Inr (JStr (''$'' @ b64 (event_format (pd_room_version p) \<noteq> ROOM_V3) (snd h)))))"

section \<open>Signatures\<close>

definition compute_event_signature :: "(json_obj \<Rightarrow> json_obj) \<Rightarrow> room_version \<Rightarrow> json_obj \<Rightarrow> json result" where
  "compute_event_signature sign_json rv event_dict =
     rbind (prune_event_dict rv event_dict) (\<lambda>redact_json.
     dict_item (sign_json (pop_keys [''age_ts'', ''unsigned''] redact_json)) ''signatures'')"

text \<open>\<^verbatim>\<open>event_dict.setdefault("hashes", {})[name] = v\<close>.\<close>

definition set_hash :: "string \<Rightarrow> string \<Rightarrow> json_obj \<Rightarrow> json_obj result" where
  "set_hash name v event_dict =
     (case jget event_dict ''hashes'' (JObj []) of
        JObj hashes \<Rightarrow> Inr (AList.update ''hashes'' (JObj (AList.update name (JStr v) hashes)) event_dict)
      | _ \<Rightarrow> Inl PyTypeError)"

definition add_hashes_and_signatures ::
  "canonical \<Rightarrow> hasher \<Rightarrow> (bool \<Rightarrow> string \<Rightarrow> string) \<Rightarrow> (json_obj \<Rightarrow> json_obj) \<Rightarrow> room_version \<Rightarrow> json_obj
     \<Rightarrow> json_obj result" where
  "add_hashes_and_signatures cj sha256 b64 sign_json rv event_dict =
     (case compute_content_hash cj sha256 event_dict of (name, digest) \<Rightarrow>
        rbind (set_hash name (b64 False digest) event_dict) (\<lambda>event_dict'.
        rbind (compute_event_signature sign_json rv event_dict') (\<lambda>signatures.
        Inr (AList.update ''signatures'' signatures event_dict'))))"

section \<open>Popping keys\<close>

lemma pop_keys_filter: "pop_keys ks d = filter (\<lambda>(k, v). k \<notin> set ks) d"
  by (induction ks arbitrary: d) (auto simp: pop_keys_def AList.delete_eq intro: filter_cong)

lemma pop_update: "k \<in> set ks \<Longrightarrow> pop_keys ks (AList.update k v d) = pop_keys ks d"
  by (induction d) (auto simp: pop_keys_filter)

lemma pop_delete: "k \<in> set ks \<Longrightarrow> pop_keys ks (AList.delete k d) = pop_keys ks d"
  by (induction d) (auto simp: pop_keys_filter AList.delete_eq)

lemma content_hash_pdu: "compute_content_hash cj h (get_pdu_json p) = compute_content_hash cj h (pd_dict p)"
  by (simp add: compute_content_hash_def get_pdu_json_def get_dict_def pop_update)

text \<open>Whether redaction succeeds depends on the type and the content only.\<close>

lemma prune_content_cong:
  assumes "map_of d ''type'' = map_of d' ''type''" and "map_of d ''content'' = map_of d' ''content''"
  shows "prune_content rv d = prune_content rv d'"
proof -
  have items: "dict_item d ''type'' = dict_item d' ''type''" "dict_item d ''content'' = dict_item d' ''content''"
    using assms by (simp_all add: dict_item_def)
  show ?thesis
    unfolding prune_content_def new_content_for_def add_fields_def add_signed_invite_def add_relates_to_def items ..
qed

lemma prune_made_event:
  assumes "make_event_from_dict d rv meta rejected = Inr p" and "prune_content rv d = Inr c"
  shows "is_ok (prune_event p)"
proof -
  have p: "pd_dict p = AList.delete ''unsigned'' (AList.delete ''signatures'' d)" "pd_room_version p = rv"
    and id: "event_format rv = ROOM_V1_V2 \<longleftrightarrow> dict_has d ''event_id''"
    using assms(1) by (auto simp: make_event_from_dict_def rbind_Inr_iff)
  have other: "map_of (get_dict p) f = map_of d f" if "f \<noteq> ''signatures''" "f \<noteq> ''unsigned''" for f
    using that by (simp add: get_dict_def update_conv' p delete_conv')
  then have "prune_content rv (get_dict p) = Inr c"
    using prune_content_cong [of "get_dict p" d] assms(2) by simp
  moreover have "jget (get_dict p) ''unsigned'' (JObj []) = JObj (pd_unsigned p)"
    by (simp add: get_dict_def update_conv' jget_def)
  ultimately have "prune_event_dict rv (get_dict p) = Inr (AList.update ''unsigned''
      (JObj (picked (pd_unsigned p) [''age_ts'', ''replaces_state''])) (AList.update ''content'' c
        (filter (\<lambda>(k, v). k \<in> set (allowed_keys rv)) (get_dict p))))" (is "_ = Inr ?d")
    using prune_unsigned [of "pd_unsigned p"]
    by (simp add: prune_event_dict_def Let_def rbind_assoc [symmetric] del: picked_simps)
  moreover have "copy_signatures ?d = Inr (pd_signatures p)"
    by (rule copy_signatures_json) (simp add: update_conv' map_of_filter_keys allowed get_dict_def del: picked_simps)
  moreover have "dict_has ?d ''event_id'' \<longleftrightarrow> event_format rv = ROOM_V1_V2"
    using other by (simp add: id dict_has_def update_conv' map_of_filter_keys allowed)
  moreover have "jget ?d ''unsigned'' (JObj []) = JObj (picked (pd_unsigned p) [''age_ts'', ''replaces_state''])"
    by (simp add: jget_def update_conv' del: picked_simps)
  ultimately show ?thesis
    by (simp add: prune_event_def p make_event_from_dict_def py_dict_def del: picked_simps)
qed

section \<open>Redaction keeps the identity of an event\<close>

lemma event_id_redacted: "pdu_ok p \<Longrightarrow> event_id_of cj h b64 (redacted p) = event_id_of cj h b64 p"
  by (simp add: event_id_of_def compute_event_reference_hash_def prune_event_redacted pdu_ok_redacted redacted_idem
      map_of_redacted_dict allowed dict_item_def)

text \<open>
  C11.  Redaction always succeeds on an event object with a type and an object as content, it
  is idempotent, and it changes neither the reference hash nor the event ID nor what the
  servers have signed: a server that only has the redacted event computes the same ID and
  can check the same signatures.
\<close>

theorem redaction_keeps_identity:
  assumes "pdu_ok p"
  shows "\<exists>q. prune_event p = Inr q \<and> prune_event q = Inr q \<and>
    compute_event_reference_hash cj h q = compute_event_reference_hash cj h p \<and>
    event_id_of cj h b64 q = event_id_of cj h b64 p \<and>
    compute_event_signature sign_json (pd_room_version p) (get_dict q) =
      compute_event_signature sign_json (pd_room_version p) (get_dict p) \<and>
    pd_signatures q = pd_signatures p"
proof -
  let ?q = "redacted p"
  note q = prune_event_redacted [OF assms] prune_event_redacted [OF pdu_ok_redacted [OF assms]]
  have idem: "redacted ?q = ?q" by (rule redacted_idem [OF assms])
  have ref: "compute_event_reference_hash cj h ?q = compute_event_reference_hash cj h p"
    by (simp add: compute_event_reference_hash_def q idem)
  have "compute_event_signature sign_json (pd_room_version p) (get_dict ?q) =
      compute_event_signature sign_json (pd_room_version p) (get_dict p)"
    using prune_get_dict [OF pdu_ok_redacted [OF assms]]
    by (simp add: compute_event_signature_def prune_get_dict [OF assms] idem)
  then show ?thesis using q ref event_id_redacted [OF assms] by (simp add: idem)
qed

text \<open>
  C14.  Signing and checking fit together: an event that the server has hashed and signed
  passes the check of its content hash when it is turned into an object, whatever hash and
  encoding are used, if decoding base64 inverts encoding it; and the content hash does not
  depend on signatures, hashes or unsigned data.
\<close>

theorem hashed_event_passes_check:
  assumes "\<And>s. unb64 (JStr (b64 False s)) = Some s"
    and "add_hashes_and_signatures cj h b64 sign_json rv d = Inr d'"
    and "make_event_from_dict d' rv meta rejected = Inr p"
  shows "check_event_content_hash cj h unb64 p = Inr True \<and>
    compute_content_hash cj h d' = compute_content_hash cj h d"
proof -
  let ?hd = "compute_content_hash cj h d"
  obtain hs sigs c where hs: "jget d ''hashes'' (JObj []) = JObj hs"
    and d': "d' = AList.update ''signatures'' sigs
      (AList.update ''hashes'' (JObj (AList.update (fst ?hd) (JStr (b64 False (snd ?hd))) hs)) d)"
    and c: "prune_content rv (AList.update ''hashes'' (JObj (AList.update (fst ?hd) (JStr (b64 False (snd ?hd))) hs)) d) = Inr c"
    using assms(2) unfolding add_hashes_and_signatures_def set_hash_def compute_event_signature_def prune_event_dict_def
    by (auto simp: rbind_Inr_iff case_prod_unfold split: json.splits)
  have same: "compute_content_hash cj h d' = ?hd"
    by (simp add: d' compute_content_hash_def pop_update)
  have p: "pd_dict p = AList.delete ''unsigned'' (AList.delete ''signatures'' d')"
    using assms(3) by (auto simp: make_event_from_dict_def rbind_Inr_iff)
  have "compute_content_hash cj h (get_pdu_json p) = ?hd"
    unfolding content_hash_pdu using same by (simp add: p compute_content_hash_def pop_delete)
  moreover have "jget (pd_dict p) ''hashes'' JNull = JObj (AList.update (fst ?hd) (JStr (b64 False (snd ?hd))) hs)"
    by (simp add: p jget_def delete_conv' d' update_conv')
  moreover have "prune_content rv d' = Inr c"
    unfolding c [symmetric] by (rule prune_content_cong) (simp_all add: d' update_conv')
  then have "log_event_id p = Inr ()"
    using prune_made_event [OF assms(3)] by (auto simp: log_event_id_def is_ok_iff)
  ultimately show ?thesis
    using same assms(1) by (simp add: check_event_content_hash_def case_prod_unfold update_conv')
qed

section \<open>A sample\<close>

definition sample_pdu :: pdu where
  "sample_pdu = \<lparr>pd_dict = [(''type'', JStr EventTypes_Member), (''sender'', JStr ''@a:x''), (''state_key'', JStr ''@a:x''),
       (''content'', JObj [(''displayname'', JStr ''A''), (''membership'', JStr ''join'')]), (''extra'', JNull)],
     pd_signatures = [(''x'', [(''ed25519:1'', JStr ''s'')])], pd_unsigned = [(''age'', JInt 3), (''age_ts'', JInt 7)],
     pd_room_version = V11, pd_rejected_reason = None, pd_internal = [], pd_stream_ordering = Some 5, pd_outlier = False\<rparr>"

lemma sample_pdu_ok: "pdu_ok sample_pdu"
  by (simp add: pdu_ok_def sample_pdu_def dict_has_def V11_def)

theorem redaction_keeps_identity_witness:
  "\<exists>q. prune_event sample_pdu = Inr q \<and> prune_event q = Inr q \<and>
     event_id_of (\<lambda>d. concat (map fst d)) (''sha256'', \<lambda>s. s) (\<lambda>u s. s) q =
       event_id_of (\<lambda>d. concat (map fst d)) (''sha256'', \<lambda>s. s) (\<lambda>u s. s) sample_pdu \<and>
     content_of q = [(''membership'', JStr ''join'')]"
proof -
  have "content_of (redacted sample_pdu) = [(''membership'', JStr ''join'')]" by code_simp
  then show ?thesis
    using redaction_keeps_identity [OF sample_pdu_ok, of "\<lambda>d. concat (map fst d)" "(''sha256'', \<lambda>s. s)" "\<lambda>u s. s"]
      prune_event_redacted [OF sample_pdu_ok] by auto
qed

theorem hashed_event_passes_check_witness:
  "\<exists>d p. add_hashes_and_signatures (\<lambda>d. concat (map fst d)) (''sha256'', \<lambda>s. s) (\<lambda>u s. s)
       (AList.update ''signatures'' (JObj [(''x'', JObj [])])) V11 (pd_dict sample_pdu) = Inr d \<and>
     make_event_from_dict d V11 [] None = Inr p \<and>
     check_event_content_hash (\<lambda>d. concat (map fst d)) (''sha256'', \<lambda>s. s) (\<lambda>j. case j of JStr s \<Rightarrow> Some s | _ \<Rightarrow> None) p = Inr True"
proof -
  let ?cj = "\<lambda>d :: json_obj. concat (map fst d)" and ?h = "(''sha256'', \<lambda>s. s) :: hasher"
  let ?sign = "AList.update ''signatures'' (JObj [(''x'', JObj [])])"
  obtain d p where run: "add_hashes_and_signatures ?cj ?h (\<lambda>u s. s) ?sign V11 (pd_dict sample_pdu) = Inr d"
    "make_event_from_dict d V11 [] None = Inr p"
  proof -
    have "is_ok (rbind (add_hashes_and_signatures ?cj ?h (\<lambda>u s. s) ?sign V11 (pd_dict sample_pdu))
        (\<lambda>d. make_event_from_dict d V11 [] None))"
      by code_simp
    then show ?thesis using that by (auto simp: is_ok_iff rbind_Inr_iff)
  qed
  with hashed_event_passes_check [of "\<lambda>j. case j of JStr s \<Rightarrow> Some s | _ \<Rightarrow> None" "\<lambda>u s. s", OF _ run]
  show ?thesis by auto
qed

end
