(* ===== verification/Redaction_Auth.thy ===== *)
theory Redaction_Auth
  imports Event_Signing Event_Auth_Safety
begin

text \<open>
  Redaction and authorisation.  From room version 11 on, redaction keeps every field of the
  state that the authorisation rules read (third-party invites apart), so that redacting
  state events does not change which events are allowed.
\<close>

section \<open>States that authorise alike\<close>

text \<open>The fields of a state event that the rules read, by type.\<close>

definition auth_fields :: "string \<Rightarrow> string list" where
  "auth_fields t =
     (if t = EventTypes_Member then [''membership'']
      else if t = EventTypes_Create then [ROOM_CREATOR, FEDERATE]
      else if t = EventTypes_JoinRules then [''join_rule'']
      else if t = EventTypes_PowerLevels then [''users'', ''users_default'', ''events'', ''events_default'',
        ''state_default'', ''ban'', ''kick'', ''redact'', ''invite'']
      else [])"

definition alike :: "event \<Rightarrow> event \<Rightarrow> bool" where
  "alike a b \<longleftrightarrow> ev_type b = ev_type a \<and> ev_sender b = ev_sender a \<and> ev_state_key b = ev_state_key a \<and>
     ev_room_version b = ev_room_version a \<and> ev_event_id b = ev_event_id a \<and>
     (\<forall>f \<in> set (auth_fields (ev_type a)). map_of (ev_content b) f = map_of (ev_content a) f) \<and>
     (ev_type a = EventTypes_ThirdPartyInvite \<longrightarrow> ev_content b = ev_content a) \<and>
     (ev_type a = EventTypes_PowerLevels \<longrightarrow> dict_has (ev_content a) ''notifications'' \<or>
        map_of (ev_content b) ''notifications'' = map_of (ev_content a) ''notifications'')"

definition state_alike :: "state_map \<Rightarrow> state_map \<Rightarrow> bool" where
  "state_alike auth auth' \<longleftrightarrow>
     (\<forall>k. rel_option (\<lambda>a b. ev_type a = fst k \<and> alike a b) (auth k) (auth' k))"

lemma state_alikeE:
  assumes "state_alike auth auth'"
  obtains "auth (t, k) = None" "auth' (t, k) = None"
  | a b where "auth (t, k) = Some a" "auth' (t, k) = Some b" "ev_type a = t" "alike a b"
proof -
  have "rel_option (\<lambda>a b. ev_type a = t \<and> alike a b) (auth (t, k)) (auth' (t, k))"
    using assms unfolding state_alike_def by force
  then show ?thesis by (cases rule: option.rel_cases) (auto intro: that)
qed

lemma alikeD:
  assumes "alike a b"
  shows "ev_type b = ev_type a" "ev_sender b = ev_sender a" "ev_state_key b = ev_state_key a"
    "ev_room_version b = ev_room_version a" "ev_event_id b = ev_event_id a"
  using assms by (simp_all add: alike_def)

lemma alike_field:
  assumes "alike a b" and "f \<in> set (auth_fields (ev_type a))"
  shows "map_of (ev_content b) f = map_of (ev_content a) f"
  using assms by (simp add: alike_def)

named_theorems alike_reads \<open>what a rule reads of alike states\<close>

lemma get_named_level_alike [alike_reads]:
  assumes "state_alike auth auth'" and "name \<in> set (auth_fields EventTypes_PowerLevels)"
  shows "get_named_level auth' name d = get_named_level auth name d"
  by (cases rule: state_alikeE [OF assms(1), of EventTypes_PowerLevels "[]"])
    (use assms(2) in \<open>simp_all add: get_named_level_def get_power_level_event_def jget_def alike_field\<close>)

lemma creator_of_alike:
  "alike a b \<Longrightarrow> ev_type a = EventTypes_Create \<Longrightarrow> creator_of rv b = creator_of rv a"
  by (auto simp: creator_of_def dict_item_def alike_def auth_fields_def)

lemma get_user_power_level_alike [alike_reads]:
  assumes "state_alike auth auth'"
  shows "get_user_power_level u auth' = get_user_power_level u auth"
proof (cases rule: state_alikeE [OF assms, of EventTypes_PowerLevels "[]"])
  case 1
  then show ?thesis
    by (cases rule: state_alikeE [OF assms, of EventTypes_Create "[]"])
      (simp_all add: get_user_power_level_def get_power_level_event_def creator_of_alike alikeD)
next
  case (2 a b)
  then show ?thesis
    by (simp add: get_user_power_level_def get_power_level_event_def jget_def alike_field auth_fields_def cong: if_cong)
qed

lemma get_send_level_alike [alike_reads]:
  assumes "state_alike auth auth'"
  shows "get_send_level t k (get_power_level_event auth') = get_send_level t k (get_power_level_event auth)"
  by (cases rule: state_alikeE [OF assms, of EventTypes_PowerLevels "[]"])
    (simp_all add: get_send_level_def get_power_level_event_def jget_def alike_field auth_fields_def Let_def cong: if_cong)

lemma can_federate_alike [alike_reads]:
  assumes "state_alike auth auth'"
  shows "can_federate auth' = can_federate auth"
  by (cases rule: state_alikeE [OF assms, of EventTypes_Create "[]"])
    (simp_all add: can_federate_def jget_def alike_field auth_fields_def)

lemma membership_alike:
  "alike a b \<Longrightarrow> ev_type a = EventTypes_Member \<Longrightarrow> membership_of b = membership_of a"
  by (simp add: membership_of_def dict_item_def alike_field auth_fields_def)

lemma has_membership_alike [alike_reads]:
  assumes "state_alike auth auth'"
  shows "has_membership (auth' (EventTypes_Member, u)) m = has_membership (auth (EventTypes_Member, u)) m"
  by (cases rule: state_alikeE [OF assms, of EventTypes_Member u]) (simp_all add: has_membership_def membership_alike)

lemma check_joined_room_alike [alike_reads]:
  assumes "state_alike auth auth'"
  shows "check_joined_room (auth' (EventTypes_Member, u)) = check_joined_room (auth (EventTypes_Member, u))"
  by (cases rule: state_alikeE [OF assms, of EventTypes_Member u]) (simp_all add: check_joined_room_def membership_alike)

lemma join_rule_alike [alike_reads]:
  assumes "state_alike auth auth'"
  shows "join_rule_in auth' = join_rule_in auth"
  by (cases rule: state_alikeE [OF assms, of EventTypes_JoinRules "[]"])
    (simp_all add: join_rule_in_def jget_def alike_field auth_fields_def)

lemma is_creator_join_alike [alike_reads]:
  assumes "state_alike auth auth'"
  shows "is_creator_join rv e m auth' = is_creator_join rv e m auth"
  by (cases rule: state_alikeE [OF assms, of EventTypes_Create "[]"])
    (simp_all add: is_creator_join_def creator_of_alike alikeD)

lemma gather_facts_alike [alike_reads]:
  assumes "state_alike auth auth'"
  shows "gather_membership_facts rv e t auth' = gather_membership_facts rv e t auth"
  using join_rule_alike [OF assms]
  by (simp add: gather_membership_facts_def alike_reads [OF assms] auth_fields_def join_rule_in_def Let_def)

lemma restricted_join_alike [alike_reads]:
  assumes "state_alike auth auth'"
  shows "check_restricted_join e f auth' = check_restricted_join e f auth"
proof -
  have "rbind (auth_get_json auth' EventTypes_Member v) (\<lambda>m. rbind (check_joined_room m) g) =
      rbind (auth_get_json auth EventTypes_Member v) (\<lambda>m. rbind (check_joined_room m) g)"
    for v and g :: "unit \<Rightarrow> unit result"
    by (cases v) (simp_all add: check_joined_room_alike [OF assms])
  then show ?thesis
    by (simp add: check_restricted_join_def get_user_power_level_alike [OF assms] Let_def cong: json.case_cong)
qed

lemma third_party_invite_alike [alike_reads]:
  assumes "state_alike auth auth'"
  shows "verify_third_party_invite vs e auth' = verify_third_party_invite vs e auth"
proof -
  have "rbind (auth_get_json auth' EventTypes_ThirdPartyInvite v) (\<lambda>ie. case ie of None \<Rightarrow> Inr False
      | Some i \<Rightarrow> if ev_sender i \<noteq> ev_sender e then Inr False else rbind (state_key_of e) (\<lambda>k.
          if m \<noteq> JStr k then Inr False else rbind (get_public_keys i) g)) =
    rbind (auth_get_json auth EventTypes_ThirdPartyInvite v) (\<lambda>ie. case ie of None \<Rightarrow> Inr False
      | Some i \<Rightarrow> if ev_sender i \<noteq> ev_sender e then Inr False else rbind (state_key_of e) (\<lambda>k.
          if m \<noteq> JStr k then Inr False else rbind (get_public_keys i) g))"
    for v m and g :: "json list \<Rightarrow> bool result"
  proof (cases v)
    case (JStr k)
    then show ?thesis
      by (cases rule: state_alikeE [OF assms, of EventTypes_ThirdPartyInvite k])
        (simp_all add: alike_def get_public_keys_def cong: if_cong)
  qed simp_all
  then show ?thesis
    unfolding verify_third_party_invite_def by (simp cong: option.case_cong json.case_cong)
qed

section \<open>The rules on alike states\<close>

lemma check_join_alike: "state_alike auth auth' \<Longrightarrow> check_join rv e t f auth' = check_join rv e t f auth"
  by (simp only: check_join_def restricted_join_alike)

lemma check_leave_alike:
  assumes "state_alike auth auth'"
  shows "check_leave e t f auth' = check_leave e t f auth"
proof -
  have "get_named_level auth' ''kick'' 50 = get_named_level auth ''kick'' 50"
    by (rule get_named_level_alike [OF assms]) (simp add: auth_fields_def)
  then show ?thesis by (simp only: check_leave_def)
qed

lemma decide_membership_alike:
  "state_alike auth auth' \<Longrightarrow> decide_membership vs rv e m t f auth' = decide_membership vs rv e m t f auth"
  by (simp only: decide_membership_def third_party_invite_alike check_join_alike check_leave_alike)

lemma membership_change_alike:
  "state_alike auth auth' \<Longrightarrow> is_membership_change_allowed vs rv e auth' = is_membership_change_allowed vs rv e auth"
  by (simp only: is_membership_change_allowed_def is_creator_join_alike can_federate_alike gather_facts_alike
      decide_membership_alike)

lemma can_send_event_alike:
  "state_alike auth auth' \<Longrightarrow> can_send_event e auth' = can_send_event e auth"
  by (simp add: can_send_event_def alike_reads [of auth auth'] cong: if_cong)

lemma check_redaction_alike:
  "state_alike auth auth' \<Longrightarrow> check_redaction rv e auth' = check_redaction rv e auth"
  by (simp add: check_redaction_def alike_reads [of auth auth'] auth_fields_def)

lemma union_levels_dir: "union_levels old new dir = Inr xs \<Longrightarrow> y \<in> set xs \<Longrightarrow> snd y = Some dir"
  by (auto simp: union_levels_def rbind_Inr_iff)

lemma levels_to_check_shape:
  assumes "levels_to_check rv old new = Inr ls" and "(x, dir) \<in> set ls"
  shows "dir = None \<and> x \<in> JStr ` set named_levels \<or> dir \<in> Some ` {''users'', ''events'', ''notifications''}"
proof -
  obtain us es ns where parts: "union_levels old new ''users'' = Inr us" "union_levels old new ''events'' = Inr es"
    "(if limit_notifications_power_levels rv then union_levels old new ''notifications'' else Inr []) = Inr ns"
    "ls = map (\<lambda>n. (JStr n, None)) named_levels @ us @ es @ ns"
    using assms(1) unfolding levels_to_check_def rbind_Inr_iff by blast
  have "snd y = Some ''notifications''" if "y \<in> set ns" for y
    using parts(3) that by (auto split: if_splits dest: union_levels_dir)
  then show ?thesis
    using assms(2) parts(4) union_levels_dir [OF parts(1)] union_levels_dir [OF parts(2)] by fastforce
qed

lemma level_change_alike:
  assumes "\<And>f. f \<in> set (named_levels @ [''users'', ''events'', ''notifications'']) \<Longrightarrow> map_of c' f = map_of c f"
    and "ld \<in> set ls" and "levels_to_check rv c new = Inr ls"
  shows "check_level_change s ul c' new ld = check_level_change s ul c new ld"
proof -
  obtain x dir where ld: "ld = (x, dir)" by (cases ld)
  have "dir = None \<and> x \<in> JStr ` set named_levels \<or> dir \<in> Some ` {''users'', ''events'', ''notifications''}"
    using levels_to_check_shape [OF assms(3)] assms(2) unfolding ld .
  then consider n where "dir = None" "x = JStr n" "n \<in> set named_levels"
    | d where "dir = Some d" "d \<in> {''users'', ''events'', ''notifications''}" by blast
  then have "level_in (location_in c' dir) x = level_in (location_in c dir) x"
  proof cases
    case 1
    then have "map_of c' n = map_of c n" by (intro assms(1)) simp
    with 1 show ?thesis by (simp add: location_in_def level_in_def dict_has_def dict_item_def)
  next
    case 2
    then have "map_of c' d = map_of c d" by (intro assms(1)) auto
    with 2 show ?thesis by (simp add: location_in_def jget_def)
  qed
  then show ?thesis by (simp add: check_level_change_def ld)
qed

lemma levels_to_check_alike:
  assumes "\<And>f. f \<in> {''users'', ''events'', ''notifications''} \<Longrightarrow> map_of c' f = map_of c f"
  shows "levels_to_check rv c' new = levels_to_check rv c new"
  using assms by (simp add: levels_to_check_def union_levels_def jget_def)

lemma check_power_levels_alike:
  assumes st: "state_alike auth auth'" and ty: "ev_type e = EventTypes_PowerLevels"
    and no: "\<And>k a. auth (EventTypes_PowerLevels, k) = Some a \<Longrightarrow> \<not> dict_has (ev_content a) ''notifications''"
  shows "check_power_levels rv e auth' = check_power_levels rv e auth"
proof -
  have "(case auth' (ev_type e, k) of None \<Rightarrow> Inr () | Some cur \<Rightarrow>
       rbind (get_user_power_level (ev_sender e) auth') (\<lambda>ul.
       rbind (levels_to_check rv (ev_content cur) (ev_content e)) (\<lambda>ls.
       for_each (check_level_change (ev_sender e) ul (ev_content cur) (ev_content e)) ls))) =
     (case auth (ev_type e, k) of None \<Rightarrow> Inr () | Some cur \<Rightarrow>
       rbind (get_user_power_level (ev_sender e) auth) (\<lambda>ul.
       rbind (levels_to_check rv (ev_content cur) (ev_content e)) (\<lambda>ls.
       for_each (check_level_change (ev_sender e) ul (ev_content cur) (ev_content e)) ls)))" for k
  proof (cases rule: state_alikeE [OF st, of EventTypes_PowerLevels k])
    case (2 a b)
    have fields: "map_of (ev_content b) f = map_of (ev_content a) f"
      if "f \<in> set (named_levels @ [''users'', ''events'', ''notifications''])" for f
      using 2(3,4) no [OF 2(1)] that by (auto simp: alike_def auth_fields_def named_levels_def)
    have "levels_to_check rv (ev_content b) new = levels_to_check rv (ev_content a) new" for new
      by (rule levels_to_check_alike) (use fields in auto)
    moreover have "for_each (check_level_change s ul (ev_content b) new) ls = for_each (check_level_change s ul (ev_content a) new) ls"
      if "levels_to_check rv (ev_content a) new = Inr ls" for s ul new ls
      by (rule for_each_cong) (use level_change_alike [OF fields _ that] in auto)
    ultimately show ?thesis
      using 2(1,2) ty by (simp add: get_user_power_level_alike [OF st] cong: rbind_cong)
  qed (simp add: ty)
  then show ?thesis by (simp only: check_power_levels_def)
qed

lemma rules_alike:
  assumes "state_alike auth auth'"
    and "\<And>k a. ev_type e = EventTypes_PowerLevels \<Longrightarrow> auth (EventTypes_PowerLevels, k) = Some a \<Longrightarrow>
      \<not> dict_has (ev_content a) ''notifications''"
  shows "check_rules_with_dict vs e auth' = check_rules_with_dict vs e auth"
proof -
  have inv: "get_named_level auth' ''invite'' 0 = get_named_level auth ''invite'' 0"
    by (rule get_named_level_alike [OF assms(1)]) (simp add: auth_fields_def)
  have sender: "check_event_sender_in_room e auth' = check_event_sender_in_room e auth"
    by (simp add: check_event_sender_in_room_def check_joined_room_alike [OF assms(1)])
  have pl: "(if ev_type e = EventTypes_PowerLevels then check_power_levels (ev_room_version e) e auth' else Inr ()) =
      (if ev_type e = EventTypes_PowerLevels then check_power_levels (ev_room_version e) e auth else Inr ())"
    using check_power_levels_alike [OF assms(1) _ assms(2)] by simp
  show ?thesis
    unfolding check_rules_with_dict_def pl sender inv can_federate_alike [OF assms(1)] membership_change_alike [OF assms(1)]
      get_user_power_level_alike [OF assms(1)] can_send_event_alike [OF assms(1)] check_redaction_alike [OF assms(1)] ..
qed

section \<open>The state of a room before and after redactions\<close>

lemma make_auth_dict_alike:
  assumes "list_all2 alike es fs"
  shows "rel_sum (=) (\<lambda>m m'. state_alike m m' \<and> (\<forall>k a. m k = Some a \<longrightarrow> a \<in> set es)) (make_auth_dict es) (make_auth_dict fs)"
proof -
  let ?step = "\<lambda>ae m. rbind (state_key_pair ae) (\<lambda>k. Inr (m(k \<mapsto> ae)))"
  let ?rel = "\<lambda>A m m'. state_alike m m' \<and> (\<forall>k a. m k = Some a \<longrightarrow> a \<in> A)"
  have "rel_sum (=) (?rel (A \<union> set es)) (rfold ?step es m) (rfold ?step fs m')" if "?rel A m m'" for A m m'
    using assms that
  proof (induction es fs arbitrary: A m m' rule: list_all2_induct)
    case (Cons a es b fs)
    then have key: "state_key_pair b = state_key_pair a" by (simp add: state_key_pair_def state_key_of_def alikeD)
    show ?case
    proof (cases "state_key_pair a")
      case (Inr k)
      then have "fst k = ev_type a" by (auto simp: state_key_pair_def rbind_Inr_iff)
      then have "?rel (insert a A) (m(k \<mapsto> a)) (m'(k \<mapsto> b))"
        using Cons by (auto simp: state_alike_def)
      from Cons.IH [OF this] show ?thesis by (simp add: key Inr)
    qed (simp add: key)
  qed auto
  from this [where A = "{}" and m = Map.empty and m' = Map.empty] show ?thesis
    by (simp add: make_auth_dict_def state_alike_def)
qed

text \<open>An event of \<open>Events\<close> as the typed view of an event object, on the fields the rules read.\<close>

definition views :: "canonical \<Rightarrow> hasher \<Rightarrow> (bool \<Rightarrow> string \<Rightarrow> string) \<Rightarrow> pdu \<Rightarrow> event \<Rightarrow> bool" where
  "views cj h b64 p e \<longleftrightarrow> map_of (pd_dict p) ''type'' = Some (JStr (ev_type e)) \<and>
     map_of (pd_dict p) ''sender'' = Some (JStr (ev_sender e)) \<and>
     map_of (pd_dict p) ''state_key'' = map_option JStr (ev_state_key e) \<and>
     map_of (pd_dict p) ''content'' = Some (JObj (ev_content e)) \<and>
     pd_room_version p = ev_room_version e \<and> event_id_of cj h b64 p = Inr (JStr (ev_event_id e))"

text \<open>An object that is left alone, or redacted under the rules of room version 11.\<close>

definition maybe_redacted :: "pdu \<Rightarrow> pdu \<Rightarrow> bool" where
  "maybe_redacted p q \<longleftrightarrow> q = p \<or> pdu_ok p \<and> updated_redaction_rules (pd_room_version p) \<and>
     type_of_pdu p \<noteq> JStr EventTypes_ThirdPartyInvite \<and> prune_event p = Inr q"

lemma auth_fields_kept:
  assumes "updated_redaction_rules rv" and "t \<noteq> EventTypes_Create"
  shows "set (auth_fields t) \<subseteq> set (kept_fields rv (JStr t))"
proof -
  consider "t = EventTypes_Member" | "t = EventTypes_JoinRules" | "t = EventTypes_PowerLevels"
    | "t \<noteq> EventTypes_Member" "t \<noteq> EventTypes_JoinRules" "t \<noteq> EventTypes_PowerLevels" by blast
  then show ?thesis by cases (simp_all add: auth_fields_def kept_fields_def assms)
qed

lemma auth_fields_plain: "''m.relates_to'' \<notin> set (auth_fields t)" "''third_party_invite'' \<notin> set (auth_fields t)"
  by (simp_all add: auth_fields_def)

lemma kept_auth_field:
  assumes "updated_redaction_rules rv" and "f \<in> set (auth_fields t)"
  shows "map_of (kept_content rv (JStr t) c) f = map_of c f"
proof -
  have rel: "f \<noteq> ''m.relates_to''" and tpi: "f \<noteq> ''third_party_invite''"
    using assms(2) auth_fields_plain by metis+
  have "t = EventTypes_Create \<or> f \<in> set (kept_fields rv (JStr t))"
    using auth_fields_kept [OF assms(1)] assms(2) by blast
  then show ?thesis
    using assms(1) by (auto simp: kept_content_def map_of_kept_relation [OF rel] map_add_def map_of_invite [OF tpi]
        split: option.splits)
qed

lemma maybe_redacted_alike:
  assumes "views cj h b64 p a" and "maybe_redacted p q" and "views cj h b64 q b"
  shows "alike a b"
proof (cases "q = p")
  case True
  then have "map_option JStr (ev_state_key b) = map_option JStr (ev_state_key a)"
    using assms by (simp add: views_def)
  then have "ev_state_key b = ev_state_key a" by (cases "ev_state_key a"; cases "ev_state_key b") auto
  with True show ?thesis using assms by (simp add: views_def alike_def)
next
  case False
  with assms(2) have ok: "pdu_ok p" and rv: "updated_redaction_rules (pd_room_version p)"
    and t: "type_of_pdu p \<noteq> JStr EventTypes_ThirdPartyInvite" and q: "q = redacted p"
    by (auto simp: maybe_redacted_def prune_event_redacted)
  have a: "type_of_pdu p = JStr (ev_type a)" "content_of p = ev_content a"
    using assms(1) by (simp_all add: views_def type_of_pdu_def jget_def content_of_def)
  have "map_option JStr (ev_state_key b) = map_option JStr (ev_state_key a)"
    using assms(1,3) by (simp add: q views_def map_of_redacted_dict allowed_keys_def)
  then have "ev_state_key b = ev_state_key a" by (cases "ev_state_key a"; cases "ev_state_key b") auto
  moreover have "map_of (pd_dict q) ''content'' = Some (JObj (ev_content b))" using assms(3) by (simp add: views_def)
  then have c: "ev_content b = kept_content (pd_room_version p) (JStr (ev_type a)) (ev_content a)"
    by (simp add: q map_of_redacted_dict a)
  moreover have "ev_type a = EventTypes_PowerLevels \<longrightarrow> dict_has (ev_content a) ''notifications'' \<or>
      map_of (ev_content b) ''notifications'' = map_of (ev_content a) ''notifications''"
    by (simp add: c kept_content_def map_of_kept_relation map_add_def map_of_invite dict_has_def split: option.splits)
  ultimately show ?thesis
    using assms(1,3) rv t a
    by (auto simp: q views_def alike_def map_of_redacted_dict allowed_keys_def event_id_redacted [OF ok] kept_auth_field)
qed

text \<open>
  C10.  Redacting state does not change who may do what.  Let any of the state events that
  authorise an event be redacted under the rules of room version 11, third-party invites
  apart: the authorisation rules then give the same result, the same error included, as on
  the events before redaction.  For a change of the power levels this supposes that the
  current power levels have no levels for notifications, which redaction removes.
\<close>

theorem redaction_keeps_authorisation:
  assumes "list_all2 (views cj h b64) ps es" and "list_all2 maybe_redacted ps qs" and "list_all2 (views cj h b64) qs fs"
    and "ev_type e = EventTypes_PowerLevels \<Longrightarrow>
      \<forall>a \<in> set es. ev_type a = EventTypes_PowerLevels \<longrightarrow> \<not> dict_has (ev_content a) ''notifications''"
  shows "check_state_dependent_auth_rules vs e fs = check_state_dependent_auth_rules vs e es"
proof -
  have "list_all2 alike es fs"
    using assms(1-3) maybe_redacted_alike [of cj h b64] unfolding list_all2_conv_all_nth by metis
  from make_auth_dict_alike [OF this]
  have "rbind (make_auth_dict fs) (check_rules_with_dict vs e) = rbind (make_auth_dict es) (check_rules_with_dict vs e)"
  proof (cases rule: rel_sum.cases)
    case (2 m m')
    have "\<not> dict_has (ev_content a) ''notifications''"
      if "ev_type e = EventTypes_PowerLevels" "m (EventTypes_PowerLevels, k) = Some a" for k a
    proof -
      have "a \<in> set es" using 2(3) that(2) by blast
      moreover have "ev_type a = EventTypes_PowerLevels"
        using 2(3) that(2) by (auto elim: state_alikeE [of m m' EventTypes_PowerLevels k])
      ultimately show ?thesis using assms(4) [OF that(1)] by blast
    qed
    then show ?thesis using 2 rules_alike [of m m' e vs] by simp
  qed simp
  then show ?thesis by (simp add: check_state_dependent_auth_rules_def)
qed

section \<open>A sample\<close>

definition sample_create_pdu :: pdu where
  "sample_create_pdu = sample_pdu\<lparr>pd_dict := [(''type'', JStr EventTypes_Create), (''sender'', JStr ''@a:x''),
     (''state_key'', JStr []), (''content'', JObj [])]\<rparr>"

definition sample_state_v11 :: "json_obj \<Rightarrow> event list" where
  "sample_state_v11 member =
     [(sample_event EventTypes_Create ''@a:x'' (Some []) [] ''$h'')\<lparr>ev_room_version := V11\<rparr>,
      (sample_event EventTypes_Member ''@a:x'' (Some ''@a:x'') member ''$h'')\<lparr>ev_room_version := V11\<rparr>]"

theorem redaction_keeps_authorisation_witness:
  "\<exists>e. check_state_dependent_auth_rules sample_verifier e
     (sample_state_v11 [(''displayname'', JStr ''A''), (''membership'', JStr ''join'')]) = Inr e \<and>
   check_state_dependent_auth_rules sample_verifier e (sample_state_v11 [(''membership'', JStr ''join'')]) = Inr e"
proof -
  let ?cj = "\<lambda>d :: json_obj. []" and ?h = "(''sha256'', \<lambda>s. s) :: hasher" and ?b64 = "\<lambda>(u :: bool) (s :: string). ''h''"
  let ?e = "sample_topic\<lparr>ev_sender := ''@a:x'', ev_room_version := V11\<rparr>"
  let ?es = "sample_state_v11 [(''displayname'', JStr ''A''), (''membership'', JStr ''join'')]"
  let ?fs = "sample_state_v11 [(''membership'', JStr ''join'')]"
  have ok: "pdu_ok sample_create_pdu"
    by (simp add: pdu_ok_def sample_create_pdu_def sample_pdu_def dict_has_def V11_def)
  have id: "event_id_of ?cj ?h ?b64 p = Inr (JStr ''$h'')" if "pdu_ok p" "pd_room_version p = V11" for p
    using that by (simp add: event_id_of_def compute_event_reference_hash_def prune_event_redacted V11_def)
  have ids: "event_id_of ?cj ?h ?b64 sample_create_pdu = Inr (JStr ''$h'')" "event_id_of ?cj ?h ?b64 sample_pdu = Inr (JStr ''$h'')"
    "event_id_of ?cj ?h ?b64 (redacted sample_pdu) = Inr (JStr ''$h'')"
    using ok sample_pdu_ok pdu_ok_redacted [OF sample_pdu_ok] by (auto intro!: id simp: sample_create_pdu_def sample_pdu_def)
  have "list_all2 (views ?cj ?h ?b64) [sample_create_pdu, sample_pdu] ?es"
    by (simp add: views_def ids sample_state_v11_def sample_event_def) (simp add: sample_create_pdu_def sample_pdu_def)
  moreover have "list_all2 (views ?cj ?h ?b64) [sample_create_pdu, redacted sample_pdu] ?fs"
    by (simp add: views_def ids sample_state_v11_def sample_event_def map_of_redacted_dict)
      (simp add: sample_create_pdu_def sample_pdu_def type_of_pdu_def content_of_def jget_def allowed_keys_def kept_content_def
        kept_relation_def kept_fields_def kept_invite_def V11_def)
  moreover have "list_all2 maybe_redacted [sample_create_pdu, sample_pdu] [sample_create_pdu, redacted sample_pdu]"
    using sample_pdu_ok by (simp add: maybe_redacted_def prune_event_redacted) (simp add: sample_pdu_def type_of_pdu_def jget_def V11_def)
  moreover have "ev_type ?e \<noteq> EventTypes_PowerLevels" by code_simp
  ultimately have "check_state_dependent_auth_rules sample_verifier ?e ?fs = check_state_dependent_auth_rules sample_verifier ?e ?es"
    by (intro redaction_keeps_authorisation) auto
  moreover have "check_state_dependent_auth_rules sample_verifier ?e ?es = Inr ?e" by code_simp
  ultimately show ?thesis by auto
qed

end
