(* ===== verification/Incoming_Events.thy ===== *)
theory Incoming_Events
  imports Event_Signing
begin

text \<open>
  Events that arrive over federation (\<^verbatim>\<open>synapse/federation/federation_base.py\<close>): the
  checks of their JSON before an event object is made, and the check of the content hash,
  which falls back to the redacted event.
\<close>

section \<open>Canonical JSON\<close>

definition CANONICALJSON_MAX_INT :: int where "CANONICALJSON_MAX_INT = 2 ^ 53 - 1"

definition CANONICALJSON_MIN_INT :: int where "CANONICALJSON_MIN_INT = - CANONICALJSON_MAX_INT"

definition MAX_DEPTH :: int where "MAX_DEPTH = 2 ^ 63 - 1"

lemma for_each_fundef_cong [fundef_cong]:
  "xs = ys \<Longrightarrow> (\<And>x. x \<in> set ys \<Longrightarrow> f x = g x) \<Longrightarrow> for_each f xs = for_each g ys"
  using for_each_cong by blast

fun validate_canonicaljson :: "json \<Rightarrow> unit result" where
  "validate_canonicaljson (JInt i) =
     guard_raise (i < CANONICALJSON_MIN_INT \<or> CANONICALJSON_MAX_INT < i)
       (SynapseError 400 ''JSON integer out of range'' BAD_JSON)"
| "validate_canonicaljson (JFloat m e) = Inl (SynapseError 400 ''Bad JSON value: float'' BAD_JSON)"
| "validate_canonicaljson (JObj d) = for_each (\<lambda>(k, v). validate_canonicaljson v) d"
| "validate_canonicaljson (JList xs) = for_each validate_canonicaljson xs"
| "validate_canonicaljson _ = Inr ()"

section \<open>Making an event of the JSON\<close>

definition assert_params_in_dict :: "json_obj \<Rightarrow> string list \<Rightarrow> unit result" where
  "assert_params_in_dict body required =
     guard_raise (filter (\<lambda>k. \<not> dict_has body k) required \<noteq> []) (SynapseError 400 ''Missing params: %r'' MISSING_PARAM)"

text \<open>
  The replacement of unsigned data that is no dict comes too late: the comprehension reads
  the old value.
\<close>

definition strip_unsigned_values :: "json_obj \<Rightarrow> json_obj result" where
  "strip_unsigned_values pdu_dict =
     rbind (dict_item pdu_dict ''unsigned'') (\<lambda>unsigned.
     let pdu_dict' = (if is_mapping unsigned then pdu_dict else AList.update ''unsigned'' (JObj []) pdu_dict)
     in rbind (dict_item pdu_dict' ''type'') (\<lambda>event_type.
        let whitelist = (if event_type = JStr EventTypes_Member
              then [''knock_room_state'', ''invite_room_state'', ''age''] else [''age''])
        in rbind (py_items unsigned) (\<lambda>items.
           Inr (AList.update ''unsigned'' (JObj (filter (\<lambda>(k, v). k \<in> set whitelist) items)) pdu_dict'))))"

definition event_from_pdu_json :: "json_obj \<Rightarrow> room_version \<Rightarrow> pdu result" where
  "event_from_pdu_json pdu_json rv =
     rbind (assert_params_in_dict pdu_json [''type'', ''depth'']) (\<lambda>_.
     rbind (if dict_has pdu_json ''unsigned'' then strip_unsigned_values pdu_json else Inr pdu_json) (\<lambda>pdu_json'.
     rbind (dict_item pdu_json' ''depth'') (\<lambda>depth.
     rbind (case depth of
              JInt i \<Rightarrow>
                if i < 0 then Inl (SynapseError 400 ''Depth too small'' BAD_JSON)
                else guard_raise (MAX_DEPTH < i) (SynapseError 400 ''Depth too large'' BAD_JSON)
            | _ \<Rightarrow> Inl (SynapseError 400 ''Depth %r not an intger'' BAD_JSON)) (\<lambda>_.
     rbind (if strict_canonicaljson rv then validate_canonicaljson (JObj pdu_json') else Inr ()) (\<lambda>_.
     make_event_from_dict pdu_json' rv [] None)))))"

section \<open>The content hash\<close>



section \<open>What is accepted\<close>

text \<open>The values inside a JSON value.\<close>

inductive part_of :: "json \<Rightarrow> json \<Rightarrow> bool" where
  self: "part_of v v"
| entry: "(k, v) \<in> set d \<Longrightarrow> part_of w v \<Longrightarrow> part_of w (JObj d)"
| item: "v \<in> set xs \<Longrightarrow> part_of w v \<Longrightarrow> part_of w (JList xs)"

inductive_cases part_of_obj: "part_of w (JObj d)"
inductive_cases part_of_list: "part_of w (JList xs)"
inductive_cases part_of_scalar: "part_of w JNull" "part_of w (JBool b)" "part_of w (JInt i)" "part_of w (JFloat m e)"
  "part_of w (JStr s)"

fun canonical_number :: "json \<Rightarrow> bool" where
  "canonical_number (JInt i) = (\<bar>i\<bar> < 2 ^ 53)"
| "canonical_number (JFloat m e) = False"
| "canonical_number _ = True"

lemma validate_canonicaljson_iff:
  "validate_canonicaljson v = Inr () \<longleftrightarrow> (\<forall>w. part_of w v \<longrightarrow> canonical_number w)"
proof (induction v rule: validate_canonicaljson.induct)
  case (1 i)
  then show ?case
    by (auto simp: CANONICALJSON_MIN_INT_def CANONICALJSON_MAX_INT_def elim: part_of_scalar intro: part_of.self)
next
  case (2 m e)
  then show ?case using part_of.self by fastforce
next
  case (3 d)
  then have "validate_canonicaljson (JObj d) = Inr () \<longleftrightarrow> (\<forall>(k, v) \<in> set d. \<forall>w. part_of w v \<longrightarrow> canonical_number w)"
    by (fastforce simp: for_each_Inr)
  then show ?case by (fastforce intro: part_of.intros elim: part_of_obj)
next
  case (4 xs)
  then have "validate_canonicaljson (JList xs) = Inr () \<longleftrightarrow> (\<forall>v \<in> set xs. \<forall>w. part_of w v \<longrightarrow> canonical_number w)"
    by (fastforce simp: for_each_Inr)
  then show ?case by (fastforce intro: part_of.intros elim: part_of_list)
qed (auto elim: part_of_scalar)

text \<open>Unsigned data that is kept.\<close>

definition unsigned_whitelist :: "json \<Rightarrow> string set" where
  "unsigned_whitelist t = (if t = JStr EventTypes_Member then {''knock_room_state'', ''invite_room_state'', ''age''} else {''age''})"

lemma strip_unsigned_Inr:
  assumes "strip_unsigned_values d = Inr d'"
  obtains u t where "map_of d ''unsigned'' = Some (JObj u)" "map_of d ''type'' = Some t"
    "d' = AList.update ''unsigned'' (JObj (filter (\<lambda>(k, v). k \<in> unsigned_whitelist t) u)) d"
proof -
  obtain v where v: "map_of d ''unsigned'' = Some v"
    using assms by (auto simp: strip_unsigned_values_def rbind_Inr_iff dict_item_Inr)
  then obtain u where u: "v = JObj u"
    using assms by (cases v) (auto simp: strip_unsigned_values_def Let_def dict_item_def rbind_Inr_iff)
  obtain t where t: "map_of d ''type'' = Some t"
    using assms by (auto simp: strip_unsigned_values_def v u dict_item_def rbind_Inr_iff split: option.splits)
  from that [OF v [unfolded u] t] assms show ?thesis
    by (auto simp: strip_unsigned_values_def v u t dict_item_def unsigned_whitelist_def)
qed

lemma stripped_cases:
  assumes "(if dict_has d ''unsigned'' then strip_unsigned_values d else Inr d) = Inr d'" and "map_of d ''type'' = Some t"
  obtains "d' = d" "map_of d ''unsigned'' = None"
  | u where "d' = AList.update ''unsigned'' (JObj u) d" "fst ` set u \<subseteq> unsigned_whitelist t"
proof (cases "dict_has d ''unsigned''")
  case True
  with assms(1) have "strip_unsigned_values d = Inr d'" by simp
  then obtain u t' where u: "map_of d ''type'' = Some t'"
    "d' = AList.update ''unsigned'' (JObj (filter (\<lambda>(k, v). k \<in> unsigned_whitelist t') u)) d"
    by (rule strip_unsigned_Inr)
  have "fst ` set (filter (\<lambda>(k, v). k \<in> unsigned_whitelist t) u) \<subseteq> unsigned_whitelist t" by auto
  moreover have "t' = t" using u(1) assms(2) by simp
  ultimately show ?thesis using u(2) that(2) by blast
next
  case False
  with assms(1) show ?thesis using that(1) by (simp add: dict_has_def)
qed

lemma map_of_stripped:
  assumes "(if dict_has d ''unsigned'' then strip_unsigned_values d else Inr d) = Inr d'" and "map_of d ''type'' = Some t"
  shows "\<And>f. f \<noteq> ''unsigned'' \<Longrightarrow> map_of d' f = map_of d f" and "distinct (map fst d) \<Longrightarrow> distinct (map fst d')"
    and "\<exists>u. jget d' ''unsigned'' (JObj []) = JObj u \<and> fst ` set u \<subseteq> unsigned_whitelist t"
  by (cases rule: stripped_cases [OF assms]; auto simp: update_conv' distinct_update jget_def)+

text \<open>The parts of \<open>pdu_ok\<close> that the constructor ensures for any JSON.\<close>

lemma made_event:
  assumes "make_event_from_dict d rv meta rejected = Inr p" and "distinct (map fst d)"
  shows "\<And>f. f \<noteq> ''signatures'' \<Longrightarrow> f \<noteq> ''unsigned'' \<Longrightarrow> map_of (pd_dict p) f = map_of d f"
    and "distinct (map fst (pd_dict p))" and "\<not> dict_has (pd_dict p) ''signatures''" and "\<not> dict_has (pd_dict p) ''unsigned''"
    and "dict_has (pd_dict p) ''event_id'' \<longleftrightarrow> event_format rv = ROOM_V1_V2" and "set (pd_dict p) \<subseteq> set d"
    and "jget d ''unsigned'' (JObj []) = JObj u \<Longrightarrow> pd_unsigned p = u" and "pd_room_version p = rv"
proof -
  have dict: "pd_dict p = AList.delete ''unsigned'' (AList.delete ''signatures'' d)"
    and id: "event_format rv = ROOM_V1_V2 \<longleftrightarrow> dict_has d ''event_id''" and rv: "pd_room_version p = rv"
    and un: "py_dict (jget d ''unsigned'' (JObj [])) = Inr (pd_unsigned p)"
    using assms(1) by (auto simp: make_event_from_dict_def rbind_Inr_iff)
  show "f \<noteq> ''signatures'' \<Longrightarrow> f \<noteq> ''unsigned'' \<Longrightarrow> map_of (pd_dict p) f = map_of d f" for f by (simp add: dict delete_conv')
  show "distinct (map fst (pd_dict p))" using assms(2) by (simp add: dict distinct_delete)
  show "\<not> dict_has (pd_dict p) ''signatures''" "\<not> dict_has (pd_dict p) ''unsigned''"
    by (simp_all add: dict dict_has_def delete_conv')
  show "dict_has (pd_dict p) ''event_id'' \<longleftrightarrow> event_format rv = ROOM_V1_V2" by (simp add: id dict dict_has_def delete_conv')
  show "set (pd_dict p) \<subseteq> set d" by (auto simp: dict AList.delete_eq)
  show "jget d ''unsigned'' (JObj []) = JObj u \<Longrightarrow> pd_unsigned p = u" using un by (simp add: py_dict_def)
  show "pd_room_version p = rv" by (rule rv)
qed

text \<open>
  C13.  An event object made of JSON from another server is well-formed: its depth is an
  integer from 0 to 2 ^ 63 - 1, no dict has a key twice, signatures and unsigned data are
  apart from the event, the event ID is in the event just in the first format, the unsigned
  data is what the server admits for that type, and in the room versions that demand it no
  value inside the event is a float or an integer beyond 53 bits.
\<close>

theorem accepted_events_well_formed:
  assumes "event_from_pdu_json d rv = Inr p" and "distinct (map fst d)"
  shows "(\<exists>i. map_of (pd_dict p) ''depth'' = Some (JInt i) \<and> 0 \<le> i \<and> i < 2 ^ 63) \<and>
    distinct (map fst (pd_dict p)) \<and> \<not> dict_has (pd_dict p) ''signatures'' \<and> \<not> dict_has (pd_dict p) ''unsigned'' \<and>
    (dict_has (pd_dict p) ''event_id'' \<longleftrightarrow> event_format rv = ROOM_V1_V2) \<and>
    (\<exists>t. map_of (pd_dict p) ''type'' = Some t \<and> fst ` set (pd_unsigned p) \<subseteq> unsigned_whitelist t) \<and>
    (strict_canonicaljson rv \<longrightarrow> (\<forall>w. part_of w (JObj (pd_dict p)) \<longrightarrow> canonical_number w))"
proof -
  obtain d' depth where type: "dict_has d ''type''"
    and strip: "(if dict_has d ''unsigned'' then strip_unsigned_values d else Inr d) = Inr d'"
    and depth: "map_of d' ''depth'' = Some depth"
    and range: "(case depth of JInt i \<Rightarrow> if i < 0 then Inl (SynapseError 400 ''Depth too small'' BAD_JSON)
        else guard_raise (MAX_DEPTH < i) (SynapseError 400 ''Depth too large'' BAD_JSON)
      | _ \<Rightarrow> Inl (SynapseError 400 ''Depth %r not an intger'' BAD_JSON)) = Inr ()"
    and canon: "(if strict_canonicaljson rv then validate_canonicaljson (JObj d') else Inr ()) = Inr ()"
    and make: "make_event_from_dict d' rv [] None = Inr p"
    using assms(1) unfolding event_from_pdu_json_def rbind_Inr_iff assert_params_in_dict_def
    by (auto simp: dict_item_Inr split: if_splits)
  obtain t where t: "map_of d ''type'' = Some t" using type by (auto simp: dict_has_def)
  note s = map_of_stripped [OF strip t]
  note m = made_event [OF make s(2) [OF assms(2)]]
  obtain i where "depth = JInt i" "0 \<le> i" "i < 2 ^ 63"
    using range by (cases depth) (auto simp: MAX_DEPTH_def split: if_splits)
  then have "\<exists>i. map_of (pd_dict p) ''depth'' = Some (JInt i) \<and> 0 \<le> i \<and> i < 2 ^ 63"
    using m(1) depth by simp
  moreover obtain u where "pd_unsigned p = u" "fst ` set u \<subseteq> unsigned_whitelist t"
    using s(3) m(7) by blast
  with t have "\<exists>t. map_of (pd_dict p) ''type'' = Some t \<and> fst ` set (pd_unsigned p) \<subseteq> unsigned_whitelist t"
    using m(1) s(1) by simp
  moreover have "canonical_number w" if "strict_canonicaljson rv" "part_of w (JObj (pd_dict p))" for w
  proof (cases "w = JObj (pd_dict p)")
    case False
    then have "part_of w (JObj d')"
      using that(2) m(6) by (auto elim!: part_of_obj intro: part_of.entry)
    then show ?thesis using canon that(1) by (metis validate_canonicaljson_iff)
  qed simp
  ultimately show ?thesis using m(2-5) by blast
qed

text \<open>
  C15.  Unsigned data that is not an object is not replaced by an empty object, as the code
  sets out to do: the event is refused with an \<open>AttributeError\<close> instead of a client error.
\<close>

theorem malformed_unsigned_raises:
  assumes "map_of d ''unsigned'' = Some v" and "\<not> is_mapping v" and "dict_has d ''type''" and "dict_has d ''depth''"
  shows "event_from_pdu_json d rv = Inl PyAttributeError"
  using assms
  by (cases v) (auto simp: event_from_pdu_json_def assert_params_in_dict_def dict_has_def strip_unsigned_values_def
      dict_item_def Let_def update_conv')



section \<open>Samples\<close>

definition sample_pdu_json :: json_obj where
  "sample_pdu_json = [(''type'', JStr EventTypes_Member), (''depth'', JInt 7), (''content'', JObj [(''membership'', JStr ''join'')]),
     (''unsigned'', JObj [(''age'', JInt 3), (''extra'', JNull)])]"

theorem accepted_events_well_formed_witness:
  "\<exists>p. event_from_pdu_json sample_pdu_json V11 = Inr p \<and> fst ` set (pd_unsigned p) \<subseteq> unsigned_whitelist (JStr EventTypes_Member) \<and>
     (\<forall>w. part_of w (JObj (pd_dict p)) \<longrightarrow> canonical_number w)"
proof -
  have "is_ok (event_from_pdu_json sample_pdu_json V11)" by code_simp
  then obtain p where p: "event_from_pdu_json sample_pdu_json V11 = Inr p" by (auto simp: is_ok_iff)
  have "map_of (pd_dict p) ''type'' = Some (JStr EventTypes_Member)"
  proof -
    have "(case event_from_pdu_json sample_pdu_json V11 of Inr p \<Rightarrow> jget (pd_dict p) ''type'' JNull = JStr EventTypes_Member | _ \<Rightarrow> False)"
      by code_simp
    then show ?thesis by (simp add: p jget_def split: option.splits)
  qed
  moreover have "distinct (map fst sample_pdu_json)" "strict_canonicaljson V11" by code_simp+
  ultimately show ?thesis using accepted_events_well_formed [OF p] p by auto
qed

theorem malformed_unsigned_raises_witness:
  "event_from_pdu_json [(''type'', JStr EventTypes_Member), (''depth'', JInt 7), (''unsigned'', JNull)] V11 = Inl PyAttributeError"
  by (rule malformed_unsigned_raises [where v = JNull]) (simp_all add: dict_has_def)


end
