(* ===== verification/Spec2Isabelle.thy ===== *)
theory Spec2Isabelle
  imports Event_Auth_Format State_Filter_Props Iterutils State_V2_Termination Stream_Ids Multi_Writer
    Stream_Token_Props Room_Stream Redaction_Auth Incoming_Events
begin

text \<open>
  A verification library for the Matrix homeserver under \<^verbatim>\<open>src/synapse\<close>.

  \<^bold>\<open>The program.\<close>  A homeserver keeps, for every room, a graph of events.  A new event
  must pass the authorisation rules against the events it cites; where branches of the
  graph meet, the state of the room is resolved from the states of the branches.  Every
  event gets a stream ID when it is stored, clients hold tokens that are positions in these
  streams, and they read what lies between two tokens page by page, through filters on
  events and on room state.  The theories follow these parts:

  \<^item> \<open>Prelude\<close> fixes how Python is read (exceptions as \<open>py_error\<close> in \<open>'a result\<close>, dicts as
    association lists, sets as lists without duplicates, strings as their UTF-8 bytes) and
    models the standard library's \<^verbatim>\<open>heapq\<close>; \<open>Json\<close> has JSON values with the
    operations that Python applies to values of unchecked type.

  \<^item> \<open>Room_Versions\<close> (\<^verbatim>\<open>api/room_versions.py\<close>), \<open>Identifiers\<close> (\<^verbatim>\<open>types/__init__.py\<close>, and
    the server names of \<^verbatim>\<open>util/stringutils.py\<close>) and
    \<open>Events\<close> (\<^verbatim>\<open>events/__init__.py\<close>): room versions with their feature flags, user, room,
    alias and event IDs, and the event record.

  \<^item> \<open>Event_Auth\<close> (\<^verbatim>\<open>event_auth.py\<close>, every function).  \<open>Event_Auth_Safety\<close> shows that the
    events selected by \<open>auth_types_for_event\<close> decide the outcome, and what an accepted
    event implies: who may remove or ban whom, who may join, that power levels cannot be
    raised beyond the sender's, that the sender is joined and has the power required.
    \<open>Event_Auth_Format\<close> treats the checks that read no room state: the auth events cited,
    the size limits and the required signatures.

  \<^item> \<open>Redaction\<close> (\<^verbatim>\<open>events/utils.py\<close>, and the event objects of \<^verbatim>\<open>events/__init__.py\<close>),
    \<open>Event_Signing\<close> (\<^verbatim>\<open>crypto/event_signing.py\<close>) and \<open>Incoming_Events\<close>
    (\<^verbatim>\<open>federation/federation_base.py\<close>): redaction is idempotent and keeps the event ID, the
    hash and what was signed; a hashed and signed event passes its own check; what is made
    of JSON from another server is well-formed, and an event whose content was changed is
    replaced by its redacted copy.  \<open>Redaction_Auth\<close> shows that redacting room state under the
    rules of room version 11 does not change the outcome of the authorisation rules.

  \<^item> \<open>State_V2\<close> (\<^verbatim>\<open>state/v2.py\<close>) and \<open>Topological_Sort\<close> (its
    \<^verbatim>\<open>lexicographical_topological_sort\<close>).  \<open>State_V2_Props\<close> shows that the agreed part of
    the state survives, \<open>State_V2_Power_Sort\<close> that the power events are put in a
    topological order, highest power level of the sender first, \<open>State_V2_Provenance\<close> that every other entry of the result is an
    admissible event that passed the auth rules, and \<open>State_V2_Termination\<close> that
    resolution ends and uses the true difference of the auth chains.

  \<^item> \<open>Iterutils\<close> (\<^verbatim>\<open>util/iterutils.py\<close>): batching and the two further topological sorts,
    which are shown to agree with the reference order.

  \<^item> \<open>State_Filter\<close>, \<open>State_Filter_Props\<close> (\<^verbatim>\<open>types/state.py\<close>): the operations on state
    filters against the set of state keys that a filter selects.

  \<^item> \<open>Id_Generators\<close> (\<^verbatim>\<open>storage/util/id_generators.py\<close>): \<open>Stream_Ids\<close> runs the generator of one
    writer, and \<open>Multi_Writer\<close> several writers with replication between them, as step
    relations; the invariants show that the positions they report never pass a row that is
    still being written.

  \<^item> \<open>Stream_Tokens\<close>, \<open>Stream_Token_Props\<close> (\<^verbatim>\<open>types/__init__.py\<close>): the tokens, their textual
    forms, and how they divide a stream into ranges.

  \<^item> \<open>Filtering\<close> (\<^verbatim>\<open>api/filtering.py\<close>), \<open>Pagination\<close>, \<open>Pagination_Props\<close>
    (\<^verbatim>\<open>storage/databases/main/stream.py\<close>): the query for one page, and that a client that
    follows the tokens reads everything once and in order.

  \<^item> \<open>Stream_Change_Cache\<close> (\<^verbatim>\<open>util/caches/stream_change_cache.py\<close>) against the history of
    the changes reported to it; \<open>Events_Worker\<close>
    (\<^verbatim>\<open>storage/databases/main/events_worker.py\<close>), the loading of events by their IDs, which
    withholds rejected events and unauthorised redactions; and \<open>Room_Stream\<close>
    (\<^verbatim>\<open>get_room_events_stream_for_room\<close>), which reads a room through the cache and loads the
    events of the rows it selects.

  \<^item> This theory joins the generators and the tokens: the token that
    \<^verbatim>\<open>get_room_max_token\<close> makes from the positions of the generators is complete.

  \<^bold>\<open>Interfaces.\<close>  Where one part relies on another, the contract is a locale, interpreted on the
  model: \<open>heap_queue\<close> (the heap the sorts use), \<open>dependency_graph\<close> (greedy orders of a
  finite acyclic graph, interpreted for the three sorts), \<open>domain_specific_string\<close> (the four
  kinds of IDs), \<open>event_cache\<close> (the event map that resolution fills from the store),
  \<open>change_tracker\<close> (a record of changes that may forget but never hides a later change) and
  \<open>content_step\<close> (what loading an event may do to the store).

  \<^bold>\<open>Loops.\<close>  The topological sorts take as fuel one unit per node and one more; each round
  finishes a node, or a layer of nodes, and the theorems on them state that a result is
  returned.  The searches of \<open>State_V2\<close> have no visited check and are
  \<open>partial_function (option)\<close>s; they are shown to return for events whose references are
  acyclic.  A client's reading loop in \<open>Pagination_Props\<close> takes one unit per event and one
  more, and is shown to end with an empty page.

  \<^bold>\<open>Parameters.\<close>  Code outside \<^verbatim>\<open>src/\<close> is an argument: signing and the verification of
  signatures, the canonical encoding of JSON, base64, the hash algorithm, the
  syntax of IPv6 addresses, the event store
  and the database's sequences.  SQL statements are modelled by the rows they select or change.

  \<^bold>\<open>Not modelled.\<close>  The request handlers, the REST, federation and replication transport,
  media, push, application services and the module interface are asynchronous I/O on
  Twisted around the parts above; the general database layer executes statements of an
  external engine; the fetching of server keys, with the signature checks of received events
  that rest on it, is network I/O; the evaluation of push rules is written in another language; configuration, logging, metrics, start-up and the maintenance scripts
  do not take part in the behaviour verified.  State resolution v1, which only rooms of
  version 1 use, is left out, as are the JSON schemas of \<^verbatim>\<open>api/filtering.py\<close>, in
  \<^verbatim>\<open>stream.py\<close> membership changes of a user and federation positions, and in
  \<^verbatim>\<open>events_worker.py\<close> the building of entries from database rows and the invalidation of
  the cache.
\<close>

section \<open>Tokens and the generators of stream IDs\<close>

lemma room_max_token_eq:
  assumes "mw_positive g"
  shows "get_room_max_token g = Inr \<lparr>tk_stream = mw_persisted_upto_position g, tk_instance_map =
      filter (\<lambda>kv. mw_persisted_upto_position g < snd kv) (mw_current_positions g), tk_topological = None\<rparr>"
proof -
  have f: "return_factor g = 1" using assms by (simp add: return_factor_def)
  then have "get_positions g = mw_current_positions g" by (simp add: get_positions_def case_prod_unfold)
  then show ?thesis
    by (simp add: get_room_max_token_def RoomStreamToken_def truthy_def get_current_token_def
        get_persisted_upto_position_def f Let_def case_prod_unfold)
qed

text \<open>
  C33.  The position that any process gives out as the current one never passes an event
  that is still to come: whatever the writers of the event stream do before and after, a
  row that is being written when the token is made, or is written later, is after the
  token, so that a client that goes on reading from it will be sent the row.
\<close>

theorem room_max_token_complete:
  assumes "mw_initial db writers True W0" and "mw_step\<^sup>*\<^sup>* W0 W" and "mw_step\<^sup>*\<^sup>* W W'" and "(w, i) \<in> used_by W'"
  shows "\<exists>t. get_room_max_token (mw_gens W v) = Inr t \<and> persisted_after w i t"
proof -
  have inv: "mw_inv writers True W"
    using assms(2) by (induction rule: rtranclp_induct) (auto intro: mw_step_inv mw_initial_inv [OF assms(1)])
  let ?g = "mw_gens W v"
  note g = gen_okD [OF mw_invD(3) [OF inv, of v]]
  have new: "(w, i) \<in> used_by W \<or> mw_seq W < i" using used_by_later [OF assms(3)] assms(4) by blast
  have "mw_persisted_upto_position ?g < i"
    using g(9) new by (auto simp: below_all_def)
  moreover have "p < i" if "map_of (mw_current_positions ?g) w = Some p" for p
    using g(3) [OF that] new by (auto simp: clear_of_def settled_def)
  moreover have "mw_positive ?g" using mw_invD(4) [OF inv, of v] by (simp add: covers_def)
  ultimately show ?thesis
    using map_of_filter_snd [OF g(2), of "\<lambda>p. mw_persisted_upto_position ?g < p" w]
    by (auto simp: room_max_token_eq persisted_after_def stream_pos_def split: option.splits if_splits)
qed

theorem room_max_token_complete_witness:
  "\<exists>W' t. mw_step\<^sup>*\<^sup>* sample_mw_world W' \<and> (''a'', 8) \<in> used_by W' \<and>
     get_room_max_token (mw_gens sample_mw_world ''b'') = Inr t \<and> persisted_after ''a'' 8 t"
proof -
  obtain W where run: "mw_step\<^sup>*\<^sup>* sample_mw_world W" and use: "(''a'', 8) \<in> used_by W"
    using sample_mw_run by blast
  from room_max_token_complete [OF sample_mw_initial rtranclp.rtrancl_refl run use, of "''b''"] run use
  show ?thesis by blast
qed

end
